(* ===== verification/Chain_Prelude.thy ===== *)
theory Chain_Prelude
  imports Main "HOL-Library.Word" "HOL-Library.Multiset"
begin

text \<open>
  Shared vocabulary of the development: the machine-integer types of the node, the exception
  classes that its checks raise, results that are either such an exception or a value, and
  the generic facts on lists, maps and words that the components rely on.
\<close>

unbundle bit_operations_syntax

section \<open>Machine integers\<close>

type_synonym u8 = "8 word"
type_synonym u16 = "16 word"
type_synonym u32 = "32 word"
type_synonym u64 = "64 word"
type_synonym u128 = "128 word"

text \<open>
  A signed 64-bit value is the same word read with \<^const>\<open>sint\<close>; the casts of the code between
  \<^verbatim>\<open>int64_t\<close> and \<^verbatim>\<open>uint64_t\<close> are then the identity, and signed comparisons are comparisons
  of \<^const>\<open>sint\<close>.
\<close>

type_synonym i64 = "64 word"

definition is_nonneg :: "i64 \<Rightarrow> bool" where
  "is_nonneg x \<longleftrightarrow> 0 \<le> sint x"

definition is_positive :: "i64 \<Rightarrow> bool" where
  "is_positive x \<longleftrightarrow> 0 < sint x"

section \<open>Errors as values\<close>

text \<open>
  One constructor per exception class of \<^verbatim>\<open>libraries/chain/include/eosio/chain/exceptions.hpp\<close>
  that the modelled code throws; \<open>Db_Key_Not_Found\<close> stands for the \<^verbatim>\<open>std::out_of_range\<close> of a
  database lookup without a match, \<open>Db_Uniqueness_Violation\<close> for its refusal of an object whose key
  is taken, \<open>Unpack_Exception\<close> for data that does not decode, \<open>Bad_Variant_Access\<close> for a
  \<^verbatim>\<open>std::get\<close> of an alternative a variant does not hold, \<open>Undefined_Behaviour\<close> for an operation
  that C++ leaves undefined (a past-the-end dereference, a division by zero), and
  \<open>Does_Not_Terminate\<close> for a loop that runs forever.
\<close>

datatype chain_error =
    Name_Type_Exception
  | Overflow_Exception
  | Block_Validate_Exception
  | Unlinkable_Block_Exception
  | Producer_Double_Confirm
  | Producer_Schedule_Exception
  | Wrong_Producer
  | Wrong_Signing_Key
  | No_Block_Signatures
  | Invalid_Block_Header_Extension
  | Invalid_Block_Extension
  | Ill_Formed_Protocol_Feature_Activation
  | Ill_Formed_Additional_Block_Signatures_Extension
  | Fork_Database_Exception
  | Fork_Db_Block_Not_Found
  | Rate_Limiting_State_Inconsistent
  | Resource_Limit_Exception
  | Tx_Cpu_Usage_Exceeded
  | Tx_Net_Usage_Exceeded
  | Block_Resource_Exhausted
  | Ram_Usage_Exceeded
  | Transaction_Exception
  | Permission_Query_Exception
  | Unactivated_Key_Type
  | Action_Validate_Exception
  | Irrelevant_Auth_Exception
  | Unlinkable_Min_Permission_Action
  | Unsatisfied_Authorization
  | Tx_Irrelevant_Sig
  | Tx_Not_Found
  | Missing_Auth_Exception
  | Account_Name_Exists_Exception
  | Account_Query_Exception
  | Invalid_Contract_Vm_Type
  | Invalid_Contract_Vm_Version
  | Set_Exact_Code
  | Key_Blacklist_Exception
  | Wasm_Exception
  | Unpack_Exception
  | Action_Type_Exception
  | Db_Key_Not_Found
  | Db_Uniqueness_Violation
  | Database_Exception
  | Protocol_Feature_Exception
  | Protocol_Feature_Validation_Exception
  | Protocol_Feature_Bad_Block_Exception
  | Protocol_Feature_Iterator_Exception
  | Subjective_Block_Production_Exception
  | Plugin_Exception
  | Misc_Exception
  | Bad_Variant_Access
  | Undefined_Behaviour
  | Does_Not_Terminate

type_synonym 'a res = "chain_error + 'a"

definition rbind :: "'a res \<Rightarrow> ('a \<Rightarrow> 'b res) \<Rightarrow> 'b res" where
  "rbind r k = (case r of Inl e \<Rightarrow> Inl e | Inr x \<Rightarrow> k x)"

text \<open>\<^verbatim>\<open>EOS_ASSERT( c, e, ... )\<close>: raise \<open>e\<close> when the condition is false.\<close>

definition eos_assert :: "bool \<Rightarrow> chain_error \<Rightarrow> unit res" where
  "eos_assert c e = (if c then Inr () else Inl e)"

text \<open>A loop whose body may raise: it stops at the first error.\<close>

fun rfold :: "('a \<Rightarrow> 's \<Rightarrow> 's res) \<Rightarrow> 'a list \<Rightarrow> 's \<Rightarrow> 's res" where
  "rfold f [] s = Inr s"
| "rfold f (x # xs) s = rbind (f x s) (rfold f xs)"

named_theorems res_simps \<open>evaluation rules for results\<close>

lemma rbind_Inl [simp, res_simps]: "rbind (Inl e) k = Inl e"
  by (simp add: rbind_def)

lemma rbind_Inr [simp, res_simps]: "rbind (Inr x) k = k x"
  by (simp add: rbind_def)

lemma rbind_eq_Inr [simp, res_simps]: "rbind r k = Inr y \<longleftrightarrow> (\<exists>x. r = Inr x \<and> k x = Inr y)"
  by (cases r) simp_all

lemma rbind_eq_Inl: "rbind r k = Inl e \<longleftrightarrow> r = Inl e \<or> (\<exists>x. r = Inr x \<and> k x = Inl e)"
  by (cases r) auto

lemma rbind_cong [fundef_cong]:
  "r = r' \<Longrightarrow> (\<And>x. r' = Inr x \<Longrightarrow> k x = k' x) \<Longrightarrow> rbind r k = rbind r' k'"
  by (cases r') simp_all

lemma eos_assert_True [simp, res_simps]: "eos_assert True e = Inr ()"
  by (simp add: eos_assert_def)

lemma eos_assert_False [simp, res_simps]: "eos_assert False e = Inl e"
  by (simp add: eos_assert_def)

lemma eos_assert_eq_Inr [simp, res_simps]: "eos_assert c e = Inr u \<longleftrightarrow> c"
  by (simp add: eos_assert_def)

lemma eos_assert_eq_Inl [simp, res_simps]: "eos_assert c e = Inl e' \<longleftrightarrow> \<not> c \<and> e' = e"
  by (auto simp: eos_assert_def)

lemma rfold_append: "rfold f (xs @ ys) s = rbind (rfold f xs s) (rfold f ys)"
proof (induction xs arbitrary: s)
  case Nil
  then show ?case by simp
next
  case (Cons x xs)
  then show ?case by (cases "f x s") simp_all
qed

text \<open>An invariant of the body is an invariant of the loop.\<close>

lemma rfold_invariant:
  assumes "rfold f xs s = Inr t" and "P s"
    and "\<And>x s t. x \<in> set xs \<Longrightarrow> P s \<Longrightarrow> f x s = Inr t \<Longrightarrow> P t"
  shows "P t"
  using assms
proof (induction xs arbitrary: s)
  case Nil
  then show ?case by simp
next
  case (Cons x xs)
  from Cons.prems(1) obtain u where u: "f x s = Inr u" "rfold f xs u = Inr t"
    by auto
  have "P u" using Cons.prems(2,3) u(1) by auto
  then show ?case using Cons.IH [OF u(2)] Cons.prems(3) by auto
qed

section \<open>Words\<close>

lemma unat_take_bit_less: "unat (take_bit n w) < 2 ^ n" for w :: "'a::len word"
  by (simp add: unsigned_take_bit_eq take_bit_nat_less_exp)

lemma take_bit_small: "unat w < 2 ^ n \<Longrightarrow> take_bit n w = w" for w :: "'a::len word"
  by (simp add: word_unat_eq_iff unsigned_take_bit_eq take_bit_nat_eq_self)

lemma unat_exp2: "k < LENGTH('a) \<Longrightarrow> unat (2 ^ k :: 'a::len word) = 2 ^ k"
proof -
  assume "k < LENGTH('a)"
  then have "(2::nat) ^ k < 2 ^ LENGTH('a)" by simp
  moreover have "(2 ^ k :: 'a word) = word_of_nat (2 ^ k)" by simp
  ultimately show ?thesis by (simp only: unat_of_nat) (simp add: take_bit_nat_eq_self)
qed

lemma and_not_absorb:
  assumes "w AND c = (0 :: 'a::len word)"
  shows "w AND NOT c = w"
proof (rule bit_word_eqI)
  fix n assume "n < LENGTH('a)"
  have "\<not> bit (w AND c) n" by (simp add: assms)
  then show "bit (w AND NOT c) n \<longleftrightarrow> bit w n"
    using \<open>n < LENGTH('a)\<close> by (auto simp: bit_and_iff bit_not_iff)
qed

text \<open>Word arithmetic that does not leave the range is arithmetic of natural numbers.\<close>

lemma unat_add_small: "unat a + unat b < 2 ^ LENGTH('a) \<Longrightarrow> unat (a + b) = unat a + unat b"
  for a b :: "'a::len word"
  by (simp add: unat_word_ariths)

lemma unat_mult_small: "unat a * unat b < 2 ^ LENGTH('a) \<Longrightarrow> unat (a * b) = unat a * unat b"
  for a b :: "'a::len word"
  by (simp add: unat_word_ariths)

lemma unat_minus_le: "b \<le> a \<Longrightarrow> unat (a - b) = unat a - unat b" for a b :: "'a::len word"
  by (rule unat_sub)

lemma unat_minus_1: "unat (- 1 :: 'a::len word) = 2 ^ LENGTH('a) - 1"
  by (simp add: unsigned_minus_1_eq_mask mask_eq_exp_minus_1)

lemma of_nat_unat_self: "of_nat (unat w) = w" for w :: "'a::len word"
  by simp

lemma add_fits_iff: "b \<le> - 1 - a \<longleftrightarrow> unat a + unat b < 2 ^ LENGTH('a)" for a b :: "'a::len word"
proof -
  have "unat (- 1 - a) = 2 ^ LENGTH('a) - 1 - unat a"
    by (simp add: unat_sub unat_minus_1)
  moreover have "unat a < 2 ^ LENGTH('a)" by (rule unsigned_less)
  ultimately show ?thesis unfolding word_le_nat_alt by linarith
qed

lemma le_pred_iff: "0 < n \<Longrightarrow> x \<le> n - 1 \<longleftrightarrow> x < n" for x n :: nat
  by linarith

lemma unat_of_nat_small: "n < 2 ^ LENGTH('a) \<Longrightarrow> unat (of_nat n :: 'a::len word) = n"
  by (simp add: unat_of_nat take_bit_nat_eq_self)

lemma unat_lt_64: "unat (w :: u64) < 18446744073709551616"
  using unsigned_less [of w] by simp

lemma unat_lt_32: "unat (w :: u32) < 4294967296"
  using unsigned_less [of w] by simp

lemma unat_ucast_32_64 [simp]: "unat (ucast (w :: u32) :: u64) = unat w"
  using unat_lt_32 [of w] by (simp add: unsigned_ucast_eq take_bit_nat_eq_self)

lemma unat_ucast_32_128 [simp]: "unat (ucast (w :: u32) :: u128) = unat w"
  using unat_lt_32 [of w] by (simp add: unsigned_ucast_eq take_bit_nat_eq_self)

lemma unat_ucast_64_128 [simp]: "unat (ucast (w :: u64) :: u128) = unat w"
  using unat_lt_64 [of w] by (simp add: unsigned_ucast_eq take_bit_nat_eq_self)

lemma sint_range_64: "- 9223372036854775808 \<le> sint (x :: i64)" "sint (x :: i64) < 9223372036854775808"
  using sint_ge [of x] sint_lt [of x] by simp_all

lemma int_unat_sint: "int (unat (x :: i64)) = (if 0 \<le> sint x then sint x else sint x + 18446744073709551616)"
proof -
  have "int (unat x) = sint x mod 18446744073709551616"
    by (simp add: uint_sint take_bit_eq_mod)
  moreover have "sint x mod 18446744073709551616 = sint x + 18446744073709551616" if "sint x < 0"
  proof -
    have "sint x mod 18446744073709551616 = (sint x + 18446744073709551616) mod 18446744073709551616"
      by (rule mod_add_self2 [symmetric])
    also have "\<dots> = sint x + 18446744073709551616"
      by (rule mod_pos_pos_trivial) (use that sint_range_64 [of x] in simp_all)
    finally show ?thesis .
  qed
  ultimately show ?thesis using sint_range_64 [of x] by simp
qed

lemma int_unat_nonneg: "0 \<le> sint x \<Longrightarrow> int (unat (x :: i64)) = sint x"
  using int_unat_sint [of x] by simp

lemma int_unat_neg: "sint x < 0 \<Longrightarrow> int (unat (x :: i64)) = sint x + 18446744073709551616"
  using int_unat_sint [of x] by simp

lemma sint_nonneg_unat: "is_nonneg x \<Longrightarrow> sint x = int (unat x)"
  using int_unat_sint [of x] by (simp add: is_nonneg_def)

lemma is_nonneg_iff: "is_nonneg x \<longleftrightarrow> unat x < 9223372036854775808"
  using int_unat_nonneg [of x] int_unat_neg [of x] sint_range_64 [of x]
  unfolding is_nonneg_def by linarith

lemma is_positive_iff: "is_positive x \<longleftrightarrow> 0 < unat x \<and> unat x < 9223372036854775808"
  using int_unat_nonneg [of x] int_unat_neg [of x] sint_range_64 [of x]
  unfolding is_positive_def by linarith

section \<open>Text formats\<close>

text \<open>
  The contract of a value type with a textual form: reading what was printed gives the value
  back, and only what a value prints as is read as that value.
\<close>

locale text_codec =
  fixes parse :: "string \<Rightarrow> 'a res"
    and print :: "'a \<Rightarrow> string"
  assumes parse_print: "parse (print x) = Inr x"
    and parse_sound: "parse s = Inr x \<Longrightarrow> print x = s"
begin

lemma parse_iff: "parse s = Inr x \<longleftrightarrow> print x = s"
  using parse_print parse_sound by blast

lemma print_inject: "print x = print y \<longleftrightarrow> x = y"
  using parse_print by (metis sum.inject(2))

lemma parse_inject: "parse s = Inr x \<Longrightarrow> parse t = Inr x \<Longrightarrow> s = t"
  using parse_sound by blast

end

end
