(* ===== verification/Merkle.thy ===== *)
theory Merkle
  imports Chain_Prelude
begin

text \<open>
  Merkle roots of digests (\<^verbatim>\<open>merkle.cpp\<close>, \<^verbatim>\<open>merkle.hpp\<close>) and the incremental tree of
  \<^verbatim>\<open>incremental_merkle.hpp\<close>. The hash of a pair, SHA-256 of its serialisation, is the parameter
  \<open>H\<close> of the definitions.
\<close>

section \<open>Definitions\<close>

text \<open>\<^verbatim>\<open>digest_type\<close> is \<^verbatim>\<open>fc::sha256\<close>: four 64-bit words \<^verbatim>\<open>_hash[0..3]\<close>, zero by default.\<close>

datatype digest = Digest (hash0: u64) (hash1: u64) (hash2: u64) (hash3: u64)

definition digest_default :: digest where
  "digest_default = Digest 0 0 0 0"

definition make_canonical_left :: "digest \<Rightarrow> digest" where
  "make_canonical_left d = Digest (hash0 d AND 0xFFFFFFFFFFFFFF7F) (hash1 d) (hash2 d) (hash3 d)"

definition make_canonical_right :: "digest \<Rightarrow> digest" where
  "make_canonical_right d = Digest (hash0 d OR 0x80) (hash1 d) (hash2 d) (hash3 d)"

definition is_canonical_left :: "digest \<Rightarrow> bool" where
  "is_canonical_left d \<longleftrightarrow> hash0 d AND 0x80 = 0"

definition is_canonical_right :: "digest \<Rightarrow> bool" where
  "is_canonical_right d \<longleftrightarrow> hash0 d AND 0x80 \<noteq> 0"

definition make_canonical_pair :: "digest \<Rightarrow> digest \<Rightarrow> digest \<times> digest" where
  "make_canonical_pair l r = (make_canonical_left l, make_canonical_right r)"

text \<open>
  One round of the loop of \<^verbatim>\<open>merkle\<close>: an odd number of ids is padded with a copy of the last,
  then \<^verbatim>\<open>ids[i]\<close> is overwritten with the hash of \<^verbatim>\<open>ids[2*i]\<close> and \<^verbatim>\<open>ids[2*i+1]\<close> for
  increasing \<open>i\<close>, and the first half is kept.
\<close>

definition merkle_round :: "(digest \<times> digest \<Rightarrow> digest) \<Rightarrow> digest list \<Rightarrow> digest list" where
  "merkle_round H ids =
     (let ids = (if odd (length ids) then ids @ [last ids] else ids);
          ids = fold (\<lambda>i ids. ids [i := H (make_canonical_pair (ids ! (2 * i)) (ids ! (2 * i + 1)))])
                  [0..<length ids div 2] ids
      in take (length ids div 2) ids)"

lemma length_merkle_round [simp]: "length (merkle_round H ids) = (length ids + 1) div 2"
proof -
  have "length (fold (\<lambda>i ids. ids [i := f i ids]) js ids) = length ids" for f js and ids :: "digest list"
    by (induction js arbitrary: ids) simp_all
  then show ?thesis by (auto simp: merkle_round_def Let_def)
qed

function merkle_loop :: "(digest \<times> digest \<Rightarrow> digest) \<Rightarrow> digest list \<Rightarrow> digest list" where
  "merkle_loop H ids = (if length ids > 1 then merkle_loop H (merkle_round H ids) else ids)"
  by pat_completeness auto
termination
  by (relation "measure (\<lambda>(H, ids). length ids)") auto

declare merkle_loop.simps [simp del]

definition merkle :: "(digest \<times> digest \<Rightarrow> digest) \<Rightarrow> digest list \<Rightarrow> digest" where
  "merkle H ids = (if length ids = 0 then digest_default else hd (merkle_loop H ids))"

text \<open>
  \<^verbatim>\<open>std::bit_ceil\<close> (the least power of two that is not smaller; undefined when that does not fit
  the type) and \<^verbatim>\<open>std::bit_width\<close> (the number of bits needed to write the value).
\<close>

function bit_width :: "nat \<Rightarrow> nat" where
  "bit_width n = (if n = 0 then 0 else Suc (bit_width (n div 2)))"
  by pat_completeness auto
termination
  by (relation "measure id") auto

declare bit_width.simps [simp del]

definition bit_ceil :: "u64 \<Rightarrow> u64 option" where
  "bit_ceil x =
     (let w = bit_width (unat x - 1) in if w < 64 then Some (2 ^ w) else None)"

definition calculate_max_depth :: "u64 \<Rightarrow> nat res" where
  "calculate_max_depth node_count =
     (if node_count = 0 then Inr 0
      else case bit_ceil node_count of
        None \<Rightarrow> Inl Undefined_Behaviour
      | Some c \<Rightarrow> Inr (bit_width (unat c)))"

text \<open>
  The tree stores the number of leaves and the active nodes. \<^verbatim>\<open>append\<close> walks from the new leaf
  to the root: \<open>index\<close> is the position of the current node in its level, \<open>active\<close> the part of the
  old active nodes the iterator has not passed, \<open>updated\<close> the new active nodes so far.
  Reading past the end of the active nodes is undefined behaviour; so is an append to a tree of
  \<open>2^64 - 1\<close> leaves, whose leaf count wraps to zero and whose walk (of depth \<^verbatim>\<open>0 - 1\<close>) reads more
  nodes than there are.
\<close>

record incremental_merkle =
  node_count :: u64
  active_nodes :: "digest list"

definition incremental_merkle_init :: incremental_merkle where
  "incremental_merkle_init = \<lparr>node_count = 0, active_nodes = []\<rparr>"

fun append_loop ::
  "(digest \<times> digest \<Rightarrow> digest) \<Rightarrow> nat \<Rightarrow> u64 \<Rightarrow> bool \<Rightarrow> digest \<Rightarrow> digest list \<Rightarrow> digest list
     \<Rightarrow> (digest \<times> digest list) res" where
  "append_loop H 0 index partial top_node active updated = Inr (top_node, updated)"
| "append_loop H (Suc current_depth) index partial top_node active updated =
     (if index AND 0x1 = 0 then
        append_loop H current_depth (drop_bit 1 index) True (H (make_canonical_pair top_node top_node)) active
          (if \<not> partial then updated @ [top_node] else updated)
      else case active of
        [] \<Rightarrow> Inl Undefined_Behaviour
      | left_value # active \<Rightarrow>
          append_loop H current_depth (drop_bit 1 index) partial
            (H (make_canonical_pair left_value top_node)) active
            (if partial then updated @ [left_value] else updated))"

definition incremental_append ::
  "(digest \<times> digest \<Rightarrow> digest) \<Rightarrow> incremental_merkle \<Rightarrow> digest \<Rightarrow> incremental_merkle res" where
  "incremental_append H m digest =
     rbind (calculate_max_depth (node_count m + 1)) (\<lambda>max_depth.
     if max_depth = 0 then Inl Undefined_Behaviour
     else rbind (append_loop H (max_depth - 1) (node_count m) False digest (active_nodes m) [])
       (\<lambda>(top_node, updated).
          Inr \<lparr>node_count = node_count m + 1, active_nodes = updated @ [top_node]\<rparr>))"

definition get_root :: "incremental_merkle \<Rightarrow> digest" where
  "get_root m = (if node_count m > 0 then last (active_nodes m) else digest_default)"

text \<open>Appending a sequence of digests.\<close>

definition incremental_append_all ::
  "(digest \<times> digest \<Rightarrow> digest) \<Rightarrow> digest list \<Rightarrow> incremental_merkle \<Rightarrow> incremental_merkle res" where
  "incremental_append_all H ds m = rfold (\<lambda>d m. incremental_append H m d) ds m"

section \<open>Levels of the tree\<close>

definition node :: "(digest \<times> digest \<Rightarrow> digest) \<Rightarrow> digest \<Rightarrow> digest \<Rightarrow> digest" where
  "node H l r = H (make_canonical_pair l r)"

text \<open>The nodes above complete pairs; a last node without a sibling has none.\<close>

definition pairs :: "(digest \<times> digest \<Rightarrow> digest) \<Rightarrow> digest list \<Rightarrow> digest list" where
  "pairs H xs = map (\<lambda>i. node H (xs ! (2 * i)) (xs ! (2 * i + 1))) [0..<length xs div 2]"

lemma length_pairs [simp]: "length (pairs H xs) = length xs div 2"
  by (simp add: pairs_def)

text \<open>The roots of the complete subtrees, smallest first.\<close>

function fulls :: "(digest \<times> digest \<Rightarrow> digest) \<Rightarrow> digest list \<Rightarrow> digest list" where
  "fulls H xs =
     (if xs = [] then []
      else (if odd (length xs) then [last xs] else []) @ fulls H (pairs H xs))"
  by pat_completeness auto
termination
  by (relation "measure (\<lambda>(H, xs). length xs)") auto

declare fulls.simps [simp del]

lemma fulls_Nil [simp]: "fulls H [] = []"
  by (simp add: fulls.simps)

lemma pairs_snoc_even: "even (length xs) \<Longrightarrow> pairs H (xs @ [y]) = pairs H xs"
  by (auto simp: pairs_def nth_append elim!: evenE)

lemma pairs_snoc_odd:
  assumes "odd (length xs)"
  shows "pairs H (xs @ [y]) = pairs H xs @ [node H (last xs) y]"
proof -
  obtain k where k: "length xs = 2 * k + 1" using assms by (elim oddE)
  then have "last xs = xs ! (2 * k)" by (subst last_conv_nth) auto
  with k show ?thesis by (auto simp: pairs_def nth_append)
qed

lemma in_place_round:
  assumes "2 * k \<le> length ids"
  shows "fold (\<lambda>i ids. ids [i := H (make_canonical_pair (ids ! (2 * i)) (ids ! (2 * i + 1)))]) [0..<k] ids
    = map (\<lambda>i. node H (ids ! (2 * i)) (ids ! (2 * i + 1))) [0..<k] @ drop k ids"
  using assms
proof (induction k)
  case 0
  then show ?case by simp
next
  case (Suc k)
  let ?m = "map (\<lambda>i. node H (ids ! (2 * i)) (ids ! (2 * i + 1))) [0..<k]"
  have nth: "(?m @ drop k ids) ! j = ids ! j" if "k \<le> j" "j < length ids" for j
    using that by (simp add: nth_append)
  have "drop k ids = ids ! k # drop (Suc k) ids"
    using Suc.prems by (simp add: Cons_nth_drop_Suc)
  then have "(?m @ drop k ids) [k := x] = ?m @ x # drop (Suc k) ids" for x
    by (simp add: list_update_append)
  moreover have "(?m @ drop k ids) ! (2 * k) = ids ! (2 * k)"
    "(?m @ drop k ids) ! (2 * k + 1) = ids ! (2 * k + 1)"
    using Suc.prems by (intro nth; simp)+
  ultimately show ?case
    using Suc by (simp add: node_def)
qed

lemma merkle_round_even: "even (length ids) \<Longrightarrow> merkle_round H ids = pairs H ids"
  using in_place_round [of "length ids div 2" ids H] by (simp add: merkle_round_def Let_def pairs_def)

lemma merkle_round_odd: "odd (length ids) \<Longrightarrow> merkle_round H ids = pairs H (ids @ [last ids])"
  using merkle_round_even [of "ids @ [last ids]" H] by (simp add: merkle_round_def Let_def)

lemma merkle_round_snoc:
  "merkle_round H (xs @ [y]) = pairs H xs @ [node H (if odd (length xs) then last xs else y) y]"
proof (cases "odd (length xs)")
  case True
  then show ?thesis by (simp add: merkle_round_even pairs_snoc_odd)
next
  case False
  then show ?thesis
    using pairs_snoc_odd [of "xs @ [y]" H y] by (simp add: merkle_round_odd pairs_snoc_even)
qed

lemma merkle_loop_singleton [simp]: "merkle_loop H [x] = [x]"
  by (simp add: merkle_loop.simps)

lemma merkle_loop_snoc:
  "xs \<noteq> [] \<Longrightarrow> merkle_loop H (xs @ [y]) =
     merkle_loop H (pairs H xs @ [node H (if odd (length xs) then last xs else y) y])"
  by (subst merkle_loop.simps) (auto simp: merkle_round_snoc)

section \<open>Widths and indices\<close>

lemma bit_width_0 [simp]: "bit_width 0 = 0"
  by (simp add: bit_width.simps)

lemma bit_width_exp: "bit_width (2 ^ k) = Suc k"
  by (induction k) (simp_all add: bit_width.simps)

lemma bit_width_Suc: "0 < n \<Longrightarrow> bit_width n = Suc (bit_width (n div 2))"
  by (subst bit_width.simps) simp

lemma bit_width_le_iff: "bit_width n \<le> k \<longleftrightarrow> n < 2 ^ k"
proof (induction k arbitrary: n)
  case 0
  then show ?case by (cases "n = 0") (simp_all add: bit_width_Suc)
next
  case (Suc k)
  have "n div 2 < x \<longleftrightarrow> n < 2 * x" for x by linarith
  with Suc show ?case by (cases "n = 0") (simp_all add: bit_width_Suc)
qed

lemma word_and_1_eq_0_iff:
  assumes "n < 2 ^ 64"
  shows "(word_of_nat n :: u64) AND 1 = 0 \<longleftrightarrow> even n"
  using assms by (simp add: and_one_eq odd_iff_mod_2_eq_one [symmetric] even_iff_mod_2_eq_zero [symmetric])

lemma drop_bit_1_of_nat: "n < 2 ^ 64 \<Longrightarrow> drop_bit (Suc 0) (word_of_nat n :: u64) = word_of_nat (n div 2)"
  by (simp add: word_unat_eq_iff unsigned_drop_bit_eq unat_of_nat drop_bit_Suc take_bit_nat_eq_self unat_div)

section \<open>The incremental tree\<close>

lemma append_loop_partial:
  assumes "length xs < 2 ^ 64"
  shows "append_loop H (bit_width (length xs)) (word_of_nat (length xs)) True t (fulls H xs @ rest) upd
    = Inr (hd (merkle_loop H (xs @ [t])), upd @ fulls H xs)"
  using assms
proof (induction "length xs" arbitrary: xs t upd rule: less_induct)
  case less
  show ?case
  proof (cases "xs = []")
    case False
    then have "length (pairs H xs) < length xs" by simp
    note IH = less.hyps [OF this]
    from False less.prems show ?thesis
      by (auto simp: bit_width_Suc fulls.simps [of H xs] merkle_loop_snoc word_and_1_eq_0_iff
          drop_bit_1_of_nat IH [simplified] node_def)
  qed simp
qed

lemma append_loop_full:
  assumes "length xs < 2 ^ 64"
  shows "\<exists>new rest'. append_loop H (bit_width (length xs)) (word_of_nat (length xs)) False t
      (fulls H xs @ rest) upd = Inr (hd (merkle_loop H (xs @ [t])), upd @ new) \<and>
    new @ [hd (merkle_loop H (xs @ [t]))] = fulls H (xs @ [t]) @ rest' \<and> length rest' \<le> 1"
  using assms
proof (induction "length xs" arbitrary: xs t upd rule: less_induct)
  case less
  show ?case
  proof (cases "xs = []")
    case True
    then show ?thesis by (simp add: fulls.simps pairs_def)
  next
    case False
    then have smaller: "length (pairs H xs) < length xs" by simp
    note facts = bit_width_Suc fulls.simps [of H xs] fulls.simps [of H "xs @ [t]"] merkle_loop_snoc
      word_and_1_eq_0_iff drop_bit_1_of_nat node_def
    show ?thesis
    proof (cases "even (length xs)")
      case True
      with False less.prems append_loop_partial [of "pairs H xs"] show ?thesis
        by (auto simp: facts pairs_snoc_even)
    next
      case odd: False
      from less.prems smaller have "length (pairs H xs) < 2 ^ 64" by simp
      from less.hyps [OF smaller this] False odd less.prems show ?thesis
        by (auto simp: facts pairs_snoc_odd)
    qed
  qed
qed

lemma calculate_max_depth_Suc:
  assumes "n < 2 ^ 63"
  shows "calculate_max_depth (word_of_nat n + 1) = Inr (Suc (bit_width n))"
proof -
  have "unat (word_of_nat n + 1 :: u64) = n + 1"
    using assms by (simp add: unat_word_ariths unat_of_nat)
  moreover have "bit_width n < 64" "bit_width n \<le> 63"
    using assms bit_width_le_iff [of n 63] by auto
  ultimately show ?thesis
    by (auto simp: calculate_max_depth_def bit_ceil_def Let_def bit_width_exp unat_exp2 word_unat_eq_iff)
qed

lemma length_fulls: "length (fulls H xs) \<le> bit_width (length xs)"
proof (induction "length xs" arbitrary: xs rule: less_induct)
  case less
  show ?case
  proof (cases "xs = []")
    case False
    then have "length (fulls H (pairs H xs)) \<le> bit_width (length (pairs H xs))"
      by (intro less.hyps) simp
    with False show ?thesis by (auto simp: fulls.simps [of H xs] bit_width_Suc)
  qed simp
qed

definition tree_of :: "(digest \<times> digest \<Rightarrow> digest) \<Rightarrow> digest list \<Rightarrow> incremental_merkle \<Rightarrow> bool" where
  "tree_of H ds m \<longleftrightarrow>
     node_count m = word_of_nat (length ds) \<and> (\<exists>rest. active_nodes m = fulls H ds @ rest) \<and>
     length (active_nodes m) \<le> Suc (bit_width (length ds)) \<and>
     (ds \<noteq> [] \<longrightarrow> active_nodes m \<noteq> [] \<and> last (active_nodes m) = merkle H ds)"

lemma tree_of_init: "tree_of H [] incremental_merkle_init"
  by (simp add: tree_of_def incremental_merkle_init_def)

lemma incremental_append_tree_of:
  assumes "tree_of H ds m" "length ds < 2 ^ 63"
  shows "\<exists>m'. incremental_append H m d = Inr m' \<and> tree_of H (ds @ [d]) m'"
proof -
  obtain rest where m: "node_count m = word_of_nat (length ds)" "active_nodes m = fulls H ds @ rest"
    using assms(1) by (auto simp: tree_of_def)
  obtain new rest' where new:
    "append_loop H (bit_width (length ds)) (word_of_nat (length ds)) False d (fulls H ds @ rest) []
      = Inr (hd (merkle_loop H (ds @ [d])), new)"
    "new @ [hd (merkle_loop H (ds @ [d]))] = fulls H (ds @ [d]) @ rest'" "length rest' \<le> 1"
    using append_loop_full [of ds H d rest "[]"] assms(2) by auto
  let ?m = "\<lparr>node_count = word_of_nat (length ds) + 1,
    active_nodes = new @ [hd (merkle_loop H (ds @ [d]))]\<rparr>"
  have "incremental_append H m d = Inr ?m"
    using new(1) assms(2) by (simp add: incremental_append_def m calculate_max_depth_Suc)
  moreover have "length (new @ [hd (merkle_loop H (ds @ [d]))]) \<le> Suc (bit_width (length (ds @ [d])))"
    unfolding new(2) using new(3) length_fulls [of H "ds @ [d]"] by simp
  then have "tree_of H (ds @ [d]) ?m"
    using exI [of "\<lambda>rest. new @ [hd (merkle_loop H (ds @ [d]))] = fulls H (ds @ [d]) @ rest", OF new(2)]
    by (simp add: tree_of_def merkle_def)
  ultimately show ?thesis by blast
qed

text \<open>C40: the incremental tree computes the Merkle root: appending any sequence of at most \<open>2^63\<close>
  digests to the empty tree succeeds, never reads outside the active nodes, counts the leaves,
  has the root that \<^verbatim>\<open>merkle\<close> computes from the whole sequence, and stores at most one node more than
  the leaf count has binary digits.\<close>

theorem incremental_append_all_root:
  assumes "length ds \<le> 2 ^ 63"
  shows "\<exists>m. incremental_append_all H ds incremental_merkle_init = Inr m \<and>
    get_root m = merkle H ds \<and> unat (node_count m) = length ds \<and>
    length (active_nodes m) \<le> Suc (bit_width (length ds))"
proof -
  have "\<exists>m. incremental_append_all H ds incremental_merkle_init = Inr m \<and> tree_of H ds m"
    using assms
  proof (induction ds rule: rev_induct)
    case Nil
    then show ?case by (simp add: incremental_append_all_def tree_of_init)
  next
    case (snoc d ds)
    then obtain m where "incremental_append_all H ds incremental_merkle_init = Inr m" "tree_of H ds m"
      by auto
    with snoc.prems incremental_append_tree_of [of H ds m d] show ?case
      by (auto simp: incremental_append_all_def rfold_append)
  qed
  then obtain m where m: "incremental_append_all H ds incremental_merkle_init = Inr m" "tree_of H ds m"
    by blast
  then have "unat (node_count m) = length ds"
    using assms by (simp add: tree_of_def unat_of_nat take_bit_nat_eq_self)
  with m show ?thesis
    by (intro exI [of _ m]) (auto simp: tree_of_def get_root_def merkle_def word_less_nat_alt)
qed

text \<open>A toy hash, used to evaluate the definitions on a concrete input.\<close>

definition sum_hash :: "digest \<times> digest \<Rightarrow> digest" where
  "sum_hash p = Digest (hash0 (fst p) + 3 * hash0 (snd p)) 0 0 0"

theorem incremental_append_all_root_witness:
  "\<exists>m. incremental_append_all sum_hash [Digest 1 0 0 0, Digest 2 0 0 0, Digest 3 0 0 0]
      incremental_merkle_init = Inr m \<and>
    get_root m = Digest 1451 0 0 0 \<and> unat (node_count m) = 3"
proof -
  have "merkle sum_hash [Digest 1 0 0 0, Digest 2 0 0 0, Digest 3 0 0 0] = Digest 1451 0 0 0"
    by code_simp
  then show ?thesis
    using incremental_append_all_root [of "[Digest 1 0 0 0, Digest 2 0 0 0, Digest 3 0 0 0]" sum_hash]
    by auto
qed

section \<open>Sides\<close>

lemma and_left_mask: "(w AND 0xFFFFFFFFFFFFFF7F) AND 0x80 = (0 :: u64)"
  by (simp add: and.assoc)

lemma or_right_mask: "(w OR 0x80) AND 0x80 = (0x80 :: u64)"
  by (simp add: word_ao_absorbs)

lemma bit_7_iff: "w AND 0x80 = 0 \<longleftrightarrow> \<not> bit w 7" "bit (0x80 :: u64) n \<longleftrightarrow> n = 7" for w :: u64
  using and_exp_eq_0_iff_not_bit [of w 7] bit_exp_iff [where 'a = u64, of 7 n] by auto

lemma left_mask_id: "w AND 0xFFFFFFFFFFFFFF7F = w \<longleftrightarrow> w AND 0x80 = (0 :: u64)"
proof
  assume "w AND 0x80 = 0"
  then have "w AND NOT 0x80 = w" by (rule and_not_absorb)
  moreover have "(0xFFFFFFFFFFFFFF7F :: u64) = NOT 0x80" by simp
  ultimately show "w AND 0xFFFFFFFFFFFFFF7F = w" by metis
qed (metis and_left_mask)

lemma right_mask_id: "w OR 0x80 = w \<longleftrightarrow> w AND 0x80 \<noteq> (0 :: u64)"
proof
  assume "w AND 0x80 \<noteq> 0"
  then have "bit w 7" by (simp add: bit_7_iff)
  then show "w OR 0x80 = w"
    by (intro bit_word_eqI) (metis bit_or_iff bit_7_iff(2))
next
  assume "w OR 0x80 = w"
  then have "w AND 0x80 = 0x80" using or_right_mask [of w] by simp
  then show "w AND 0x80 \<noteq> 0" by simp
qed

text \<open>The side marks of Merkle nodes: the marked digests carry their mark, a digest that
  carries a mark already is left unchanged, and no digest is both a left and a right node.\<close>

theorem canonical_sides:
  "is_canonical_left (make_canonical_left d) \<and> is_canonical_right (make_canonical_right d) \<and>
   (is_canonical_left d \<longleftrightarrow> make_canonical_left d = d) \<and>
   (is_canonical_right d \<longleftrightarrow> make_canonical_right d = d) \<and>
   (is_canonical_left d \<noteq> is_canonical_right d)"
  by (cases d) (auto simp: is_canonical_left_def is_canonical_right_def make_canonical_left_def
      make_canonical_right_def and_left_mask or_right_mask left_mask_id right_mask_id)

end
