(* ===== verification/Names.thy ===== *)
theory Names
  imports Chain_Prelude
begin

text \<open>
  Account, action and permission names (\<^verbatim>\<open>name.hpp\<close>, \<^verbatim>\<open>name.cpp\<close>): a name is a 64-bit value
  that packs twelve 5-bit symbols and one 4-bit symbol.
\<close>

section \<open>Definitions\<close>

datatype name = Name (name_value: u64)

instantiation name :: linorder
begin

definition less_eq_name :: "name \<Rightarrow> name \<Rightarrow> bool" where
  "less_eq_name a b \<longleftrightarrow> name_value a \<le> name_value b"

definition less_name :: "name \<Rightarrow> name \<Rightarrow> bool" where
  "less_name a b \<longleftrightarrow> name_value a < name_value b"

instance
  by standard (auto simp: less_eq_name_def less_name_def name.expand)

end

definition name_empty :: "name \<Rightarrow> bool" where
  "name_empty n \<longleftrightarrow> name_value n = 0"

definition char_to_symbol :: "char \<Rightarrow> u64" where
  "char_to_symbol c =
     (let k = of_char c :: nat in
      if 97 \<le> k \<and> k \<le> 122 then of_nat (k - 97) + 6
      else if 49 \<le> k \<and> k \<le> 53 then of_nat (k - 49) + 1
      else 0)"

definition string_to_uint64_t :: "string \<Rightarrow> u64" where
  "string_to_uint64_t str =
     (let i = min (length str) 12;
          n = fold (\<lambda>i n. n OR push_bit (64 - 5 * (i + 1)) (char_to_symbol (str ! i) AND 0x1f))
                [0..<i] 0
      in if i < length str \<and> i = 12 then n OR (char_to_symbol (str ! 12) AND 0x0F) else n)"

definition charmap :: string where
  "charmap = ''.12345abcdefghijklmnopqrstuvwxyz''"

text \<open>The loop of \<^verbatim>\<open>name::to_string\<close> fills the 13 characters from the right.\<close>

definition name_chars :: "u64 \<Rightarrow> string" where
  "name_chars value =
     fst (fold (\<lambda>i (str, tmp).
            (str [12 - i := charmap ! unat (tmp AND (if i = 0 then 0x0f else 0x1f))],
             drop_bit (if i = 0 then 4 else 5) tmp))
          [0..<13] (replicate 13 CHR ''.'', value))"

definition trim_right_dots :: "string \<Rightarrow> string" where
  "trim_right_dots s = rev (dropWhile (\<lambda>c. c = CHR ''.'') (rev s))"

definition name_to_string :: "name \<Rightarrow> string" where
  "name_to_string n = trim_right_dots (name_chars (name_value n))"

definition name_set :: "string \<Rightarrow> name res" where
  "name_set str =
     rbind (eos_assert (length str \<le> 13) Name_Type_Exception) (\<lambda>_.
       let n = Name (string_to_uint64_t str) in
       rbind (eos_assert (name_to_string n = str) Name_Type_Exception) (\<lambda>_. Inr n))"

text \<open>
  \<^verbatim>\<open>name::prefix\<close>: the loop over the bit offsets 0, 4, 9, ..., 59 with the flag
  \<^verbatim>\<open>not_dot_character_seen\<close>; \<open>Some\<close> is the \<^verbatim>\<open>break\<close> with its result.
\<close>

fun prefix_loop :: "u64 \<Rightarrow> bool \<Rightarrow> nat list \<Rightarrow> u64 option" where
  "prefix_loop value seen [] = None"
| "prefix_loop value seen (offset # offsets) =
     (let c = drop_bit offset value AND (if offset = 0 then 0xF else 0x1F) in
      if c = 0 then
        (if seen then Some (push_bit offset (drop_bit offset value))
         else prefix_loop value seen offsets)
      else prefix_loop value True offsets)"

definition prefix_offsets :: "nat list" where
  "prefix_offsets = 0 # map (\<lambda>k. 4 + 5 * k) [0..<12]"

definition name_prefix :: "name \<Rightarrow> name" where
  "name_prefix n =
     (case prefix_loop (name_value n) False prefix_offsets of
        None \<Rightarrow> n
      | Some r \<Rightarrow> Name r)"

subsection \<open>Specification\<close>

text \<open>The strings that denote a name: at most 13 characters of the alphabet, no trailing dot, and
  a 13th character that fits four bits.\<close>

definition valid_name_string :: "string \<Rightarrow> bool" where
  "valid_name_string s \<longleftrightarrow>
     length s \<le> 13 \<and> set s \<subseteq> set charmap \<and> (s = [] \<or> last s \<noteq> CHR ''.'') \<and>
     (length s = 13 \<longrightarrow> char_to_symbol (s ! 12) < 16)"

text \<open>The part of a string before its last dot.\<close>

definition before_last_dot :: "string \<Rightarrow> string" where
  "before_last_dot s = rev (tl (dropWhile (\<lambda>c. c \<noteq> CHR ''.'') (rev s)))"

subsection \<open>Auxiliary views used by the proofs\<close>

text \<open>The symbol of a packed value at a character position, the symbol of a string at a position,
  and the packing of the first symbols of a sequence.\<close>

definition sym_at :: "u64 \<Rightarrow> nat \<Rightarrow> u64" where
  "sym_at v j = (if j = 12 then v AND 0x0f else drop_bit (64 - 5 * (j + 1)) v AND 0x1f)"

definition sym_of :: "string \<Rightarrow> nat \<Rightarrow> u64" where
  "sym_of s i = (if i < length s then char_to_symbol (s ! i) else 0)"

definition pack_syms :: "(nat \<Rightarrow> u64) \<Rightarrow> nat \<Rightarrow> u64" where
  "pack_syms f k = fold (\<lambda>i n. n OR push_bit (59 - 5 * i) (take_bit 5 (f i))) [0..<k] 0"

text \<open>The bit offset of the k-th character from the right, and the rest of a reversed string at
  the rightmost dot that has another character to its right.\<close>

definition offset_at :: "nat \<Rightarrow> nat" where
  "offset_at k = (if k = 0 then 0 else 5 * k - 1)"

definition after_dot :: "bool \<Rightarrow> string \<Rightarrow> string" where
  "after_dot seen cs =
     dropWhile (\<lambda>c. c \<noteq> CHR ''.'') (if seen then cs else dropWhile (\<lambda>c. c = CHR ''.'') cs)"

section \<open>Symbols and packed values\<close>

lemma and_masks: "w AND 0x1f = take_bit 5 (w :: u64)" "w AND 0x0f = take_bit 4 (w :: u64)"
  by (simp_all add: take_bit_eq_mask mask_eq_exp_minus_1)

lemma sym_at_take_bit:
  "sym_at v j = (if j = 12 then take_bit 4 v else take_bit 5 (drop_bit (59 - 5 * j) v))"
  by (simp add: sym_at_def and_masks)

lemma length_charmap: "length charmap = 32"
  by (simp add: charmap_def)

lemma charmap_codes: "of_char ` set charmap = ({46} \<union> {49..53} \<union> {97..122} :: nat set)"
proof -
  have "of_char ` set charmap = set ([46] @ [49..<54] @ [97..<123] :: nat list)"
    by (simp add: charmap_def upt_rec)
  then show ?thesis by (simp only: set_append set_upt) auto
qed

lemma char_to_symbol_other:
  assumes "c \<notin> set charmap"
  shows "char_to_symbol c = 0"
proof -
  have "of_char c \<notin> (of_char ` set charmap :: nat set)"
    using assms by (auto dest: injD [OF inj_of_char])
  then have "of_char c \<notin> {49..53::nat}" "of_char c \<notin> {97..122::nat}"
    unfolding charmap_codes by blast+
  then show ?thesis
    unfolding char_to_symbol_def Let_def by auto
qed

lemma char_to_symbol_charmap: "k < 32 \<Longrightarrow> char_to_symbol (charmap ! k) = of_nat k"
proof -
  have "\<forall>k \<in> set [0..<32]. char_to_symbol (charmap ! k) = of_nat k"
    by code_simp
  then show "k < 32 \<Longrightarrow> char_to_symbol (charmap ! k) = of_nat k" by simp
qed

lemma char_to_symbol_dot [simp]: "char_to_symbol CHR ''.'' = 0"
  by (simp add: char_to_symbol_def)

lemma in_charmapE:
  assumes "c \<in> set charmap"
  obtains k where "k < 32" "c = charmap ! k" "char_to_symbol c = of_nat k"
  using assms by (metis in_set_conv_nth length_charmap char_to_symbol_charmap)

lemma char_to_symbol_less: "unat (char_to_symbol c) < 32"
  by (cases "c \<in> set charmap") (auto simp: char_to_symbol_other unat_of_nat elim!: in_charmapE)

lemma charmap_char_to_symbol: "c \<in> set charmap \<Longrightarrow> charmap ! unat (char_to_symbol c) = c"
  by (auto simp: unat_of_nat elim!: in_charmapE)

lemma charmap_nth_dot_iff:
  assumes "unat x < 32"
  shows "charmap ! unat x = CHR ''.'' \<longleftrightarrow> x = (0 :: u64)"
proof
  assume "charmap ! unat x = CHR ''.''"
  then have "char_to_symbol (charmap ! unat x) = 0" by simp
  then show "x = 0" using assms by (simp add: char_to_symbol_charmap)
qed (simp add: charmap_def)

lemma sym_at_less: "unat (sym_at v j) < 32"
  using unat_take_bit_less [of 5 "drop_bit (59 - 5 * j) v"] unat_take_bit_less [of 4 v]
  by (auto simp: sym_at_take_bit)

lemma name_chars_map: "name_chars v = map (\<lambda>j. charmap ! unat (sym_at v j)) [0..<13]"
proof -
  have upt_13: "[0..<13] = [0,1,2,3,4,5,6,7,8,9,10,11,12::nat]"
    by (simp add: upt_rec)
  show ?thesis
    unfolding name_chars_def upt_13
    by (simp add: sym_at_def numeral_eq_Suc)
qed

lemma length_name_chars [simp]: "length (name_chars v) = 13"
  by (simp add: name_chars_map)

lemma nth_name_chars: "j < 13 \<Longrightarrow> name_chars v ! j = charmap ! unat (sym_at v j)"
  by (simp add: name_chars_map del: upt_Suc)

lemma name_chars_dot_iff: "j < 13 \<Longrightarrow> name_chars v ! j = CHR ''.'' \<longleftrightarrow> sym_at v j = 0"
  by (simp add: nth_name_chars charmap_nth_dot_iff sym_at_less)

lemma symbol_window:
  assumes "Suc k \<le> 12" "n < 64"
  shows "59 - 5 * k \<le> n \<and> n - (59 - 5 * k) < 5 \<longleftrightarrow> 4 \<le> n \<and> (63 - n) div 5 = k"
proof -
  have "(63 - n) div 5 = k \<longleftrightarrow> 5 * k \<le> 63 - n \<and> 63 - n < 5 * k + 5"
    by linarith
  then show ?thesis using assms by linarith
qed

lemma symbol_bit_index:
  assumes "Suc k \<le> 12" "59 - 5 * k \<le> n" "n - (59 - 5 * k) < 5"
  shows "(n + 1) mod 5 = n - (59 - 5 * k)"
proof -
  from assms have "n + 1 = 5 * (12 - k) + (n - (59 - 5 * k))" by simp
  then show ?thesis using assms(3) by (metis mod_less mod_mult_self4)
qed

lemma symbol_position:
  assumes "4 \<le> n" "n < (64 :: nat)"
  shows "(63 - n) div 5 < 12 \<and> 59 - 5 * ((63 - n) div 5) + (n + 1) mod 5 = n"
proof -
  let ?q = "(63 - n) div 5"
  have q: "Suc ?q \<le> 12" using assms by linarith
  then have w: "59 - 5 * ?q \<le> n \<and> n - (59 - 5 * ?q) < 5"
    using symbol_window [OF q assms(2)] assms(1) by simp
  show ?thesis using symbol_bit_index [OF q] w q by simp
qed

lemma bit_pack_syms:
  assumes "k \<le> 12" "n < 64"
  shows "bit (pack_syms f k) n \<longleftrightarrow> 4 \<le> n \<and> (63 - n) div 5 < k \<and> bit (f ((63 - n) div 5)) ((n + 1) mod 5)"
  using assms
proof (induction k)
  case 0
  then show ?case by (simp add: pack_syms_def)
next
  case (Suc k)
  have "bit (push_bit (59 - 5 * k) (take_bit 5 (f k))) n \<longleftrightarrow>
      59 - 5 * k \<le> n \<and> n - (59 - 5 * k) < 5 \<and> bit (f k) (n - (59 - 5 * k))"
    using Suc.prems by (simp add: bit_push_bit_iff bit_take_bit_iff)
  also have "\<dots> \<longleftrightarrow> 4 \<le> n \<and> (63 - n) div 5 = k \<and> bit (f k) ((n + 1) mod 5)"
    using symbol_window [OF Suc.prems] symbol_bit_index [OF Suc.prems(1)] by metis
  finally show ?case
    using Suc by (auto simp: pack_syms_def bit_or_iff less_Suc_eq)
qed

lemma pack_sym_at: "pack_syms (sym_at v) 12 OR take_bit 4 (sym_at v 12) = v"
proof (rule bit_word_eqI)
  fix n assume n: "n < LENGTH(64)"
  have low: "4 \<le> n \<Longrightarrow> (63 - n) div 5 < 12 \<and> 59 - 5 * ((63 - n) div 5) + (n + 1) mod 5 = n"
    using n by (intro symbol_position) simp_all
  from n show "bit (pack_syms (sym_at v) 12 OR take_bit 4 (sym_at v 12)) n \<longleftrightarrow> bit v n"
    using low
    by (cases "4 \<le> n") (simp_all add: bit_or_iff bit_pack_syms sym_at_take_bit bit_take_bit_iff bit_drop_bit_eq)
qed

lemma pack_syms_cong: "(\<And>i. i < k \<Longrightarrow> f i = g i) \<Longrightarrow> pack_syms f k = pack_syms g k"
  unfolding pack_syms_def by (rule fold_cong) auto

lemma pack_syms_extend:
  assumes "m \<le> k" "k \<le> 12" "\<And>i. m \<le> i \<Longrightarrow> i < k \<Longrightarrow> f i = 0"
  shows "pack_syms f m = pack_syms f k"
proof (rule bit_word_eqI)
  fix n assume "n < LENGTH(64)"
  with assms show "bit (pack_syms f m) n \<longleftrightarrow> bit (pack_syms f k) n"
    by (cases "m \<le> (63 - n) div 5 \<and> (63 - n) div 5 < k") (auto simp: bit_pack_syms)
qed

lemma sym_at_pack:
  assumes "j < 13"
  shows "sym_at (pack_syms f 12 OR take_bit 4 x) j = (if j = 12 then take_bit 4 x else take_bit 5 (f j))"
proof (cases "j = 12")
  case True
  show ?thesis
    by (rule bit_word_eqI) (auto simp: True sym_at_take_bit bit_simps bit_pack_syms)
next
  case False
  with assms have j: "j < 12" by simp
  have "bit (pack_syms f 12 OR take_bit 4 x) (59 - 5 * j + n) \<longleftrightarrow> bit (f j) n" if n: "n < 5" for n
  proof -
    have 1: "63 - (59 - 5 * j + n) = (4 - n) + 5 * j" and 2: "59 - 5 * j + n + 1 = n + 5 * (12 - j)"
      using j n by auto
    have "(63 - (59 - 5 * j + n)) div 5 = j" "(59 - 5 * j + n + 1) mod 5 = n"
      unfolding 1 2 using n by auto
    moreover have "59 - 5 * j + n < 64" "4 \<le> 59 - 5 * j + n" using j n by auto
    ultimately show ?thesis using j by (simp add: bit_or_iff bit_pack_syms bit_take_bit_iff)
  qed
  moreover have "sym_at w j = take_bit 5 y" if "\<And>n. n < 5 \<Longrightarrow> bit w (59 - 5 * j + n) \<longleftrightarrow> bit y n" for w y
    using False that by (intro bit_word_eqI) (auto simp: sym_at_take_bit bit_take_bit_iff bit_drop_bit_eq)
  ultimately show ?thesis using False by simp
qed

lemma string_to_uint64_t_pack:
  "string_to_uint64_t s = pack_syms (sym_of s) 12 OR take_bit 4 (sym_of s 12)"
proof -
  let ?i = "min (length s) 12"
  have "fold (\<lambda>i n. n OR push_bit (64 - 5 * (i + 1)) (char_to_symbol (s ! i) AND 0x1f)) [0..<?i] 0
      = pack_syms (sym_of s) ?i"
    unfolding pack_syms_def and_masks by (rule fold_cong) (auto simp: sym_of_def)
  also have "\<dots> = pack_syms (sym_of s) 12"
    by (rule pack_syms_extend) (auto simp: sym_of_def)
  finally show ?thesis
    by (auto simp: string_to_uint64_t_def Let_def and_masks sym_of_def)
qed

lemma trim_right_dotsE:
  obtains k where "s = trim_right_dots s @ replicate k CHR ''.''"
    and "trim_right_dots s = [] \<or> last (trim_right_dots s) \<noteq> CHR ''.''"
proof
  let ?P = "\<lambda>c. c = CHR ''.''"
  let ?k = "length (takeWhile ?P (rev s))"
  have "takeWhile ?P (rev s) = replicate ?k CHR ''.''"
    by (intro replicate_length_same [symmetric]) (auto dest: set_takeWhileD)
  then have "rev s = replicate ?k CHR ''.'' @ dropWhile ?P (rev s)"
    using takeWhile_dropWhile_id [of ?P "rev s"] by simp
  then have "rev (rev s) = rev (replicate ?k CHR ''.'' @ dropWhile ?P (rev s))" by simp
  then show "s = trim_right_dots s @ replicate ?k CHR ''.''"
    unfolding trim_right_dots_def rev_append rev_rev_ident rev_replicate .
  show "trim_right_dots s = [] \<or> last (trim_right_dots s) \<noteq> CHR ''.''"
    using hd_dropWhile [of ?P "rev s"] by (auto simp: trim_right_dots_def last_rev)
qed

lemma trim_right_dots_append_replicate [simp]:
  "trim_right_dots (s @ replicate k CHR ''.'') = trim_right_dots s"
  by (simp add: trim_right_dots_def dropWhile_append)

lemma trim_right_dots_id: "s = [] \<or> last s \<noteq> CHR ''.'' \<Longrightarrow> trim_right_dots s = s"
  by (cases s rule: rev_cases) (auto simp: trim_right_dots_def)

lemma sym_of_append_dots: "sym_of (s @ replicate k CHR ''.'') = sym_of s"
  by (rule ext) (auto simp: sym_of_def nth_append)

lemma sym_of_trim: "sym_of (trim_right_dots s) = sym_of s"
  by (rule trim_right_dotsE [of s]) (metis sym_of_append_dots)

lemma sym_of_name_chars: "j < 13 \<Longrightarrow> sym_of (name_chars v) j = sym_at v j"
  using sym_at_less [of v j]
  by (simp add: sym_of_def nth_name_chars char_to_symbol_charmap)

lemma string_to_uint64_t_to_string: "string_to_uint64_t (name_to_string (Name v)) = v"
proof -
  have "pack_syms (sym_of (name_chars v)) 12 = pack_syms (sym_at v) 12"
    by (rule pack_syms_cong) (simp add: sym_of_name_chars)
  then show ?thesis
    by (simp add: name_to_string_def string_to_uint64_t_pack sym_of_trim sym_of_name_chars pack_sym_at)
qed


lemma sym_of_less: "unat (sym_of s j) < 32"
  by (simp add: sym_of_def char_to_symbol_less)

lemma charmap_0: "charmap ! 0 = CHR ''.''"
  by (simp add: charmap_def)

lemma name_chars_valid:
  assumes "valid_name_string s"
  shows "name_chars (string_to_uint64_t s) = s @ replicate (13 - length s) CHR ''.''"
proof (rule nth_equalityI)
  show "length (name_chars (string_to_uint64_t s)) = length (s @ replicate (13 - length s) CHR ''.'')"
    using assms by (simp add: valid_name_string_def)
  fix j assume "j < length (name_chars (string_to_uint64_t s))"
  then have j: "j < 13" by simp
  have 12: "take_bit 4 (sym_of s 12) = sym_of s 12"
    using assms by (intro take_bit_small) (auto simp: valid_name_string_def sym_of_def word_less_nat_alt)
  have "take_bit 5 (sym_of s j) = sym_of s j"
    using sym_of_less [of s j] by (intro take_bit_small) simp
  with 12 j have "sym_at (string_to_uint64_t s) j = sym_of s j"
    unfolding string_to_uint64_t_pack sym_at_pack [OF j] by auto
  then have eq: "name_chars (string_to_uint64_t s) ! j = charmap ! unat (sym_of s j)"
    using j by (simp add: nth_name_chars)
  show "name_chars (string_to_uint64_t s) ! j = (s @ replicate (13 - length s) CHR ''.'') ! j"
  proof (cases "j < length s")
    case True
    then have "s ! j \<in> set charmap" using assms by (auto simp: valid_name_string_def)
    with True eq show ?thesis by (simp add: sym_of_def nth_append charmap_char_to_symbol)
  next
    case False
    with eq j show ?thesis by (simp add: sym_of_def nth_append charmap_0)
  qed
qed

lemma name_to_string_valid: "valid_name_string (name_to_string n)"
proof -
  obtain k where k: "name_chars (name_value n) = name_to_string n @ replicate k CHR ''.''"
    and last: "name_to_string n = [] \<or> last (name_to_string n) \<noteq> CHR ''.''"
    unfolding name_to_string_def by (rule trim_right_dotsE)
  have len: "length (name_to_string n) + k = 13"
    using arg_cong [OF k, of length] by simp
  have "set (name_chars (name_value n)) \<subseteq> set charmap"
    using sym_at_less by (auto simp: name_chars_map length_charmap)
  then have cs: "set (name_to_string n) \<subseteq> set charmap"
    unfolding k by simp
  have "char_to_symbol (name_to_string n ! 12) < 16" if "length (name_to_string n) = 13"
  proof -
    from that len k have "name_to_string n = name_chars (name_value n)" by simp
    then have "char_to_symbol (name_to_string n ! 12) = take_bit 4 (name_value n)"
      using sym_at_less [of "name_value n" 12]
      by (simp add: nth_name_chars char_to_symbol_charmap sym_at_take_bit)
    then show ?thesis
      using unat_take_bit_less [of 4 "name_value n"] by (simp add: word_less_nat_alt)
  qed
  with len last cs show ?thesis by (auto simp: valid_name_string_def)
qed

section \<open>Prefix\<close>

lemma prefix_offsets_map: "prefix_offsets = map offset_at [0..<13]"
  by (simp add: prefix_offsets_def offset_at_def upt_rec)

lemma sym_at_offset: "k < 13 \<Longrightarrow>
    drop_bit (offset_at k) v AND (if offset_at k = 0 then 0xF else 0x1F) = sym_at v (12 - k)"
proof -
  have "0 < k \<Longrightarrow> k < 13 \<Longrightarrow> 59 - 5 * (12 - k) = 5 * k - 1" by auto
  then show "k < 13 \<Longrightarrow> ?thesis" by (auto simp: offset_at_def sym_at_def)
qed

lemma drop_offsets: "k < 13 \<Longrightarrow> drop k prefix_offsets = offset_at k # drop (Suc k) prefix_offsets"
  by (simp add: prefix_offsets_map Cons_nth_drop_Suc [symmetric] del: upt_Suc)

lemma drop_rev_chars: "k < 13 \<Longrightarrow>
    drop k (rev (name_chars v)) = name_chars v ! (12 - k) # drop (Suc k) (rev (name_chars v))"
  by (simp add: Cons_nth_drop_Suc [symmetric] rev_nth)

lemma prefix_loop_chars:
  assumes "k \<le> 13"
  shows "prefix_loop v seen (drop k prefix_offsets) =
    (let r = after_dot seen (drop k (rev (name_chars v))) in
     if r = [] then None
     else Some (push_bit (offset_at (13 - length r)) (drop_bit (offset_at (13 - length r)) v)))"
  using assms
proof (induction "13 - k" arbitrary: k seen)
  case 0
  then have "k = 13" by simp
  moreover have "drop 13 prefix_offsets = []" by (simp add: prefix_offsets_map)
  ultimately show ?case by (simp add: after_dot_def)
next
  case (Suc m)
  then have k: "k < 13" and m: "m = 13 - Suc k" "Suc k \<le> 13" by auto
  have dot: "name_chars v ! (12 - k) = CHR ''.'' \<longleftrightarrow> sym_at v (12 - k) = 0"
    by (simp add: name_chars_dot_iff)
  have unfold: "prefix_loop v seen (drop k prefix_offsets) =
     (if sym_at v (12 - k) = 0 then
        (if seen then Some (push_bit (offset_at k) (drop_bit (offset_at k) v))
         else prefix_loop v seen (drop (Suc k) prefix_offsets))
      else prefix_loop v True (drop (Suc k) prefix_offsets))"
    unfolding drop_offsets [OF k] prefix_loop.simps Let_def sym_at_offset [OF k] ..
  show ?case
    unfolding unfold
    using Suc.hyps(1) [OF m, of seen] Suc.hyps(1) [OF m, of True] k
    by (auto simp: drop_rev_chars [OF k] after_dot_def dot)
qed

lemma sym_at_clear:
  assumes "0 < k" "k < 13" "j < 13"
  shows "sym_at (push_bit (offset_at k) (drop_bit (offset_at k) v)) j =
    (if j \<le> 12 - k then sym_at v j else 0)"
proof (rule bit_word_eqI)
  fix n assume "n < LENGTH(64)"
  show "bit (sym_at (push_bit (offset_at k) (drop_bit (offset_at k) v)) j) n \<longleftrightarrow>
      bit (if j \<le> 12 - k then sym_at v j else 0) n"
  proof (cases "j = 12")
    case True
    with assms show ?thesis by (auto simp: sym_at_take_bit offset_at_def bit_simps)
  next
    case False
    have "5 * k - 1 \<le> 59 - 5 * j + n \<longleftrightarrow> j \<le> 12 - k" if "n < 5"
      using assms False that by auto
    with False assms show ?thesis
      by (auto simp: sym_at_take_bit offset_at_def bit_take_bit_iff bit_drop_bit_eq bit_push_bit_iff)
  qed
qed

lemma name_chars_clear:
  assumes "0 < k" "k < 13" and "name_chars v ! (12 - k) = CHR ''.''"
  shows "name_chars (push_bit (offset_at k) (drop_bit (offset_at k) v)) =
    take (12 - k) (name_chars v) @ replicate (k + 1) CHR ''.''"
proof (rule nth_equalityI)
  fix j assume "j < length (name_chars (push_bit (offset_at k) (drop_bit (offset_at k) v)))"
  then have j: "j < 13" by simp
  show "name_chars (push_bit (offset_at k) (drop_bit (offset_at k) v)) ! j =
      (take (12 - k) (name_chars v) @ replicate (k + 1) CHR ''.'') ! j"
    using assms j
    by (cases "j < 12 - k"; cases "j = 12 - k")
      (auto simp: nth_append nth_name_chars sym_at_clear charmap_0 simp del: replicate.simps)
qed (use assms in simp)

section \<open>Properties\<close>

text \<open>\<^verbatim>\<open>name::set\<close> accepts exactly the well-formed name strings, packs them with
  \<^verbatim>\<open>string_to_uint64_t\<close>, and raises \<^verbatim>\<open>name_type_exception\<close> on every other string.\<close>

theorem name_set_spec:
  "name_set s =
     (if valid_name_string s then Inr (Name (string_to_uint64_t s)) else Inl Name_Type_Exception)"
proof (cases "valid_name_string s")
  case True
  then have "name_to_string (Name (string_to_uint64_t s)) = s"
    by (simp add: name_to_string_def name_chars_valid trim_right_dots_id valid_name_string_def)
  with True show ?thesis by (simp add: name_set_def valid_name_string_def Let_def)
next
  case False
  then have "name_to_string (Name (string_to_uint64_t s)) \<noteq> s"
    using name_to_string_valid by metis
  with False show ?thesis by (simp add: name_set_def Let_def eos_assert_def)
qed

lemma name_set_to_string: "name_set (name_to_string n) = Inr n"
  using name_to_string_valid [of n] string_to_uint64_t_to_string [of "name_value n"]
  by (simp add: name_set_def valid_name_string_def Let_def)

lemma name_set_sound: "name_set s = Inr n \<Longrightarrow> name_to_string n = s"
  by (auto simp: name_set_def Let_def)

interpretation name_codec: text_codec name_set name_to_string
  by unfold_locales (simp_all add: name_set_to_string name_set_sound)

text \<open>C39: reading and printing names are inverse: a string is read as a name exactly when it
  is what the name prints as; so every 64-bit value has one spelling and no two names share one.\<close>

theorem name_set_iff: "name_set s = Inr n \<longleftrightarrow> name_to_string n = s"
  by (rule name_codec.parse_iff)

text \<open>\<^verbatim>\<open>name::prefix\<close> of a name that contains a dot is the name spelled before its last dot
  (trailing dots dropped); a name without a dot is its own prefix.\<close>

theorem name_prefix_spec:
  "name_to_string (name_prefix n) =
     (let s = name_to_string n in
      if CHR ''.'' \<in> set s then trim_right_dots (before_last_dot s) else s)"
proof -
  let ?cs = "name_chars (name_value n)"
  define r where "r = after_dot False (rev ?cs)"
  have s: "rev (name_to_string n) = dropWhile (\<lambda>c. c = CHR ''.'') (rev ?cs)"
    by (simp add: name_to_string_def trim_right_dots_def)
  have r: "r = dropWhile (\<lambda>c. c \<noteq> CHR ''.'') (rev (name_to_string n))"
    by (simp add: r_def after_dot_def s)
  have loop: "prefix_loop (name_value n) False prefix_offsets =
    (if r = [] then None
     else Some (push_bit (offset_at (13 - length r)) (drop_bit (offset_at (13 - length r)) (name_value n))))"
    using prefix_loop_chars [of 0 "name_value n" False] by (simp add: r_def Let_def)
  show ?thesis
  proof (cases "CHR ''.'' \<in> set (name_to_string n)")
    case False
    then have "r = []" by (auto simp: r)
    with False loop show ?thesis by (simp add: name_prefix_def)
  next
    case True
    then have "r \<noteq> []" by (auto simp: r dropWhile_eq_Nil_conv)
    then have hd: "hd r = CHR ''.''"
      using hd_dropWhile [of "\<lambda>c. c \<noteq> CHR ''.''" "rev (name_to_string n)"] by (auto simp: r)
    define p q where "p = takeWhile (\<lambda>c. c \<noteq> CHR ''.'') (rev (name_to_string n))"
      and "q = takeWhile (\<lambda>c. c = CHR ''.'') (rev ?cs)"
    have p: "rev (name_to_string n) = p @ r" unfolding p_def r by (rule takeWhile_dropWhile_id [symmetric])
    have q: "rev ?cs = q @ rev (name_to_string n)" unfolding q_def s by (rule takeWhile_dropWhile_id [symmetric])
    have "hd (rev (name_to_string n)) \<noteq> CHR ''.''"
      using True name_to_string_valid [of n] by (auto simp: valid_name_string_def hd_rev)
    with hd have "p \<noteq> []" unfolding p by auto
    define k where "k = length q + length p"
    have cs: "?cs = rev (tl r) @ CHR ''.'' # rev p @ rev q"
    proof -
      have "rev (rev ?cs) = rev (q @ p @ r)" unfolding q p ..
      then have "?cs = rev r @ rev p @ rev q" by simp
      then show ?thesis using hd \<open>r \<noteq> []\<close> by (cases r) auto
    qed
    have "0 < length r" using \<open>r \<noteq> []\<close> by simp
    then have len: "length r + k = 13" "0 < k" "0 < length r"
      using arg_cong [OF cs, of length] \<open>p \<noteq> []\<close> by (auto simp: k_def simp del: length_greater_0_conv)
    then have k: "13 - length r = k" "k < 13" "12 - k = length (tl r)"
      by (auto simp del: length_greater_0_conv)
    have "name_chars (push_bit (offset_at k) (drop_bit (offset_at k) (name_value n))) =
        rev (tl r) @ replicate (k + 1) CHR ''.''"
      using len k cs by (subst name_chars_clear) (auto simp: nth_append simp del: replicate.simps)
    then have "name_to_string (name_prefix n) = trim_right_dots (rev (tl r))"
      using loop \<open>r \<noteq> []\<close> k
      by (simp add: name_prefix_def name_to_string_def del: replicate.simps)
    with True show ?thesis by (simp add: r before_last_dot_def)
  qed
qed

section \<open>Names fixed by the configuration\<close>

text \<open>The literals \<^verbatim>\<open>"..."_n\<close>.\<close>

definition n_of :: "string \<Rightarrow> name" where
  "n_of s = Name (string_to_uint64_t s)"

definition system_account_name :: name where "system_account_name = n_of ''eosio''"
definition active_name :: name where "active_name = n_of ''active''"
definition owner_name :: name where "owner_name = n_of ''owner''"
definition eosio_any_name :: name where "eosio_any_name = n_of ''eosio.any''"
definition eosio_code_name :: name where "eosio_code_name = n_of ''eosio.code''"
definition newaccount_name :: name where "newaccount_name = n_of ''newaccount''"
definition setcode_name :: name where "setcode_name = n_of ''setcode''"
definition setabi_name :: name where "setabi_name = n_of ''setabi''"
definition updateauth_name :: name where "updateauth_name = n_of ''updateauth''"
definition deleteauth_name :: name where "deleteauth_name = n_of ''deleteauth''"
definition linkauth_name :: name where "linkauth_name = n_of ''linkauth''"
definition unlinkauth_name :: name where "unlinkauth_name = n_of ''unlinkauth''"
definition canceldelay_name :: name where "canceldelay_name = n_of ''canceldelay''"

text \<open>Their values.\<close>

lemma name_values [code]:
  "system_account_name = Name 6138663577826885632"
  "active_name = Name 3617214756542218240"
  "owner_name = Name 12044502819693133824"
  "eosio_any_name = Name 6138663581382606848"
  "eosio_code_name = Name 6138663582462279680"
  "newaccount_name = Name 11148770977341390848"
  "setcode_name = Name 14029427681804681216"
  "setabi_name = Name 14029385431137648640"
  "updateauth_name = Name 15371467950649982976"
  "deleteauth_name = Name 5378050746259030016"
  "linkauth_name = Name 10063015651234021376"
  "unlinkauth_name = Name 15340080295291076608"
  "canceldelay_name = Name 4730614990712192000"
  unfolding system_account_name_def active_name_def owner_name_def eosio_any_name_def eosio_code_name_def newaccount_name_def setcode_name_def setabi_name_def updateauth_name_def deleteauth_name_def linkauth_name_def unlinkauth_name_def canceldelay_name_def
  by (simp_all add: n_of_def string_to_uint64_t_def char_to_symbol_def upt_conv_Cons push_bit_eq_mult)

end
