(* ===== verification/Block_Timestamp.thy ===== *)
theory Block_Timestamp
  imports Chain_Prelude "HOL-Library.Signed_Division"
begin

text \<open>
  Block time slots (\<^verbatim>\<open>block_timestamp.hpp\<close>): a slot counts the half-second intervals since the
  start of the year 2000. The constants are those of \<^verbatim>\<open>config.hpp\<close>; time points are the signed
  64-bit microsecond counts of \<^verbatim>\<open>fc::time_point\<close>.
\<close>

section \<open>Definitions\<close>

definition block_interval_ms :: u64 where
  "block_interval_ms = 500"

definition block_timestamp_epoch :: u64 where
  "block_timestamp_epoch = 946684800000"

datatype block_timestamp = Block_Timestamp (slot: u32)

instantiation block_timestamp :: linorder
begin

definition less_eq_block_timestamp :: "block_timestamp \<Rightarrow> block_timestamp \<Rightarrow> bool" where
  "less_eq_block_timestamp a b \<longleftrightarrow> slot a \<le> slot b"

definition less_block_timestamp :: "block_timestamp \<Rightarrow> block_timestamp \<Rightarrow> bool" where
  "less_block_timestamp a b \<longleftrightarrow> slot a < slot b"

instance
  by standard (auto simp: less_eq_block_timestamp_def less_block_timestamp_def block_timestamp.expand)

end

definition timestamp_maximum :: block_timestamp where
  "timestamp_maximum = Block_Timestamp 0xffff"

definition timestamp_min :: block_timestamp where
  "timestamp_min = Block_Timestamp 0"

definition timestamp_next :: "block_timestamp \<Rightarrow> block_timestamp res" where
  "timestamp_next t =
     rbind (eos_assert (0xffffffff - slot t \<ge> 1) Overflow_Exception) (\<lambda>_.
     Inr (Block_Timestamp (slot t + 1)))"

text \<open>The conversion to a time point, in microseconds.\<close>

definition to_time_point :: "block_timestamp \<Rightarrow> i64" where
  "to_time_point t =
     (let msec = ucast (slot t) * block_interval_ms;
          msec = msec + block_timestamp_epoch
      in msec * 1000)"

text \<open>
  \<^verbatim>\<open>set_time_point\<close>: the division by 1000 is a signed one; subtracting the \<^verbatim>\<open>uint64_t\<close> epoch makes
  the rest unsigned; the assignment to the slot keeps the low 32 bits.
\<close>

definition set_time_point :: "i64 \<Rightarrow> block_timestamp" where
  "set_time_point t =
     (let msec_since_epoch = word_of_int (sint t sdiv 1000) :: u64
      in Block_Timestamp (ucast ((msec_since_epoch - block_timestamp_epoch) div block_interval_ms)))"

definition set_time_point_sec :: "u32 \<Rightarrow> block_timestamp" where
  "set_time_point_sec t =
     (let sec_since_epoch = ucast t :: u64
      in Block_Timestamp (ucast ((sec_since_epoch * 1000 - block_timestamp_epoch) div block_interval_ms)))"

section \<open>Facts\<close>

text \<open>The microseconds at which a slot starts, without the machine arithmetic.\<close>

definition slot_micros :: "u32 \<Rightarrow> nat" where
  "slot_micros s = (unat s * 500 + 946684800000) * 1000"

lemma unat_to_time_point: "unat (to_time_point t) = slot_micros (slot t)"
proof -
  have s: "unat (slot t) < 4294967296" by (rule unat_lt_32)
  have m: "unat (ucast (slot t) * block_interval_ms :: u64) = unat (slot t) * 500"
    using s by (subst unat_mult_small) (simp_all add: block_interval_ms_def)
  have e: "unat (ucast (slot t) * block_interval_ms + block_timestamp_epoch :: u64) =
      unat (slot t) * 500 + 946684800000"
    using s by (subst unat_add_small) (simp_all add: m block_timestamp_epoch_def)
  have "unat ((ucast (slot t) * block_interval_ms + block_timestamp_epoch) * 1000 :: u64) =
      (unat (slot t) * 500 + 946684800000) * 1000"
    using s by (subst unat_mult_small) (simp_all add: e)
  then show ?thesis by (simp only: to_time_point_def Let_def slot_micros_def)
qed

lemma slot_micros_less: "slot_micros s < 9223372036854775808"
  using unat_lt_32 [of s] by (simp add: slot_micros_def)

lemma sint_to_time_point: "sint (to_time_point t) = int (slot_micros (slot t))"
  using slot_micros_less [of "slot t"]
  by (subst sint_nonneg_unat) (simp_all only: is_nonneg_iff unat_to_time_point)

lemma unat_set_time_point:
  assumes "946684800000000 \<le> sint t"
  shows "unat (slot (set_time_point t)) = ((unat t div 1000 - 946684800000) div 500) mod 2 ^ 32"
proof -
  have t: "sint t = int (unat t)"
    using assms by (intro sint_nonneg_unat) (simp add: is_nonneg_def)
  have "sint t sdiv 1000 = sint t div 1000"
    using assms by (simp add: signed_divide_int_def)
  then have d: "sint t sdiv 1000 = int (unat t div 1000)"
    by (simp only: t zdiv_int of_nat_numeral)
  have u: "unat (word_of_int (sint t sdiv 1000) :: u64) = unat t div 1000"
    using unat_lt_64 [of t] by (simp only: d of_int_of_nat_eq) (simp add: unat_of_nat)
  have "946684800000 \<le> unat t div 1000"
    using assms unfolding t by linarith
  then have "unat (word_of_int (sint t sdiv 1000) - block_timestamp_epoch :: u64) = unat t div 1000 - 946684800000"
    by (subst unat_minus_le) (simp_all add: u block_timestamp_epoch_def word_le_nat_alt)
  then show ?thesis
    by (simp add: set_time_point_def Let_def unsigned_ucast_eq unat_div block_interval_ms_def take_bit_eq_mod)
qed

text \<open>C37: every slot survives the conversion to a time point and back.\<close>

theorem timestamp_roundtrip: "set_time_point (to_time_point t) = t"
proof -
  have "unat (slot (set_time_point (to_time_point t))) = unat (slot t)"
    using unat_lt_32 [of "slot t"]
    by (subst unat_set_time_point)
      (simp_all add: unat_to_time_point sint_to_time_point slot_micros_def)
  then show ?thesis by (intro block_timestamp.expand) (simp only: word_unat_eq_iff)
qed

text \<open>A time point from the year 2000 on that 32 bits of slots can represent is put in the slot
  that contains it: the slot starts at or before it and the next one after it.\<close>

theorem set_time_point_floor:
  assumes "946684800000000 \<le> sint t" and "sint t < 946684800000000 + 4294967296 * 500000"
  shows "sint (to_time_point (set_time_point t)) \<le> sint t \<and>
    sint t < sint (to_time_point (set_time_point t)) + 500000"
proof -
  have t: "sint t = int (unat t)"
    using assms by (intro sint_nonneg_unat) (simp add: is_nonneg_def)
  define m where "m = unat t div 1000"
  define q where "q = (m - 946684800000) div 500"
  have lo: "946684800000000 \<le> unat t" and hi: "unat t < 946684800000000 + 2147483648000000"
    using assms unfolding t by linarith+
  have m: "1000 * m \<le> unat t" "unat t < 1000 * m + 1000"
    unfolding m_def by simp_all
  have q: "500 * q \<le> m - 946684800000" "m - 946684800000 < 500 * q + 500"
    unfolding q_def by simp_all
  have "946684800000 \<le> m" using lo m by linarith
  with q have mq: "500 * q + 946684800000 \<le> m" "m < 500 * q + 500 + 946684800000" by linarith+
  then have "q < 2 ^ 32" using hi m by simp
  then have s: "unat (slot (set_time_point t)) = q"
    using assms(1) by (simp add: unat_set_time_point q_def m_def)
  have "(q * 500 + 946684800000) * 1000 \<le> unat t \<and> unat t < (q * 500 + 946684800000) * 1000 + 500000"
    using mq m by auto
  then show ?thesis
    unfolding sint_to_time_point slot_micros_def s t by linarith
qed

theorem set_time_point_floor_witness:
  "sint (to_time_point (set_time_point 1700000000123456)) \<le> sint (1700000000123456 :: i64) \<and>
    sint (1700000000123456 :: i64) < sint (to_time_point (set_time_point 1700000000123456)) + 500000"
  by (rule set_time_point_floor) simp_all

text \<open>C38: \<^verbatim>\<open>next\<close> refuses the last slot and otherwise advances the time point by exactly half a second.\<close>

theorem timestamp_next_spec:
  "case timestamp_next t of
     Inl e \<Rightarrow> e = Overflow_Exception \<and> slot t = 0xffffffff
   | Inr t' \<Rightarrow> slot t \<noteq> 0xffffffff \<and> t < t' \<and> sint (to_time_point t') = sint (to_time_point t) + 500000"
proof (cases "slot t = 0xffffffff")
  case True
  then show ?thesis by (simp add: timestamp_next_def)
next
  case False
  then have "unat (slot t) \<noteq> 4294967295" by (simp add: word_unat_eq_iff)
  then have s: "unat (slot t) < 4294967295" using unat_lt_32 [of "slot t"] by simp
  then have n: "unat (slot t + 1) = unat (slot t) + 1"
    by (subst unat_add_small) simp_all
  have "unat (0xffffffff - slot t) = 4294967295 - unat (slot t)"
    using s by (subst unat_minus_le) (simp_all add: word_le_nat_alt)
  then have "0xffffffff - slot t \<ge> 1" using s by (simp add: word_le_nat_alt)
  then show ?thesis
    using False n by (simp add: timestamp_next_def sint_to_time_point slot_micros_def
      less_block_timestamp_def word_less_nat_alt)
qed

end
