(* ===== verification/Chain_Database.thy ===== *)
theory Chain_Database
  imports Chain_Prelude "HOL-Library.Finite_Map"
begin

text \<open>
  The state tables of the node. The node keeps its objects in multi-index tables of a database
  library that is not part of the sources; what the code uses of a table is its unique index:
  \<^verbatim>\<open>find\<close>, \<^verbatim>\<open>get\<close> (raising when there is no match), \<^verbatim>\<open>create\<close> (raising when the key is taken), \<^verbatim>\<open>modify\<close> and
  \<^verbatim>\<open>remove\<close>. A table is a finite map from the key of the index the code uses to the object.
\<close>

section \<open>Operations\<close>

definition db_find :: "('k, 'v) fmap \<Rightarrow> 'k \<Rightarrow> 'v option" where
  "db_find t k = fmlookup t k"

definition db_get :: "('k, 'v) fmap \<Rightarrow> 'k \<Rightarrow> 'v res" where
  "db_get t k = (case fmlookup t k of None \<Rightarrow> Inl Db_Key_Not_Found | Some v \<Rightarrow> Inr v)"

definition db_create :: "('k, 'v) fmap \<Rightarrow> 'k \<Rightarrow> 'v \<Rightarrow> ('k, 'v) fmap res" where
  "db_create t k v =
     (case fmlookup t k of Some _ \<Rightarrow> Inl Db_Uniqueness_Violation | None \<Rightarrow> Inr (fmupd k v t))"

text \<open>\<^verbatim>\<open>modify\<close> is applied to an object the code holds a reference to; it keeps the key.\<close>

definition db_modify :: "('k, 'v) fmap \<Rightarrow> 'k \<Rightarrow> 'v \<Rightarrow> ('k, 'v) fmap" where
  "db_modify t k v = fmupd k v t"

definition db_remove :: "('k, 'v) fmap \<Rightarrow> 'k \<Rightarrow> ('k, 'v) fmap" where
  "db_remove t k = fmdrop k t"

lemma db_get_eq_Inr [simp]: "db_get t k = Inr v \<longleftrightarrow> db_find t k = Some v"
  by (simp add: db_get_def db_find_def split: option.split)

lemma db_get_eq_Inl [simp]: "db_get t k = Inl e \<longleftrightarrow> db_find t k = None \<and> e = Db_Key_Not_Found"
  by (auto simp: db_get_def db_find_def split: option.split)

lemma db_get_Some [simp]: "db_find t k = Some v \<Longrightarrow> db_get t k = Inr v"
  by simp

lemma db_get_None [simp]: "db_find t k = None \<Longrightarrow> db_get t k = Inl Db_Key_Not_Found"
  by simp

lemma db_create_eq_Inr [simp]:
  "db_create t k v = Inr t' \<longleftrightarrow> db_find t k = None \<and> t' = db_modify t k v"
  by (auto simp: db_create_def db_find_def db_modify_def split: option.split)

lemma db_create_eq_Inl [simp]:
  "db_create t k v = Inl e \<longleftrightarrow> db_find t k \<noteq> None \<and> e = Db_Uniqueness_Violation"
  by (auto simp: db_create_def db_find_def split: option.split)

section \<open>The contract of a unique index\<close>

text \<open>
  What the components rely on: a written key is read back, other keys keep their objects, and
  the keys present are finitely many, so that quantities can be summed over the table.
\<close>

locale unique_index =
  fixes find :: "'t \<Rightarrow> 'k \<Rightarrow> 'v option"
    and modify :: "'t \<Rightarrow> 'k \<Rightarrow> 'v \<Rightarrow> 't"
    and remove :: "'t \<Rightarrow> 'k \<Rightarrow> 't"
  assumes find_modify: "find (modify t k v) k' = (if k' = k then Some v else find t k')"
    and find_remove: "find (remove t k) k' = (if k' = k then None else find t k')"
    and finite_keys: "finite {k. find t k \<noteq> None}"
begin

text \<open>The total of a quantity over the objects of a table.\<close>

definition total :: "('k \<Rightarrow> 'v \<Rightarrow> nat) \<Rightarrow> 't \<Rightarrow> nat" where
  "total f t = (\<Sum>k \<in> {k. find t k \<noteq> None}. f k (the (find t k)))"

lemma total_split:
  assumes "find t k = Some v"
  shows "total f t = f k v + (\<Sum>k' \<in> {k'. find t k' \<noteq> None} - {k}. f k' (the (find t k')))"
proof -
  have "k \<in> {k. find t k \<noteq> None}" using assms by simp
  from sum.remove [OF finite_keys this, of "\<lambda>k. f k (the (find t k))"] show ?thesis
    by (simp only: total_def assms option.sel)
qed

lemma total_member: "find t k = Some v \<Longrightarrow> f k v \<le> total f t"
  by (simp add: total_split)

lemma total_modify:
  assumes "find t k = Some v"
  shows "total f (modify t k v') + f k v = total f t + f k v'"
proof -
  have "find (modify t k v') k = Some v'" by (simp add: find_modify)
  note total_split [OF this, of f] total_split [OF assms, of f]
  moreover have "{k'. find (modify t k v') k' \<noteq> None} - {k} = {k'. find t k' \<noteq> None} - {k}"
    by (auto simp: find_modify)
  moreover have "(\<Sum>k' \<in> {k'. find t k' \<noteq> None} - {k}. f k' (the (find (modify t k v') k'))) =
      (\<Sum>k' \<in> {k'. find t k' \<noteq> None} - {k}. f k' (the (find t k')))"
    by (rule sum.cong) (auto simp: find_modify)
  ultimately show ?thesis by simp
qed

lemma total_create:
  assumes "find t k = None"
  shows "total f (modify t k v) = total f t + f k v"
proof -
  have "find (modify t k v) k = Some v" by (simp add: find_modify)
  note total_split [OF this, of f]
  moreover have "{k'. find (modify t k v) k' \<noteq> None} - {k} = {k'. find t k' \<noteq> None}"
    using assms by (auto simp: find_modify)
  moreover have "(\<Sum>k' \<in> {k'. find t k' \<noteq> None}. f k' (the (find (modify t k v) k'))) = total f t"
    unfolding total_def by (rule sum.cong) (use assms in \<open>auto simp: find_modify\<close>)
  ultimately show ?thesis by simp
qed

lemma total_remove:
  assumes "find t k = Some v"
  shows "total f (remove t k) + f k v = total f t"
proof -
  have "{k'. find (remove t k) k' \<noteq> None} = {k'. find t k' \<noteq> None} - {k}"
    by (auto simp: find_remove)
  then have "total f (remove t k) = (\<Sum>k' \<in> {k'. find t k' \<noteq> None} - {k}. f k' (the (find t k')))"
    unfolding total_def by (intro sum.cong) (auto simp: find_remove)
  then show ?thesis using total_split [OF assms, of f] by simp
qed

end

interpretation db: unique_index db_find db_modify db_remove
proof
  fix t :: "('a, 'b) fmap"
  have "{k. db_find t k \<noteq> None} = dom (fmlookup t)" by (simp add: db_find_def dom_def)
  then show "finite {k. db_find t k \<noteq> None}" by simp
qed (simp_all add: db_find_def db_modify_def db_remove_def)

lemmas db_find_simps = db.find_modify db.find_remove
declare db_find_simps [simp]

section \<open>Tables with several indices\<close>

text \<open>
  A table whose objects the code reaches through more than one index is the list of its objects in
  the order of their ids. Every new object gets the next id, which is never used again.
\<close>

definition find_by :: "('v \<Rightarrow> 'k) \<Rightarrow> 'v list \<Rightarrow> 'k \<Rightarrow> 'v option" where
  "find_by key t k = List.find (\<lambda>v. key v = k) t"

definition get_by :: "('v \<Rightarrow> 'k) \<Rightarrow> 'v list \<Rightarrow> 'k \<Rightarrow> 'v res" where
  "get_by key t k = (case find_by key t k of None \<Rightarrow> Inl Db_Key_Not_Found | Some v \<Rightarrow> Inr v)"

definition modify_by :: "('v \<Rightarrow> 'k) \<Rightarrow> 'v list \<Rightarrow> 'v \<Rightarrow> 'v list" where
  "modify_by key t v = map (\<lambda>u. if key u = key v then v else u) t"

definition remove_by :: "('v \<Rightarrow> 'k) \<Rightarrow> 'v list \<Rightarrow> 'k \<Rightarrow> 'v list" where
  "remove_by key t k = filter (\<lambda>v. key v \<noteq> k) t"

lemma find_by_SomeD: "find_by key t k = Some v \<Longrightarrow> v \<in> set t \<and> key v = k"
  by (auto simp: find_by_def find_Some_iff)

lemma find_by_None: "find_by key t k = None \<longleftrightarrow> k \<notin> key ` set t"
  by (auto simp: find_by_def find_None_iff)

lemma find_by_Some_iff:
  assumes "distinct (map key t)"
  shows "find_by key t k = Some v \<longleftrightarrow> v \<in> set t \<and> key v = k"
proof
  assume v: "v \<in> set t \<and> key v = k"
  then obtain u where "find_by key t k = Some u" by (cases "find_by key t k") (auto simp: find_by_None)
  moreover from find_by_SomeD [OF this] have "u = v"
    using v assms by (auto simp: distinct_map inj_on_def)
  ultimately show "find_by key t k = Some v" by simp
qed (rule find_by_SomeD)

lemma find_by_append:
  "find_by key (t @ u) k = (case find_by key t k of Some v \<Rightarrow> Some v | None \<Rightarrow> find_by key u k)"
  by (induction t) (auto simp: find_by_def)

lemma get_by_eq_Inr [simp]: "get_by key t k = Inr v \<longleftrightarrow> find_by key t k = Some v"
  by (simp add: get_by_def split: option.split)

lemma get_by_eq_Inl [simp]: "get_by key t k = Inl e \<longleftrightarrow> find_by key t k = None \<and> e = Db_Key_Not_Found"
  by (auto simp: get_by_def split: option.split)

lemma map_modify_by: "\<forall>u \<in> set t. key u = key v \<longrightarrow> f u = f v \<Longrightarrow> map f (modify_by key t v) = map f t"
  by (simp add: modify_by_def)

lemma set_remove_by: "set (remove_by key t k) = {v \<in> set t. key v \<noteq> k}"
  by (auto simp: remove_by_def)

lemma distinct_remove_by: "distinct (map f t) \<Longrightarrow> distinct (map f (remove_by key t k))"
  by (simp add: remove_by_def distinct_map inj_on_def)

end
