(* ===== verification/Resource_Accumulators.thy ===== *)
theory Resource_Accumulators
  imports Chain_Prelude
begin

text \<open>
  The arithmetic of resource accounting (\<^verbatim>\<open>resource_limits_private.hpp\<close>, \<^verbatim>\<open>resource_limits.hpp\<close>, the
  elastic limits of \<^verbatim>\<open>resource_limits.cpp\<close>): ratios, checked casts, the exponential moving
  average that tracks usage, the decaying accumulator, and the elastic limit of a resource.
\<close>

section \<open>Definitions\<close>

datatype 'a ratio = Ratio (numerator: 'a) (denominator: 'a)

definition ratio_mult :: "'a::len word \<Rightarrow> 'a word ratio \<Rightarrow> 'a word res" where
  "ratio_mult val r =
     rbind (eos_assert (numerator r = 0 \<or> - 1 div numerator r \<ge> val) Rate_Limiting_State_Inconsistent) (\<lambda>_.
     rbind (eos_assert (denominator r \<noteq> 0) Undefined_Behaviour) (\<lambda>_.
     Inr ((val * numerator r) div denominator r)))"

definition integer_divide_ceil :: "'a::len word \<Rightarrow> 'a word \<Rightarrow> 'a word" where
  "integer_divide_ceil num den = (num div den) + (if num mod den > 0 then 1 else 0)"

definition downgrade_cast_u64 :: "u128 \<Rightarrow> u64 res" where
  "downgrade_cast_u64 val =
     rbind (eos_assert (val \<ge> 0 \<and> val \<le> 0xffffffffffffffff) Rate_Limiting_State_Inconsistent) (\<lambda>_.
     Inr (ucast val))"

definition downgrade_cast_i64 :: "u128 \<Rightarrow> i64 res" where
  "downgrade_cast_i64 val =
     rbind (eos_assert (val \<ge> 0 \<and> val \<le> 0x7fffffffffffffff) Rate_Limiting_State_Inconsistent) (\<lambda>_.
     Inr (ucast val))"

definition rate_limiting_precision :: u64 where
  "rate_limiting_precision = 1000 * 1000"

definition max_raw_value :: u64 where
  "max_raw_value = - 1 div rate_limiting_precision"

subsection \<open>The exponential moving average\<close>

record usage_accumulator =
  last_ordinal :: u32
  value_ex :: u64
  consumed :: u64

definition usage_accumulator_init :: usage_accumulator where
  "usage_accumulator_init = \<lparr> last_ordinal = 0, value_ex = 0, consumed = 0 \<rparr>"

definition ema_average :: "usage_accumulator \<Rightarrow> u64" where
  "ema_average a = integer_divide_ceil (value_ex a) rate_limiting_precision"

text \<open>Moving to a later period: the value decays, and the period starts from its average.\<close>

definition ema_advance :: "u32 \<Rightarrow> u32 \<Rightarrow> usage_accumulator \<Rightarrow> usage_accumulator res" where
  "ema_advance ordinal window_size a =
     (if last_ordinal a \<noteq> ordinal then
        rbind (eos_assert (ordinal > last_ordinal a) Resource_Limit_Exception) (\<lambda>_.
        rbind (if ucast (last_ordinal a) + ucast window_size > (ucast ordinal :: u64)
               then let delta = ordinal - last_ordinal a;
                        decay = Ratio (ucast window_size - ucast delta) (ucast window_size)
                    in ratio_mult (value_ex a) decay
               else Inr 0) (\<lambda>v.
        let a = a\<lparr> value_ex := v, last_ordinal := ordinal \<rparr>
        in Inr (a\<lparr> consumed := ema_average a \<rparr>)))
      else Inr a)"

definition ema_add :: "u64 \<Rightarrow> u32 \<Rightarrow> u32 \<Rightarrow> usage_accumulator \<Rightarrow> usage_accumulator res" where
  "ema_add units ordinal window_size a =
     rbind (eos_assert (units \<le> max_raw_value) Rate_Limiting_State_Inconsistent) (\<lambda>_.
     rbind (eos_assert (- 1 - consumed a \<ge> units) Rate_Limiting_State_Inconsistent) (\<lambda>_.
     rbind (eos_assert (window_size \<noteq> 0) Undefined_Behaviour) (\<lambda>_.
     rbind (downgrade_cast_u64
              (integer_divide_ceil (ucast units * ucast rate_limiting_precision) (ucast window_size)))
       (\<lambda>value_ex_contrib.
     rbind (eos_assert (- 1 - value_ex a \<ge> value_ex_contrib) Rate_Limiting_State_Inconsistent) (\<lambda>_.
     rbind (ema_advance ordinal window_size a) (\<lambda>a.
     Inr (a\<lparr> consumed := consumed a + units, value_ex := value_ex a + value_ex_contrib \<rparr>)))))))"

subsection \<open>The decaying accumulator\<close>

record decay_accumulator =
  decay_last_ordinal :: u32
  decay_value_ex :: u64

definition decay_accumulator_init :: decay_accumulator where
  "decay_accumulator_init = \<lparr> decay_last_ordinal = 0, decay_value_ex = 0 \<rparr>"

definition value_ex_at :: "u32 \<Rightarrow> u32 \<Rightarrow> decay_accumulator \<Rightarrow> u64 res" where
  "value_ex_at ordinal window_size a =
     (if decay_last_ordinal a < ordinal then
        if ucast (decay_last_ordinal a) + ucast window_size > (ucast ordinal :: u64)
        then let delta = ordinal - decay_last_ordinal a;
                 decay = Ratio (ucast window_size - ucast delta) (ucast window_size)
             in rbind (ratio_mult (ucast (decay_value_ex a) :: u128) decay) downgrade_cast_u64
        else Inr 0
      else Inr (decay_value_ex a))"

definition value_at :: "u32 \<Rightarrow> u32 \<Rightarrow> decay_accumulator \<Rightarrow> u64 res" where
  "value_at ordinal window_size a =
     rbind (value_ex_at ordinal window_size a) (\<lambda>v.
     Inr (integer_divide_ceil v rate_limiting_precision))"

definition decay_add :: "u64 \<Rightarrow> u32 \<Rightarrow> u32 \<Rightarrow> decay_accumulator \<Rightarrow> decay_accumulator res" where
  "decay_add units ordinal window_size a =
     rbind (eos_assert (units \<le> max_raw_value) Rate_Limiting_State_Inconsistent) (\<lambda>_.
     let units_ex = ucast units * ucast rate_limiting_precision :: u128 in
     rbind (if decay_last_ordinal a < ordinal
            then rbind (value_ex_at ordinal window_size a) (\<lambda>v.
                 Inr (a\<lparr> decay_value_ex := v, decay_last_ordinal := ordinal \<rparr>))
            else Inr a) (\<lambda>a.
     let new_value_ex = min (units_ex + ucast (decay_value_ex a)) 0xffffffffffffffff in
     rbind (downgrade_cast_u64 new_value_ex) (\<lambda>v.
     Inr (a\<lparr> decay_value_ex := v \<rparr>))))"

subsection \<open>Elastic limits\<close>

record elastic_limit_parameters =
  target :: u64
  max_limit :: u64
  periods :: u32
  max_multiplier :: u32
  contract_rate :: "u64 ratio"
  expand_rate :: "u64 ratio"

definition elastic_limit_parameters_validate :: "elastic_limit_parameters \<Rightarrow> unit res" where
  "elastic_limit_parameters_validate p =
     rbind (eos_assert (periods p > 0) Resource_Limit_Exception) (\<lambda>_.
     rbind (eos_assert (denominator (contract_rate p) > 0) Resource_Limit_Exception) (\<lambda>_.
     eos_assert (denominator (expand_rate p) > 0) Resource_Limit_Exception))"

definition eos_percent :: "u64 \<Rightarrow> u32 \<Rightarrow> u64" where
  "eos_percent val percentage = (val * ucast percentage) div 10000"

text \<open>The parameters a new chain starts with.\<close>

definition default_cpu_limit_parameters :: elastic_limit_parameters where
  "default_cpu_limit_parameters =
     \<lparr> target = eos_percent 200000 (10 * 100), max_limit = 200000, periods = 60 * 1000 div 500,
       max_multiplier = 1000, contract_rate = Ratio 99 100, expand_rate = Ratio 1000 999 \<rparr>"

definition default_net_limit_parameters :: elastic_limit_parameters where
  "default_net_limit_parameters =
     \<lparr> target = eos_percent (1024 * 1024) (10 * 100), max_limit = 1024 * 1024, periods = 60 * 1000 div 500,
       max_multiplier = 1000, contract_rate = Ratio 99 100, expand_rate = Ratio 1000 999 \<rparr>"

definition update_elastic_limit :: "u64 \<Rightarrow> u64 \<Rightarrow> elastic_limit_parameters \<Rightarrow> u64 res" where
  "update_elastic_limit current_limit average_usage params =
     rbind (if average_usage > target params
            then ratio_mult current_limit (contract_rate params)
            else ratio_mult current_limit (expand_rate params)) (\<lambda>result.
     Inr (min (max result (max_limit params)) (max_limit params * ucast (max_multiplier params))))"

section \<open>The arithmetic over natural numbers\<close>

definition div_ceil :: "nat \<Rightarrow> nat \<Rightarrow> nat" where
  "div_ceil a b = a div b + (if a mod b > 0 then 1 else 0)"

lemma div_ceil_iff:
  assumes b: "0 < b"
  shows "div_ceil a b \<le> c \<longleftrightarrow> a \<le> c * b"
proof -
  define q r where "q = a div b" and "r = a mod b"
  have a: "a = q * b + r" and r: "r < b" using b by (simp_all add: q_def r_def)
  have d: "div_ceil a b = q + (if r > 0 then 1 else 0)"
    by (simp add: div_ceil_def q_def r_def)
  show ?thesis
  proof (cases "r = 0")
    case True
    then show ?thesis using a b d by simp
  next
    case False
    have "q + 1 \<le> c \<longleftrightarrow> q * b + r \<le> c * b"
    proof
      assume "q + 1 \<le> c"
      then have "(q + 1) * b \<le> c * b" by (rule mult_le_mono1)
      then show "q * b + r \<le> c * b" using r by simp
    next
      assume "q * b + r \<le> c * b"
      then have "q * b < c * b" using False by linarith
      then show "q + 1 \<le> c" by simp
    qed
    then show ?thesis using a d False by simp
  qed
qed

lemma div_ceil_mono: "0 < b \<Longrightarrow> a \<le> a' \<Longrightarrow> div_ceil a b \<le> div_ceil a' b"
  using div_ceil_iff [of b a "div_ceil a' b"] div_ceil_iff [of b a' "div_ceil a' b"] by simp

lemma div_ceil_le_self: "0 < b \<Longrightarrow> div_ceil a b \<le> a"
  by (simp add: div_ceil_iff)

lemma div_ceil_complement:
  assumes "0 < w"
  shows "m * (w - 1) div w + div_ceil m w = m"
proof -
  define q r where "q = m div w" and "r = m mod w"
  have m: "m = q * w + r" and r: "r < w" using assms by (simp_all add: q_def r_def)
  have "m * (w - 1) = q * (w - 1) * w + r * (w - 1)" by (simp add: m algebra_simps)
  then have d: "m * (w - 1) div w = q * (w - 1) + r * (w - 1) div w" using assms by simp
  show ?thesis
  proof (cases "r = 0")
    case True
    then show ?thesis using assms d m by (simp add: div_ceil_def algebra_simps)
  next
    case False
    then have "r * (w - 1) = (r - 1) * w + (w - r)" using r by (simp add: algebra_simps diff_mult_distrib2)
    then have "r * (w - 1) div w = r - 1"
      using r False by (simp only:) (subst div_mult_self3, simp_all)
    moreover have "div_ceil m w = q + 1"
      using False by (simp add: div_ceil_def q_def r_def)
    ultimately have "m * (w - 1) div w + div_ceil m w = (q * (w - 1) + (r - 1)) + (q + 1)"
      using d by simp
    moreover have "q * (w - 1) + q = q * w" using assms by (cases w) simp_all
    ultimately show ?thesis using m False by linarith
  qed
qed

lemma decay_step_bound:
  assumes "0 < w" "0 < d" "v \<le> m" "c \<le> m"
  shows "v * (w - d) div w + div_ceil c w \<le> m"
proof -
  have "v * (w - d) \<le> m * (w - 1)"
    using assms by (intro mult_le_mono) auto
  then have "v * (w - d) div w \<le> m * (w - 1) div w" by (rule div_le_mono)
  moreover have "div_ceil c w \<le> div_ceil m w" using assms by (intro div_ceil_mono)
  ultimately show ?thesis using div_ceil_complement [OF assms(1), of m] by linarith
qed

lemma unat_integer_divide_ceil:
  fixes num den :: "'a::len word"
  assumes "den \<noteq> 0"
  shows "unat (integer_divide_ceil num den) = div_ceil (unat num) (unat den)"
proof -
  have den: "0 < unat den" using assms by (simp add: unat_gt_0)
  have m: "num mod den > 0 \<longleftrightarrow> unat num mod unat den > 0"
    by (simp add: word_less_nat_alt unat_mod)
  have "div_ceil (unat num) (unat den) < 2 ^ LENGTH('a)"
    using div_ceil_le_self [OF den, of "unat num"] unsigned_less [of num] by (rule le_less_trans)
  then show ?thesis
    unfolding integer_divide_ceil_def m
    by (subst unat_add_small) (simp_all add: unat_div div_ceil_def split: if_splits)
qed

lemma ratio_mult_eq:
  fixes v :: "'a::len word"
  assumes "denominator r \<noteq> 0"
  shows "ratio_mult v r =
    (if unat v * unat (numerator r) < 2 ^ LENGTH('a)
     then Inr (of_nat (unat v * unat (numerator r) div unat (denominator r)))
     else Inl Rate_Limiting_State_Inconsistent)"
proof -
  have max: "unat (- 1 :: 'a word) = 2 ^ LENGTH('a) - 1"
    by (rule unat_minus_1)
  have "numerator r = 0 \<or> - 1 div numerator r \<ge> v \<longleftrightarrow> unat v * unat (numerator r) < 2 ^ LENGTH('a)"
  proof (cases "numerator r = 0")
    case False
    then have n: "0 < unat (numerator r)" by (simp add: unat_gt_0)
    have "- 1 div numerator r \<ge> v \<longleftrightarrow> unat v \<le> (2 ^ LENGTH('a) - 1) div unat (numerator r)"
      by (simp add: word_le_nat_alt unat_div max)
    also have "\<dots> \<longleftrightarrow> unat v * unat (numerator r) \<le> 2 ^ LENGTH('a) - 1"
      using n by (rule less_eq_div_iff_mult_less_eq)
    also have "\<dots> \<longleftrightarrow> unat v * unat (numerator r) < 2 ^ LENGTH('a)"
      by (rule le_pred_iff) simp
    finally show ?thesis using False by simp
  qed simp
  moreover have "(v * numerator r) div denominator r = of_nat (unat v * unat (numerator r) div unat (denominator r))"
    if "unat v * unat (numerator r) < 2 ^ LENGTH('a)"
    using that by (simp add: word_unat_eq_iff unat_div unat_mult_small unat_of_nat take_bit_nat_eq_self
      le_less_trans [OF div_le_dividend])
  ultimately show ?thesis
    using assms by (simp add: ratio_mult_def eos_assert_def)
qed

lemma ratio_mult_Inr:
  fixes v :: "'a::len word"
  assumes "ratio_mult v r = Inr x"
  shows "denominator r \<noteq> 0 \<and> unat x = unat v * unat (numerator r) div unat (denominator r)"
proof -
  have d: "denominator r \<noteq> 0" using assms by (auto simp: ratio_mult_def)
  then have fits: "unat v * unat (numerator r) < 2 ^ LENGTH('a)"
    and x: "x = of_nat (unat v * unat (numerator r) div unat (denominator r))"
    using assms by (auto simp: ratio_mult_eq split: if_splits)
  have "unat v * unat (numerator r) div unat (denominator r) < 2 ^ LENGTH('a)"
    using fits by (rule le_less_trans [OF div_le_dividend])
  then show ?thesis using d by (simp add: x unat_of_nat take_bit_nat_eq_self)
qed

lemma ratio_mult_contracts: "ratio_mult v r = Inr x \<Longrightarrow> numerator r \<le> denominator r \<Longrightarrow> x \<le> v"
proof -
  assume x: "ratio_mult v r = Inr x" and le: "numerator r \<le> denominator r"
  from ratio_mult_Inr [OF x] have d: "0 < unat (denominator r)" by (simp add: unat_gt_0)
  have "unat v * unat (numerator r) div unat (denominator r) \<le> unat v * unat (denominator r) div unat (denominator r)"
    using le by (intro div_le_mono mult_le_mono) (simp_all add: word_le_nat_alt)
  then show ?thesis using d ratio_mult_Inr [OF x] by (simp add: word_le_nat_alt)
qed

lemma ratio_mult_expands: "ratio_mult v r = Inr x \<Longrightarrow> denominator r \<le> numerator r \<Longrightarrow> v \<le> x"
proof -
  assume x: "ratio_mult v r = Inr x" and le: "denominator r \<le> numerator r"
  from ratio_mult_Inr [OF x] have d: "0 < unat (denominator r)" by (simp add: unat_gt_0)
  have "unat v * unat (denominator r) div unat (denominator r) \<le> unat v * unat (numerator r) div unat (denominator r)"
    using le by (intro div_le_mono mult_le_mono) (simp_all add: word_le_nat_alt)
  then show ?thesis using d ratio_mult_Inr [OF x] by (simp add: word_le_nat_alt)
qed

lemma downgrade_cast_u64_eq:
  "downgrade_cast_u64 v = (if unat v < 2 ^ 64 then Inr (ucast v) else Inl Rate_Limiting_State_Inconsistent)"
proof -
  have "v \<le> 0xffffffffffffffff \<longleftrightarrow> unat v < 2 ^ 64" by (simp add: word_le_nat_alt) linarith
  then show ?thesis by (simp add: downgrade_cast_u64_def eos_assert_def)
qed

lemma unat_ucast_128_64: "unat v < 2 ^ 64 \<Longrightarrow> unat (ucast (v :: u128) :: u64) = unat v"
  by (simp add: unsigned_ucast_eq take_bit_nat_eq_self)

lemma downgrade_cast_i64_eq:
  "downgrade_cast_i64 v = (if unat v < 2 ^ 63 then Inr (ucast v) else Inl Rate_Limiting_State_Inconsistent)"
proof -
  have "v \<le> 0x7fffffffffffffff \<longleftrightarrow> unat v < 2 ^ 63" by (simp add: word_le_nat_alt) linarith
  then show ?thesis by (simp add: downgrade_cast_i64_def eos_assert_def)
qed

section \<open>What the accumulators compute\<close>

text \<open>The accumulated value as it stands at \<open>ordinal\<close>, before anything is added there.\<close>

definition decayed :: "u32 \<Rightarrow> u64 \<Rightarrow> u32 \<Rightarrow> u32 \<Rightarrow> nat" where
  "decayed l v ordinal window =
     (if ordinal \<le> l then unat v
      else if unat ordinal < unat l + unat window
        then unat v * (unat window - (unat ordinal - unat l)) div unat window
        else 0)"

definition contribution :: "u64 \<Rightarrow> u32 \<Rightarrow> nat" where
  "contribution units window = div_ceil (unat units * 1000000) (unat window)"

lemma decayed_le: "decayed l v ordinal window \<le> unat v"
proof (cases "unat window = 0")
  case False
  have "unat v * (unat window - (unat ordinal - unat l)) div unat window \<le> unat v * unat window div unat window"
    by (intro div_le_mono mult_le_mono) simp_all
  then show ?thesis using False by (simp add: decayed_def)
qed (simp add: decayed_def)

lemma unat_window_sum: "unat (ucast (l :: u32) + ucast (w :: u32) :: u64) = unat l + unat w"
  using unat_lt_32 [of l] unat_lt_32 [of w] by (subst unat_add_small) simp_all

lemma window_test:
  "ucast (l :: u32) + ucast (w :: u32) > (ucast (n :: u32) :: u64) \<longleftrightarrow> unat n < unat l + unat w"
  by (simp add: word_less_nat_alt unat_window_sum)

lemma unat_decay_numerator:
  fixes l n w :: u32
  assumes "l < n" "unat n < unat l + unat w"
  shows "unat (ucast w - ucast (n - l) :: u64) = unat w - (unat n - unat l)"
    and "unat (ucast w - ucast (n - l) :: u128) = unat w - (unat n - unat l)"
proof -
  have d: "unat (n - l) = unat n - unat l"
    using assms by (intro unat_minus_le) simp
  have "unat n - unat l \<le> unat w" using assms by linarith
  then show "unat (ucast w - ucast (n - l) :: u64) = unat w - (unat n - unat l)"
    and "unat (ucast w - ucast (n - l) :: u128) = unat w - (unat n - unat l)"
    by (subst unat_minus_le; simp add: d word_le_nat_alt)+
qed

lemma unat_precision [simp]: "unat rate_limiting_precision = 1000000"
  by (simp add: rate_limiting_precision_def)

lemma unat_max_raw_value: "unat max_raw_value = 18446744073709"
  by (simp add: max_raw_value_def unat_div unat_minus_1)

lemma unat_contribution:
  assumes "w \<noteq> 0"
  shows "unat (integer_divide_ceil (ucast (u :: u64) * ucast rate_limiting_precision) (ucast (w :: u32)) :: u128) =
    contribution u w"
proof -
  have "unat (ucast w :: u128) \<noteq> 0" using assms by (simp add: unat_eq_zero)
  then have "(ucast w :: u128) \<noteq> 0" by (metis unsigned_0)
  moreover have "unat (ucast u * ucast rate_limiting_precision :: u128) = unat u * 1000000"
    using unat_lt_64 [of u] by (subst unat_mult_small) simp_all
  ultimately show ?thesis by (simp add: unat_integer_divide_ceil contribution_def)
qed

text \<open>The product that the decay forms fits 64 bits.\<close>

definition decay_fits :: "u32 \<Rightarrow> u64 \<Rightarrow> u32 \<Rightarrow> u32 \<Rightarrow> bool" where
  "decay_fits l v ordinal window \<longleftrightarrow>
     (l < ordinal \<and> unat ordinal < unat l + unat window \<longrightarrow>
      unat v * (unat window - (unat ordinal - unat l)) < 2 ^ 64)"

lemma decayed_same [simp]: "decayed n v n w = unat v"
  by (simp add: decayed_def)

lemma decay_fits_same [simp]: "decay_fits n v n w"
  by (simp add: decay_fits_def)

lemma ema_decay_value:
  assumes w: "w \<noteq> 0" and less: "l < n"
  shows "(if ucast l + ucast w > (ucast n :: u64)
      then ratio_mult v (Ratio (ucast w - ucast (n - l)) (ucast w)) else Inr 0) =
    (if decay_fits l v n w then Inr (of_nat (decayed l v n w)) else Inl Rate_Limiting_State_Inconsistent)"
proof (cases "unat n < unat l + unat w")
  case True
  have order: "\<not> n \<le> l" using less by simp
  have "unat (ucast w :: u64) \<noteq> 0" using w by (simp add: unat_eq_zero)
  then have "(ucast w :: u64) \<noteq> 0" by (metis unsigned_0)
  with True less show ?thesis
    by (simp add: window_test ratio_mult_eq unat_decay_numerator decay_fits_def decayed_def order)
next
  case False
  have order: "\<not> n \<le> l" using less by simp
  from False less show ?thesis by (simp add: window_test decay_fits_def decayed_def order)
qed

lemma ema_advance_eq:
  assumes "w \<noteq> 0"
  shows "ema_advance n w a =
    (if n < last_ordinal a then Inl Resource_Limit_Exception
     else if n = last_ordinal a then Inr a
     else if decay_fits (last_ordinal a) (value_ex a) n w then
       let d = decayed (last_ordinal a) (value_ex a) n w
       in Inr (a\<lparr> last_ordinal := n, value_ex := of_nat d, consumed := of_nat (div_ceil d 1000000) \<rparr>)
     else Inl Rate_Limiting_State_Inconsistent)"
proof -
  let ?d = "decayed (last_ordinal a) (value_ex a) n w"
  have d: "?d < 2 ^ 64"
    using decayed_le [of "last_ordinal a" "value_ex a" n w] unat_lt_64 [of "value_ex a"] by simp
  have avg: "integer_divide_ceil (of_nat ?d) rate_limiting_precision = (of_nat (div_ceil ?d 1000000) :: u64)"
  proof -
    have "rate_limiting_precision \<noteq> 0" by (simp add: rate_limiting_precision_def)
    then have "unat (integer_divide_ceil (of_nat ?d) rate_limiting_precision) = div_ceil ?d 1000000"
      using d by (simp add: unat_integer_divide_ceil unat_of_nat take_bit_nat_eq_self)
    then show ?thesis by (metis of_nat_unat_self)
  qed
  show ?thesis
  proof (cases n "last_ordinal a" rule: linorder_cases)
    case greater
    then show ?thesis
      unfolding ema_advance_def Let_def ema_decay_value [OF assms greater]
      by (auto simp: ema_average_def avg)
  qed (auto simp: ema_advance_def eos_assert_def)
qed

definition consumed_at :: "u32 \<Rightarrow> u32 \<Rightarrow> usage_accumulator \<Rightarrow> nat" where
  "consumed_at n w a =
     (if n = last_ordinal a then unat (consumed a)
      else div_ceil (decayed (last_ordinal a) (value_ex a) n w) 1000000)"

lemma contribution_less: "w \<noteq> 0 \<Longrightarrow> u \<le> max_raw_value \<Longrightarrow> contribution u w < 2 ^ 64"
proof -
  assume w: "w \<noteq> 0" and u: "u \<le> max_raw_value"
  have "contribution u w \<le> unat u * 1000000"
    using w unfolding contribution_def by (intro div_ceil_le_self) (simp add: unat_gt_0)
  moreover have "unat u \<le> 18446744073709" using u by (simp add: word_le_nat_alt unat_max_raw_value)
  ultimately show ?thesis by simp
qed

lemma ema_add_Inr:
  assumes w: "w \<noteq> 0"
  shows "ema_add u n w a = Inr a' \<longleftrightarrow>
    u \<le> max_raw_value \<and> unat (consumed a) + unat u < 2 ^ 64 \<and>
    unat (value_ex a) + contribution u w < 2 ^ 64 \<and>
    last_ordinal a \<le> n \<and> decay_fits (last_ordinal a) (value_ex a) n w \<and>
    last_ordinal a' = n \<and>
    unat (value_ex a') = decayed (last_ordinal a) (value_ex a) n w + contribution u w \<and>
    unat (consumed a') = consumed_at n w a + unat u"
    (is "?L \<longleftrightarrow> ?G1 \<and> ?G2 \<and> ?G3 \<and> ?G4 \<and> ?G5 \<and> ?R")
proof (cases "?G1 \<and> ?G2 \<and> ?G3 \<and> ?G4 \<and> ?G5")
  case True
  define d where "d = decayed (last_ordinal a) (value_ex a) n w"
  have d: "d \<le> unat (value_ex a)" unfolding d_def by (rule decayed_le)
  have c: "consumed_at n w a + unat u < 2 ^ 64"
  proof (cases "n = last_ordinal a")
    case False
    have "div_ceil d 1000000 \<le> 18446744073710"
      using d unat_lt_64 [of "value_ex a"] by (subst div_ceil_iff) simp_all
    moreover have "unat u \<le> 18446744073709" using True by (simp add: word_le_nat_alt unat_max_raw_value)
    ultimately show ?thesis using False by (simp add: consumed_at_def d_def)
  qed (use True in \<open>simp add: consumed_at_def\<close>)
  define contrib :: u64 where
    "contrib = ucast (integer_divide_ceil (ucast u * ucast rate_limiting_precision) (ucast w) :: u128)"
  have cast: "downgrade_cast_u64 (integer_divide_ceil (ucast u * ucast rate_limiting_precision) (ucast w)) = Inr contrib"
    using True w by (simp add: downgrade_cast_u64_eq unat_contribution contribution_less [simplified] contrib_def)
  have contrib: "unat contrib = contribution u w"
    unfolding contrib_def using True w
    by (subst unat_ucast_128_64) (simp_all add: unat_contribution contribution_less [simplified])
  define b where "b = (if n = last_ordinal a then a
    else a\<lparr> last_ordinal := n, value_ex := of_nat d, consumed := of_nat (div_ceil d 1000000) \<rparr>)"
  have adv: "ema_advance n w a = Inr b"
    using True w by (simp add: ema_advance_eq b_def d_def Let_def not_less)
  have b: "last_ordinal b = n" "unat (value_ex b) = d" "unat (consumed b) = consumed_at n w a"
    using d c unat_lt_64 [of "value_ex a"]
    by (simp_all add: b_def d_def consumed_at_def unat_of_nat take_bit_nat_eq_self split: if_splits)
  have eq: "ema_add u n w a = Inr (b\<lparr> consumed := consumed b + u, value_ex := value_ex b + contrib \<rparr>)"
    using True w by (simp add: ema_add_def cast adv add_fits_iff contrib)
  have v: "unat (value_ex b + contrib) = d + contribution u w"
    using True d by (subst unat_add_small) (simp_all add: b contrib)
  have k: "unat (consumed b + u) = consumed_at n w a + unat u"
    using c by (subst unat_add_small) (simp_all add: b)
  have "?L \<longleftrightarrow> last_ordinal a' = n \<and> value_ex a' = value_ex b + contrib \<and> consumed a' = consumed b + u"
    unfolding eq using b(1) by (cases a'; cases b) auto
  also have "\<dots> \<longleftrightarrow> ?R" by (simp add: word_unat_eq_iff v k d_def)
  finally show ?thesis using True by blast
next
  case False
  then show ?thesis
    using w by (auto simp: ema_add_def ema_advance_eq add_fits_iff downgrade_cast_u64_eq unat_ucast_128_64
      unat_contribution not_less Let_def split: if_splits)
qed

lemma ema_add_Inl:
  assumes "w \<noteq> 0" "ema_add u n w a = Inl e"
  shows "e = Resource_Limit_Exception \<and> n < last_ordinal a \<or>
    e = Rate_Limiting_State_Inconsistent \<and>
      (max_raw_value < u \<or> 2 ^ 64 \<le> unat (consumed a) + unat u \<or>
       2 ^ 64 \<le> unat (value_ex a) + contribution u w \<or> \<not> decay_fits (last_ordinal a) (value_ex a) n w)"
  using assms
  by (auto simp: ema_add_def ema_advance_eq rbind_eq_Inl add_fits_iff downgrade_cast_u64_eq unat_ucast_128_64
      unat_contribution not_less not_le Let_def split: if_splits)

text \<open>
  A run of periods, each with at most \<open>U\<close> units: the accumulated value stays below \<open>U\<close> times the
  precision and what counts as consumed below twice \<open>U\<close>.
\<close>

definition ema_within :: "u64 \<Rightarrow> usage_accumulator \<Rightarrow> bool" where
  "ema_within U a \<longleftrightarrow> unat (value_ex a) \<le> unat U * 1000000 \<and> unat (consumed a) \<le> 2 * unat U"

lemma ema_average_le: "unat (value_ex a) \<le> unat U * 1000000 \<Longrightarrow> ema_average a \<le> U"
proof -
  assume "unat (value_ex a) \<le> unat U * 1000000"
  then have "div_ceil (unat (value_ex a)) 1000000 \<le> unat U" by (subst div_ceil_iff) simp_all
  moreover have "rate_limiting_precision \<noteq> 0" by (simp add: rate_limiting_precision_def)
  ultimately show ?thesis
    by (simp add: word_le_nat_alt ema_average_def unat_integer_divide_ceil)
qed

lemma contribution_le:
  assumes "w \<noteq> 0" "unat u \<le> m"
  shows "contribution u w \<le> m * 1000000"
proof -
  have "1 \<le> unat w" using assms(1) by (simp add: Suc_le_eq unat_gt_0)
  then show ?thesis
    using mult_le_mono [OF assms(2) \<open>1 \<le> unat w\<close>] unfolding contribution_def
    by (subst div_ceil_iff) simp_all
qed

lemma decayed_contribution_le:
  assumes "w \<noteq> 0" "l < n" "unat v \<le> m * 1000000" "unat u \<le> m"
  shows "decayed l v n w + contribution u w \<le> m * 1000000"
proof (cases "unat n < unat l + unat w")
  case True
  have "0 < unat w" using assms(1) by (simp add: unat_gt_0)
  then have "unat v * (unat w - (unat n - unat l)) div unat w +
      div_ceil (unat u * 1000000) (unat w) \<le> m * 1000000"
    using assms by (intro decay_step_bound) (simp_all add: word_less_nat_alt)
  then show ?thesis
    using True assms(2) by (simp add: decayed_def contribution_def linorder_not_less [symmetric])
next
  case False
  then show ?thesis
    using assms(2) contribution_le [OF assms(1,4)] by (simp add: decayed_def linorder_not_less [symmetric])
qed

lemma ema_add_within:
  assumes w: "w \<noteq> 0" and fits: "unat U * 2000000 * unat w < 2 ^ 64"
    and inv: "ema_within U a" and u: "u \<le> U" and n: "last_ordinal a < n"
  shows "\<exists>a'. ema_add u n w a = Inr a' \<and> ema_within U a' \<and> last_ordinal a' = n"
proof -
  define M where "M = unat U * 1000000"
  define d where "d = decayed (last_ordinal a) (value_ex a) n w"
  have w1: "1 \<le> unat w" using w by (simp add: Suc_le_eq unat_gt_0)
  have Mw: "2 * M * unat w < 2 ^ 64" using fits by (simp add: M_def mult.commute mult.assoc)
  have M: "2 * M < 2 ^ 64" using Mw w1 by (cases "unat w") (simp_all add: algebra_simps)
  have v: "unat (value_ex a) \<le> M" and c: "unat (consumed a) \<le> 2 * unat U" and uU: "unat u \<le> unat U"
    using inv u by (simp_all add: ema_within_def M_def word_le_nat_alt)
  have contrib: "contribution u w \<le> M"
    unfolding M_def by (rule contribution_le [OF w uU])
  have sum: "d + contribution u w \<le> M"
    unfolding d_def M_def by (rule decayed_contribution_le [OF w n v [unfolded M_def] uU])
  have dfit: "decay_fits (last_ordinal a) (value_ex a) n w"
  proof -
    have "unat (value_ex a) * (unat w - (unat n - unat (last_ordinal a))) \<le> M * unat w"
      using v by (intro mult_le_mono) simp_all
    then show ?thesis using Mw by (simp add: decay_fits_def)
  qed
  have dc: "div_ceil d 1000000 \<le> unat U"
    using sum by (subst div_ceil_iff) (simp_all add: M_def)
  define a' where "a' = \<lparr> last_ordinal = n, value_ex = of_nat (d + contribution u w),
    consumed = of_nat (div_ceil d 1000000 + unat u) \<rparr>"
  have val: "unat (value_ex a') = d + contribution u w"
    using sum M by (simp add: a'_def unat_of_nat take_bit_nat_eq_self del: of_nat_add)
  have con: "unat (consumed a') = div_ceil d 1000000 + unat u"
    using dc uU M by (simp add: a'_def unat_of_nat take_bit_nat_eq_self M_def del: of_nat_add)
  have ord: "last_ordinal a' = n" "n \<noteq> last_ordinal a" "last_ordinal a \<le> n"
    using n by (auto simp: a'_def)
  have raw: "u \<le> max_raw_value"
    using uU M by (simp add: word_le_nat_alt unat_max_raw_value M_def)
  have "unat (consumed a) + unat u < 2 ^ 64" "unat (value_ex a) + contribution u w < 2 ^ 64"
    using v c uU contrib M by (simp_all add: M_def)
  then have "ema_add u n w a = Inr a'"
    unfolding ema_add_Inr [OF w] using raw ord dfit by (simp add: val con d_def consumed_at_def)
  moreover have "ema_within U a'"
    using sum dc uU by (simp add: ema_within_def val con M_def)
  ultimately show ?thesis by (simp add: a'_def)
qed

lemma value_ex_at_eq:
  "value_ex_at n w a = Inr (of_nat (decayed (decay_last_ordinal a) (decay_value_ex a) n w))"
proof (cases "decay_last_ordinal a < n \<and> unat n < unat (decay_last_ordinal a) + unat w")
  case True
  define l v where "l = decay_last_ordinal a" and "v = decay_value_ex a"
  have "unat l < unat n" "unat n < unat l + unat w" using True by (simp_all add: l_def word_less_nat_alt)
  then have "unat (ucast w :: u128) \<noteq> 0" by simp
  then have w0: "(ucast w :: u128) \<noteq> 0" by (metis unsigned_0)
  have num: "unat (ucast w - ucast (n - l) :: u128) = unat w - (unat n - unat l)"
    using True by (intro unat_decay_numerator) (simp_all add: l_def)
  have "unat v * (unat w - (unat n - unat l)) \<le> 18446744073709551616 * 4294967296"
    using unat_lt_64 [of v] unat_lt_32 [of w] by (intro mult_le_mono) simp_all
  then have fits: "unat v * (unat w - (unat n - unat l)) < 2 ^ 128" by simp
  have dec: "decayed l v n w = unat v * (unat w - (unat n - unat l)) div unat w"
    using True by (simp add: decayed_def l_def linorder_not_less [symmetric])
  have small: "decayed l v n w < 2 ^ 64"
    using decayed_le [of l v n w] unat_lt_64 [of v] by simp
  have "ratio_mult (ucast v) (Ratio (ucast w - ucast (n - l)) (ucast w)) = Inr (of_nat (decayed l v n w) :: u128)"
    using fits w0 by (simp add: ratio_mult_eq num dec)
  moreover have "downgrade_cast_u64 (of_nat (decayed l v n w)) = Inr (of_nat (decayed l v n w))"
    using small by (simp add: downgrade_cast_u64_eq word_unat_eq_iff unsigned_ucast_eq unat_of_nat take_bit_nat_eq_self)
  ultimately show ?thesis
    using True by (simp add: value_ex_at_def window_test l_def v_def Let_def)
next
  case False
  then show ?thesis
    by (auto simp: value_ex_at_def window_test decayed_def not_le not_less)
qed

text \<open>A range for the elastic limit, and when it is computed without an overflow.\<close>

lemma update_elastic_limit_range:
  assumes "unat (max_limit p) * unat (max_multiplier p) < 2 ^ 64" and "max_multiplier p \<noteq> 0"
    and "update_elastic_limit cur avg p = Inr r"
  shows "max_limit p \<le> r \<and> unat r \<le> unat (max_limit p) * unat (max_multiplier p)"
proof -
  let ?cap = "max_limit p * ucast (max_multiplier p)"
  have cap: "unat ?cap = unat (max_limit p) * unat (max_multiplier p)"
    using assms(1) by (subst unat_mult_small) simp_all
  have "max_limit p \<le> ?cap"
    using assms(2) by (simp add: word_le_nat_alt cap unat_gt_0 Suc_le_eq)
  moreover obtain x where "r = min (max x (max_limit p)) ?cap"
    using assms(3) by (auto simp: update_elastic_limit_def simp del: if_split)
  ultimately show ?thesis by (simp flip: cap word_le_nat_alt)
qed

definition elastic_sound :: "elastic_limit_parameters \<Rightarrow> bool" where
  "elastic_sound p \<longleftrightarrow>
     periods p \<noteq> 0 \<and> max_multiplier p \<noteq> 0 \<and>
     denominator (contract_rate p) \<noteq> 0 \<and> denominator (expand_rate p) \<noteq> 0 \<and>
     unat (max_limit p) * 2000000 * unat (periods p) < 2 ^ 64 \<and>
     unat (max_limit p) * unat (max_multiplier p) < 2 ^ 64 \<and>
     unat (max_limit p) * unat (max_multiplier p) * unat (numerator (contract_rate p)) < 2 ^ 64 \<and>
     unat (max_limit p) * unat (max_multiplier p) * unat (numerator (expand_rate p)) < 2 ^ 64"

lemma update_elastic_limit_total:
  assumes "elastic_sound p" and "unat cur \<le> unat (max_limit p) * unat (max_multiplier p)"
  shows "\<exists>r. update_elastic_limit cur avg p = Inr r"
proof -
  have "unat cur * unat (numerator (contract_rate p)) < 2 ^ 64"
    "unat cur * unat (numerator (expand_rate p)) < 2 ^ 64"
    using assms mult_le_mono1 [OF assms(2), of "unat (numerator (contract_rate p))"]
      mult_le_mono1 [OF assms(2), of "unat (numerator (expand_rate p))"]
    unfolding elastic_sound_def by linarith+
  then show ?thesis
    using assms(1) by (simp add: update_elastic_limit_def ratio_mult_eq elastic_sound_def)
qed

section \<open>Properties\<close>

text \<open>C33: adding usage to the moving average is exact. With a positive window it succeeds just when
  the units, the tracked consumption, the accumulated value and the decay product fit 64 bits and the
  period does not go back; the new value is then the decayed old value plus the rounded-up share of
  the units, and the consumption is what the period had so far plus the units, without wrap-around.
  A refusal names a period that goes back or an overflow.\<close>

theorem ema_add_exact:
  assumes "w \<noteq> 0"
  shows "case ema_add u n w a of
      Inr a' \<Rightarrow> last_ordinal a \<le> n \<and> last_ordinal a' = n \<and>
        unat (value_ex a') = decayed (last_ordinal a) (value_ex a) n w + contribution u w \<and>
        unat (consumed a') = consumed_at n w a + unat u
    | Inl e \<Rightarrow> e = Resource_Limit_Exception \<and> n < last_ordinal a \<or>
        e = Rate_Limiting_State_Inconsistent \<and>
        (max_raw_value < u \<or> 2 ^ 64 \<le> unat (consumed a) + unat u \<or>
         2 ^ 64 \<le> unat (value_ex a) + contribution u w \<or>
         \<not> decay_fits (last_ordinal a) (value_ex a) n w)"
  using ema_add_Inl [OF assms] ema_add_Inr [OF assms] by (auto split: sum.split)

theorem ema_add_exact_witness:
  "\<exists>a'. ema_add 500 17 120 \<lparr> last_ordinal = 7, value_ex = 6000001, consumed = 9 \<rparr> = Inr a' \<and>
    last_ordinal a' = 17 \<and> unat (value_ex a') = 9666667 \<and> unat (consumed a') = 506"
proof -
  let ?a = "\<lparr> last_ordinal = 7, value_ex = 6000001, consumed = 9 \<rparr>"
  have "ema_add 500 17 120 ?a = Inr \<lparr> last_ordinal = 17, value_ex = 9666667, consumed = 506 \<rparr>"
    by code_simp
  then show ?thesis using ema_add_exact [where u = 500 and n = 17 and w = 120 and a = ?a] by simp
qed



text \<open>The decaying accumulator never fails to report its value, and adding to it is refused only
  for units beyond the representable range; otherwise the value is the decayed one plus the extended
  units, saturated at the largest 64-bit value.\<close>

theorem decay_add_saturates:
  "value_ex_at n w a = Inr (of_nat (decayed (decay_last_ordinal a) (decay_value_ex a) n w)) \<and>
   (case decay_add u n w a of
      Inl e \<Rightarrow> e = Rate_Limiting_State_Inconsistent \<and> max_raw_value < u
    | Inr a' \<Rightarrow> u \<le> max_raw_value \<and> decay_last_ordinal a' = max (decay_last_ordinal a) n \<and>
        unat (decay_value_ex a') =
          min (decayed (decay_last_ordinal a) (decay_value_ex a) n w + unat u * 1000000) (2 ^ 64 - 1))"
proof (cases "u \<le> max_raw_value")
  case True
  define d where "d = decayed (decay_last_ordinal a) (decay_value_ex a) n w"
  define b where "b = (if decay_last_ordinal a < n
    then a\<lparr> decay_value_ex := of_nat d, decay_last_ordinal := n \<rparr> else a)"
  have d: "d < 2 ^ 64"
    using decayed_le [of "decay_last_ordinal a" "decay_value_ex a" n w] unat_lt_64 [of "decay_value_ex a"]
    by (simp add: d_def)
  have b: "decay_last_ordinal b = max (decay_last_ordinal a) n" "unat (decay_value_ex b) = d"
    using d by (auto simp: b_def d_def decayed_def unat_of_nat take_bit_nat_eq_self max_def not_less)
  define x :: u128 where "x = ucast u * ucast rate_limiting_precision + ucast (decay_value_ex b)"
  have "unat (ucast u * ucast rate_limiting_precision :: u128) = unat u * 1000000"
    using unat_lt_64 [of u] by (subst unat_mult_small) simp_all
  then have x: "unat x = d + unat u * 1000000"
    unfolding x_def using unat_lt_64 [of u] d by (subst unat_add_small) (simp_all add: b)
  then have mn: "unat (min x 0xffffffffffffffff) = min (d + unat u * 1000000) (2 ^ 64 - 1)"
    by (auto simp: min_def word_le_nat_alt)
  then have "downgrade_cast_u64 (min x 0xffffffffffffffff) = Inr (ucast (min x 0xffffffffffffffff))"
    by (subst downgrade_cast_u64_eq) simp
  moreover have "(if decay_last_ordinal a < n
      then rbind (value_ex_at n w a) (\<lambda>v. Inr (a\<lparr> decay_value_ex := v, decay_last_ordinal := n \<rparr>))
      else Inr a) = Inr b"
    by (simp add: value_ex_at_eq b_def d_def)
  ultimately have "decay_add u n w a = Inr (b\<lparr> decay_value_ex := ucast (min x 0xffffffffffffffff) \<rparr>)"
    using True by (simp only: decay_add_def Let_def eos_assert_True rbind_Inr x_def)
  moreover have "unat (ucast (min x 0xffffffffffffffff) :: u64) = min (d + unat u * 1000000) (2 ^ 64 - 1)"
    using mn by (subst unat_ucast_128_64) simp_all
  ultimately show ?thesis
    using True by (simp add: value_ex_at_eq b d_def)
next
  case False
  then show ?thesis by (simp add: value_ex_at_eq decay_add_def)
qed



end
