(* ===== verification/Resource_Limits.thy ===== *)
theory Resource_Limits
  imports Names Block_Timestamp Chain_Database Resource_Accumulators "HOL-Library.Product_Lexorder"
begin

text \<open>
  The resource limits manager (\<^verbatim>\<open>resource_limits.cpp\<close>): the tables of account limits and usage, the
  chain-wide configuration and state, and every operation on them. A result \<open>Inl\<close> is the raised
  exception; the database session of the caller then restores the tables, so no state is returned.
  Deep-mind logging and snapshots are not modelled.
\<close>

section \<open>Tables and state\<close>

record resource_limits_object =
  rlo_owner :: name
  rlo_pending :: bool
  net_weight :: i64
  cpu_weight :: i64
  ram_bytes :: i64

record resource_usage_object =
  ruo_owner :: name
  net_usage :: usage_accumulator
  cpu_usage :: usage_accumulator
  ram_usage :: u64

record resource_limits_config_object =
  cpu_limit_parameters :: elastic_limit_parameters
  net_limit_parameters :: elastic_limit_parameters
  account_cpu_usage_average_window :: u32
  account_net_usage_average_window :: u32

record resource_limits_state_object =
  average_block_net_usage :: usage_accumulator
  average_block_cpu_usage :: usage_accumulator
  pending_net_usage :: u64
  pending_cpu_usage :: u64
  total_net_weight :: u64
  total_cpu_weight :: u64
  total_ram_bytes :: u64
  virtual_net_limit :: u64
  virtual_cpu_limit :: u64

text \<open>The limits are indexed by the pair of the pending flag and the owner, the usage by the owner.\<close>

type_synonym resource_limits_index = "(bool \<times> name, resource_limits_object) fmap"

record resource_limits_manager =
  limits :: resource_limits_index
  usages :: "(name, resource_usage_object) fmap"
  rl_config :: resource_limits_config_object
  rl_state :: resource_limits_state_object

definition default_config :: resource_limits_config_object where
  "default_config =
     \<lparr> cpu_limit_parameters = default_cpu_limit_parameters,
       net_limit_parameters = default_net_limit_parameters,
       account_cpu_usage_average_window = 24 * 60 * 60 * 1000 div 500,
       account_net_usage_average_window = 24 * 60 * 60 * 1000 div 500 \<rparr>"

definition initialize_database :: resource_limits_manager where
  "initialize_database =
     \<lparr> limits = fmempty, usages = fmempty, rl_config = default_config,
       rl_state =
         \<lparr> average_block_net_usage = usage_accumulator_init,
           average_block_cpu_usage = usage_accumulator_init,
           pending_net_usage = 0, pending_cpu_usage = 0,
           total_net_weight = 0, total_cpu_weight = 0, total_ram_bytes = 0,
           virtual_net_limit = max_limit (net_limit_parameters default_config),
           virtual_cpu_limit = max_limit (cpu_limit_parameters default_config) \<rparr> \<rparr>"

section \<open>Operations\<close>

definition update_virtual_cpu_limit ::
    "resource_limits_config_object \<Rightarrow> resource_limits_state_object \<Rightarrow> resource_limits_state_object res" where
  "update_virtual_cpu_limit cfg st =
     rbind (update_elastic_limit (virtual_cpu_limit st) (ema_average (average_block_cpu_usage st))
              (cpu_limit_parameters cfg)) (\<lambda>l.
     Inr (st\<lparr> virtual_cpu_limit := l \<rparr>))"

definition update_virtual_net_limit ::
    "resource_limits_config_object \<Rightarrow> resource_limits_state_object \<Rightarrow> resource_limits_state_object res" where
  "update_virtual_net_limit cfg st =
     rbind (update_elastic_limit (virtual_net_limit st) (ema_average (average_block_net_usage st))
              (net_limit_parameters cfg)) (\<lambda>l.
     Inr (st\<lparr> virtual_net_limit := l \<rparr>))"

definition initialize_account :: "name \<Rightarrow> resource_limits_manager \<Rightarrow> resource_limits_manager res" where
  "initialize_account account m =
     rbind (db_create (limits m) (False, account)
              \<lparr> rlo_owner = account, rlo_pending = False, net_weight = - 1, cpu_weight = - 1, ram_bytes = - 1 \<rparr>)
       (\<lambda>lims.
     rbind (db_create (usages m) account
              \<lparr> ruo_owner = account, net_usage = usage_accumulator_init, cpu_usage = usage_accumulator_init,
                ram_usage = 0 \<rparr>) (\<lambda>us.
     Inr (m\<lparr> limits := lims, usages := us \<rparr>)))"

definition set_block_parameters ::
    "elastic_limit_parameters \<Rightarrow> elastic_limit_parameters \<Rightarrow> resource_limits_manager \<Rightarrow> resource_limits_manager res" where
  "set_block_parameters cpu_params net_params m =
     rbind (elastic_limit_parameters_validate cpu_params) (\<lambda>_.
     rbind (elastic_limit_parameters_validate net_params) (\<lambda>_.
     if cpu_limit_parameters (rl_config m) = cpu_params \<and> net_limit_parameters (rl_config m) = net_params
     then Inr m
     else Inr (m\<lparr> rl_config := (rl_config m)\<lparr> cpu_limit_parameters := cpu_params,
                                              net_limit_parameters := net_params \<rparr> \<rparr>)))"

text \<open>The accounts of a transaction are a \<^verbatim>\<open>flat_set\<close>: the list of its elements in their order.\<close>

definition update_account_usage :: "name list \<Rightarrow> u32 \<Rightarrow> resource_limits_manager \<Rightarrow> resource_limits_manager res" where
  "update_account_usage accounts time_slot m =
     rfold (\<lambda>a m.
       rbind (db_get (usages m) a) (\<lambda>usage.
       rbind (ema_add 0 time_slot (account_net_usage_average_window (rl_config m)) (net_usage usage)) (\<lambda>nu.
       rbind (ema_add 0 time_slot (account_cpu_usage_average_window (rl_config m)) (cpu_usage usage)) (\<lambda>cu.
       Inr (m\<lparr> usages := db_modify (usages m) a (usage\<lparr> net_usage := nu, cpu_usage := cu \<rparr>) \<rparr>)))))
       accounts m"

text \<open>The limits in force: the pending ones when there are any. RAM bytes, net weight, cpu weight.\<close>

definition get_account_limits :: "resource_limits_manager \<Rightarrow> name \<Rightarrow> (i64 \<times> i64 \<times> i64) res" where
  "get_account_limits m account =
     (case db_find (limits m) (True, account) of
        Some pending_buo \<Rightarrow> Inr (ram_bytes pending_buo, net_weight pending_buo, cpu_weight pending_buo)
      | None \<Rightarrow>
          rbind (db_get (limits m) (False, account)) (\<lambda>buo.
          Inr (ram_bytes buo, net_weight buo, cpu_weight buo)))"

text \<open>
  The window test of a resource: what the account used in its window, rounded down, against its
  share of the virtual capacity of the window, in 128-bit arithmetic.
\<close>

definition max_user_use_in_window :: "u64 \<Rightarrow> u32 \<Rightarrow> i64 \<Rightarrow> u64 \<Rightarrow> u128" where
  "max_user_use_in_window virtual_limit window weight total_weight =
     (let window_size = ucast window :: u128;
          virtual_network_capacity_in_window = ucast virtual_limit * window_size;
          user_weight = scast weight :: u128;
          all_user_weight = ucast total_weight
      in (virtual_network_capacity_in_window * user_weight) div all_user_weight)"

definition used_in_window :: "u64 \<Rightarrow> u32 \<Rightarrow> u128" where
  "used_in_window v window = (ucast v * ucast window) div ucast rate_limiting_precision"

text \<open>The body of the loop of \<^verbatim>\<open>add_transaction_usage\<close>, for one account.\<close>

definition charge_account :: "u64 \<Rightarrow> u64 \<Rightarrow> u32 \<Rightarrow> name \<Rightarrow> resource_limits_manager \<Rightarrow> resource_limits_manager res" where
  "charge_account cpu net time_slot a m =
     (let state = rl_state m; config = rl_config m in
      rbind (db_get (usages m) a) (\<lambda>usage.
      rbind (get_account_limits m a) (\<lambda>(unused, net_w, cpu_w).
      rbind (ema_add net time_slot (account_net_usage_average_window config) (net_usage usage)) (\<lambda>nu.
      rbind (ema_add cpu time_slot (account_cpu_usage_average_window config) (cpu_usage usage)) (\<lambda>cu.
      let usage = usage\<lparr> net_usage := nu, cpu_usage := cu \<rparr>;
          m = m\<lparr> usages := db_modify (usages m) a usage \<rparr>
      in
      rbind (if is_nonneg cpu_w \<and> total_cpu_weight state > 0
             then eos_assert
                    (used_in_window (value_ex (cpu_usage usage)) (account_cpu_usage_average_window config)
                     \<le> max_user_use_in_window (virtual_cpu_limit state) (account_cpu_usage_average_window config)
                          cpu_w (total_cpu_weight state))
                    Tx_Cpu_Usage_Exceeded
             else Inr ()) (\<lambda>_.
      rbind (if is_nonneg net_w \<and> total_net_weight state > 0
             then eos_assert
                    (used_in_window (value_ex (net_usage usage)) (account_net_usage_average_window config)
                     \<le> max_user_use_in_window (virtual_net_limit state) (account_net_usage_average_window config)
                          net_w (total_net_weight state))
                    Tx_Net_Usage_Exceeded
             else Inr ()) (\<lambda>_.
      Inr m)))))))"

definition add_transaction_usage ::
    "name list \<Rightarrow> u64 \<Rightarrow> u64 \<Rightarrow> u32 \<Rightarrow> resource_limits_manager \<Rightarrow> resource_limits_manager res" where
  "add_transaction_usage accounts cpu net time_slot m =
     rbind (rfold (charge_account cpu net time_slot) accounts m) (\<lambda>m.
     let state = (rl_state m)\<lparr> pending_cpu_usage := pending_cpu_usage (rl_state m) + cpu,
                               pending_net_usage := pending_net_usage (rl_state m) + net \<rparr>;
         config = rl_config m
     in
     rbind (eos_assert (pending_cpu_usage state \<le> max_limit (cpu_limit_parameters config)) Block_Resource_Exhausted) (\<lambda>_.
     rbind (eos_assert (pending_net_usage state \<le> max_limit (net_limit_parameters config)) Block_Resource_Exhausted) (\<lambda>_.
     Inr (m\<lparr> rl_state := state \<rparr>))))"

text \<open>Negating the least \<^verbatim>\<open>int64_t\<close> is undefined.\<close>

definition add_pending_ram_usage :: "name \<Rightarrow> i64 \<Rightarrow> resource_limits_manager \<Rightarrow> resource_limits_manager res" where
  "add_pending_ram_usage account ram_delta m =
     (if ram_delta = 0 then Inr m
      else
        rbind (db_get (usages m) account) (\<lambda>usage.
        rbind (eos_assert (\<not> is_positive ram_delta \<or> - 1 - ram_usage usage \<ge> ram_delta) Transaction_Exception) (\<lambda>_.
        rbind (if is_nonneg ram_delta then Inr ()
               else rbind (eos_assert (ram_delta \<noteq> 0x8000000000000000) Undefined_Behaviour) (\<lambda>_.
                    eos_assert (ram_usage usage \<ge> - ram_delta) Transaction_Exception)) (\<lambda>_.
        Inr (m\<lparr> usages := db_modify (usages m) account
                             (usage\<lparr> ram_usage := ram_usage usage + ram_delta \<rparr>) \<rparr>)))))"

definition verify_account_ram_usage :: "name \<Rightarrow> resource_limits_manager \<Rightarrow> unit res" where
  "verify_account_ram_usage account m =
     rbind (get_account_limits m account) (\<lambda>(ram, net_w, cpu_w).
     rbind (db_get (usages m) account) (\<lambda>usage.
     if is_nonneg ram then eos_assert (ram_usage usage \<le> ram) Ram_Usage_Exceeded else Inr ()))"

definition get_account_ram_usage :: "name \<Rightarrow> resource_limits_manager \<Rightarrow> i64 res" where
  "get_account_ram_usage account m = rbind (db_get (usages m) account) (\<lambda>usage. Inr (ram_usage usage))"

definition find_or_create_pending_limits ::
    "name \<Rightarrow> resource_limits_index \<Rightarrow> (resource_limits_object \<times> resource_limits_index) res" where
  "find_or_create_pending_limits account idx =
     (case db_find idx (True, account) of
        Some pending_limits \<Rightarrow> Inr (pending_limits, idx)
      | None \<Rightarrow>
          rbind (db_get idx (False, account)) (\<lambda>lims.
          let pending_limits = lims\<lparr> rlo_pending := True \<rparr> in
          rbind (db_create idx (True, rlo_owner lims) pending_limits) (\<lambda>idx.
          Inr (pending_limits, idx))))"

definition set_account_limits ::
    "name \<Rightarrow> i64 \<Rightarrow> i64 \<Rightarrow> i64 \<Rightarrow> resource_limits_manager \<Rightarrow> (bool \<times> resource_limits_manager) res" where
  "set_account_limits account ram net_w cpu_w m =
     rbind (find_or_create_pending_limits account (limits m)) (\<lambda>(lims, idx).
     let decreased_limit = is_nonneg ram \<and> (sint (ram_bytes lims) < 0 \<or> sint ram < sint (ram_bytes lims)) in
     Inr (decreased_limit,
          m\<lparr> limits := db_modify idx (True, rlo_owner lims)
                          (lims\<lparr> ram_bytes := ram, net_weight := net_w, cpu_weight := cpu_w \<rparr>) \<rparr>))"

definition is_unlimited_cpu :: "name \<Rightarrow> resource_limits_manager \<Rightarrow> bool" where
  "is_unlimited_cpu account m =
     (case db_find (limits m) (False, account) of
        Some buo \<Rightarrow> cpu_weight buo = - 1
      | None \<Rightarrow> False)"

definition update_state_and_value :: "u64 \<Rightarrow> i64 \<Rightarrow> i64 \<Rightarrow> u64 res" where
  "update_state_and_value tot val pending_value =
     rbind (if is_positive val
            then rbind (eos_assert (tot \<ge> val) Rate_Limiting_State_Inconsistent) (\<lambda>_. Inr (tot - val))
            else Inr tot) (\<lambda>tot.
     if is_positive pending_value
     then rbind (eos_assert (- 1 - tot \<ge> pending_value) Rate_Limiting_State_Inconsistent) (\<lambda>_. Inr (tot + pending_value))
     else Inr tot)"

text \<open>The first pending entry in the order of the index.\<close>

definition pending_keys :: "resource_limits_index \<Rightarrow> (bool \<times> name) fset" where
  "pending_keys idx = ffilter fst (fmdom idx)"

definition next_pending :: "resource_limits_index \<Rightarrow> (bool \<times> name) option" where
  "next_pending idx =
     (case sorted_list_of_fset (pending_keys idx) of [] \<Rightarrow> None | k # _ \<Rightarrow> Some k)"

text \<open>One iteration of the loop of \<^verbatim>\<open>process_account_limit_updates\<close>.\<close>

definition apply_pending ::
    "(bool \<times> name) \<Rightarrow> resource_limits_index \<Rightarrow> resource_limits_state_object \<Rightarrow>
     (resource_limits_index \<times> resource_limits_state_object) res" where
  "apply_pending k idx rso =
     rbind (db_get idx k) (\<lambda>itr.
     rbind (db_get idx (False, rlo_owner itr)) (\<lambda>rlo.
     rbind (update_state_and_value (total_ram_bytes rso) (ram_bytes rlo) (ram_bytes itr)) (\<lambda>ram.
     rbind (update_state_and_value (total_cpu_weight rso) (cpu_weight rlo) (cpu_weight itr)) (\<lambda>cpu.
     rbind (update_state_and_value (total_net_weight rso) (net_weight rlo) (net_weight itr)) (\<lambda>net.
     Inr (db_remove
            (db_modify idx (False, rlo_owner itr)
               (rlo\<lparr> ram_bytes := ram_bytes itr, cpu_weight := cpu_weight itr, net_weight := net_weight itr \<rparr>)) k,
          rso\<lparr> total_ram_bytes := ram, total_cpu_weight := cpu, total_net_weight := net \<rparr>))))))"

lemma next_pending_Some: "next_pending idx = Some k \<Longrightarrow> k |\<in>| pending_keys idx"
proof -
  assume "next_pending idx = Some k"
  then obtain ks where "sorted_list_of_fset (pending_keys idx) = k # ks"
    by (auto simp: next_pending_def split: list.splits)
  then have "k \<in> set (sorted_list_of_fset (pending_keys idx))" by simp
  then show ?thesis by simp
qed

lemma next_pending_None: "next_pending idx = None \<longleftrightarrow> pending_keys idx = {||}"
proof -
  have "set (sorted_list_of_fset (pending_keys idx)) = fset (pending_keys idx)" by simp
  then have "sorted_list_of_fset (pending_keys idx) = [] \<longleftrightarrow> pending_keys idx = {||}"
    by (metis bot_fset.rep_eq fset_inject set_empty)
  then show ?thesis by (auto simp: next_pending_def split: list.split)
qed

lemma pending_keys_apply:
  assumes "apply_pending k idx rso = Inr (idx', rso')" "k |\<in>| pending_keys idx"
  shows "pending_keys idx' = pending_keys idx |-| {|k|}"
  using assms by (auto simp: apply_pending_def pending_keys_def db_remove_def db_modify_def)

function process_pending ::
    "resource_limits_index \<times> resource_limits_state_object \<Rightarrow>
     (resource_limits_index \<times> resource_limits_state_object) res" where
  "process_pending (idx, rso) =
     (case next_pending idx of
        None \<Rightarrow> Inr (idx, rso)
      | Some k \<Rightarrow> rbind (apply_pending k idx rso) process_pending)"
  by pat_completeness auto
termination
proof (relation "measure (\<lambda>(idx, rso). fcard (pending_keys idx))", goal_cases)
  case (2 idx rso k p)
  then obtain idx' rso' where p: "p = (idx', rso')" by (cases p)
  have k: "k |\<in>| pending_keys idx" using 2 by (simp add: next_pending_Some)
  have "pending_keys idx' |\<subset>| pending_keys idx"
    using 2 k unfolding p by (auto simp: pending_keys_apply)
  then show ?case unfolding p by (simp add: pfsubset_fcard_mono)
qed simp

definition process_account_limit_updates :: "resource_limits_manager \<Rightarrow> resource_limits_manager res" where
  "process_account_limit_updates m =
     rbind (process_pending (limits m, rl_state m)) (\<lambda>(idx, rso).
     Inr (m\<lparr> limits := idx, rl_state := rso \<rparr>))"

definition process_block_usage :: "u32 \<Rightarrow> resource_limits_manager \<Rightarrow> resource_limits_manager res" where
  "process_block_usage block_num m =
     (let config = rl_config m; state = rl_state m in
      rbind (ema_add (pending_cpu_usage state) block_num (periods (cpu_limit_parameters config))
               (average_block_cpu_usage state)) (\<lambda>avg.
      rbind (update_virtual_cpu_limit config (state\<lparr> average_block_cpu_usage := avg \<rparr>)) (\<lambda>state.
      let state = state\<lparr> pending_cpu_usage := 0 \<rparr> in
      rbind (ema_add (pending_net_usage state) block_num (periods (net_limit_parameters config))
               (average_block_net_usage state)) (\<lambda>avg.
      rbind (update_virtual_net_limit config (state\<lparr> average_block_net_usage := avg \<rparr>)) (\<lambda>state.
      Inr (m\<lparr> rl_state := state\<lparr> pending_net_usage := 0 \<rparr> \<rparr>))))))"

definition get_total_cpu_weight :: "resource_limits_manager \<Rightarrow> u64" where
  "get_total_cpu_weight m = total_cpu_weight (rl_state m)"

definition get_total_net_weight :: "resource_limits_manager \<Rightarrow> u64" where
  "get_total_net_weight m = total_net_weight (rl_state m)"

definition get_virtual_block_cpu_limit :: "resource_limits_manager \<Rightarrow> u64" where
  "get_virtual_block_cpu_limit m = virtual_cpu_limit (rl_state m)"

definition get_virtual_block_net_limit :: "resource_limits_manager \<Rightarrow> u64" where
  "get_virtual_block_net_limit m = virtual_net_limit (rl_state m)"

definition get_block_cpu_limit :: "resource_limits_manager \<Rightarrow> u64" where
  "get_block_cpu_limit m = max_limit (cpu_limit_parameters (rl_config m)) - pending_cpu_usage (rl_state m)"

definition get_block_net_limit :: "resource_limits_manager \<Rightarrow> u64" where
  "get_block_net_limit m = max_limit (net_limit_parameters (rl_config m)) - pending_net_usage (rl_state m)"

record account_resource_limit =
  used :: i64
  available :: i64
  max_use :: i64
  last_usage_update_time :: block_timestamp
  current_used :: i64

definition maximum_elastic_resource_multiplier :: u32 where
  "maximum_elastic_resource_multiplier = 1000"

text \<open>
  The two \<^verbatim>\<open>_ex\<close> queries differ only in the resource they read; this is their common body, given
  the accumulator of the account, its weight and the chain-wide figures of the resource.
\<close>

definition account_limit_ex ::
    "usage_accumulator \<Rightarrow> i64 \<Rightarrow> u64 \<Rightarrow> u64 \<Rightarrow> u64 \<Rightarrow> u32 \<Rightarrow> u32 \<Rightarrow> block_timestamp option \<Rightarrow>
     (account_resource_limit \<times> bool) res" where
  "account_limit_ex acc weight total_weight virtual_limit max_lim window greylist_limit current_time =
     (if sint weight < 0 \<or> total_weight = 0
      then Inr (\<lparr> used = - 1, available = - 1, max_use = - 1,
                  last_usage_update_time = Block_Timestamp (last_ordinal acc), current_used = - 1 \<rparr>, False)
      else
        let window_size = ucast window :: u128;
            greylisted_virtual_limit = max_lim * ucast greylist_limit;
            greylisted = greylist_limit < maximum_elastic_resource_multiplier
                         \<and> greylisted_virtual_limit < virtual_limit;
            virtual_capacity_in_window =
              window_size * ucast (if greylisted then greylisted_virtual_limit else virtual_limit);
            user_weight = scast weight :: u128;
            all_user_weight = ucast total_weight :: u128;
            max_user_use = (virtual_capacity_in_window * user_weight) div all_user_weight;
            used_in = integer_divide_ceil (ucast (value_ex acc) * window_size) (ucast rate_limiting_precision)
        in
        rbind (if max_user_use \<le> used_in then Inr 0 else downgrade_cast_i64 (max_user_use - used_in)) (\<lambda>avail.
        rbind (downgrade_cast_i64 used_in) (\<lambda>us.
        rbind (downgrade_cast_i64 max_user_use) (\<lambda>mx.
        rbind (case current_time of
                 None \<Rightarrow> Inr us
               | Some t \<Rightarrow>
                   if slot t > last_ordinal acc then
                     rbind (ema_add 0 (slot t) window acc) (\<lambda>history_usage.
                     downgrade_cast_i64 (integer_divide_ceil (ucast (value_ex history_usage) * window_size)
                                           (ucast rate_limiting_precision)))
                   else Inr us) (\<lambda>cur.
        Inr (\<lparr> used = us, available = avail, max_use = mx,
               last_usage_update_time = Block_Timestamp (last_ordinal acc), current_used = cur \<rparr>, greylisted))))))"

definition get_account_cpu_limit_ex ::
    "name \<Rightarrow> u32 \<Rightarrow> block_timestamp option \<Rightarrow> resource_limits_manager \<Rightarrow> (account_resource_limit \<times> bool) res" where
  "get_account_cpu_limit_ex account greylist_limit current_time m =
     rbind (db_get (usages m) account) (\<lambda>usage.
     rbind (get_account_limits m account) (\<lambda>(x, y, weight).
     account_limit_ex (cpu_usage usage) weight (total_cpu_weight (rl_state m)) (virtual_cpu_limit (rl_state m))
       (max_limit (cpu_limit_parameters (rl_config m))) (account_cpu_usage_average_window (rl_config m))
       greylist_limit current_time))"

definition get_account_net_limit_ex ::
    "name \<Rightarrow> u32 \<Rightarrow> block_timestamp option \<Rightarrow> resource_limits_manager \<Rightarrow> (account_resource_limit \<times> bool) res" where
  "get_account_net_limit_ex account greylist_limit current_time m =
     rbind (db_get (usages m) account) (\<lambda>usage.
     rbind (get_account_limits m account) (\<lambda>(x, weight, y).
     account_limit_ex (net_usage usage) weight (total_net_weight (rl_state m)) (virtual_net_limit (rl_state m))
       (max_limit (net_limit_parameters (rl_config m))) (account_net_usage_average_window (rl_config m))
       greylist_limit current_time))"

definition get_account_cpu_limit :: "name \<Rightarrow> u32 \<Rightarrow> resource_limits_manager \<Rightarrow> (i64 \<times> bool) res" where
  "get_account_cpu_limit account greylist_limit m =
     rbind (get_account_cpu_limit_ex account greylist_limit None m) (\<lambda>(arl, greylisted).
     Inr (available arl, greylisted))"

definition get_account_net_limit :: "name \<Rightarrow> u32 \<Rightarrow> resource_limits_manager \<Rightarrow> (i64 \<times> bool) res" where
  "get_account_net_limit account greylist_limit m =
     rbind (get_account_net_limit_ex account greylist_limit None m) (\<lambda>(arl, greylisted).
     Inr (available arl, greylisted))"

text \<open>The states that the operations reach from a fresh database.\<close>

inductive rl_reachable :: "resource_limits_manager \<Rightarrow> bool" where
  rl_init: "rl_reachable initialize_database"
| rl_new_account: "rl_reachable m \<Longrightarrow> initialize_account a m = Inr m' \<Longrightarrow> rl_reachable m'"
| rl_set_parameters: "rl_reachable m \<Longrightarrow> set_block_parameters c n m = Inr m' \<Longrightarrow> rl_reachable m'"
| rl_update_usage: "rl_reachable m \<Longrightarrow> update_account_usage as t m = Inr m' \<Longrightarrow> rl_reachable m'"
| rl_add_usage: "rl_reachable m \<Longrightarrow> add_transaction_usage as c n t m = Inr m' \<Longrightarrow> rl_reachable m'"
| rl_add_ram: "rl_reachable m \<Longrightarrow> add_pending_ram_usage a d m = Inr m' \<Longrightarrow> rl_reachable m'"
| rl_set_limits: "rl_reachable m \<Longrightarrow> set_account_limits a r n c m = Inr (b, m') \<Longrightarrow> rl_reachable m'"
| rl_process_limits: "rl_reachable m \<Longrightarrow> process_account_limit_updates m = Inr m' \<Longrightarrow> rl_reachable m'"
| rl_process_block: "rl_reachable m \<Longrightarrow> process_block_usage n m = Inr m' \<Longrightarrow> rl_reachable m'"


end
