(* ===== verification/Resource_Limits_Facts.thy ===== *)
theory Resource_Limits_Facts
  imports Resource_Limits
begin

text \<open>
  What the resource limits manager guarantees: the chain-wide totals are the sums over the
  accounts in every reachable state, applying pending limits cannot fail by underflow, charged
  accounts stay within their shares, reported headroom is honoured, and block accounting keeps
  the averages and elastic limits in their ranges.
\<close>

section \<open>The invariant of the limits\<close>

text \<open>A weight counts towards the totals when it is positive.\<close>

definition positive_weight :: "i64 \<Rightarrow> nat" where
  "positive_weight x = (if is_positive x then unat x else 0)"

definition actual_total :: "(resource_limits_object \<Rightarrow> i64) \<Rightarrow> resource_limits_index \<Rightarrow> nat" where
  "actual_total f = db.total (\<lambda>k rlo. if fst k then 0 else positive_weight (f rlo))"

definition pending_total :: "(resource_limits_object \<Rightarrow> i64) \<Rightarrow> resource_limits_index \<Rightarrow> nat" where
  "pending_total f = db.total (\<lambda>k rlo. if fst k then positive_weight (f rlo) else 0)"

definition index_inv :: "resource_limits_index \<Rightarrow> bool" where
  "index_inv idx \<longleftrightarrow>
     (\<forall>p a rlo. db_find idx (p, a) = Some rlo \<longrightarrow> rlo_pending rlo = p \<and> rlo_owner rlo = a) \<and>
     (\<forall>a. db_find idx (True, a) \<noteq> None \<longrightarrow> db_find idx (False, a) \<noteq> None)"

definition totals_inv :: "resource_limits_index \<Rightarrow> resource_limits_state_object \<Rightarrow> bool" where
  "totals_inv idx rso \<longleftrightarrow>
     unat (total_ram_bytes rso) = actual_total ram_bytes idx \<and>
     unat (total_cpu_weight rso) = actual_total cpu_weight idx \<and>
     unat (total_net_weight rso) = actual_total net_weight idx"

lemma index_invD:
  assumes "index_inv idx" "db_find idx (p, a) = Some rlo"
  shows "rlo_pending rlo = p" "rlo_owner rlo = a"
  using assms by (auto simp: index_inv_def)

lemma index_inv_actual:
  assumes "index_inv idx" "db_find idx (True, a) = Some rlo"
  obtains act where "db_find idx (False, a) = Some act"
  using assms by (auto simp: index_inv_def)

lemma update_state_and_value_eq:
  assumes "positive_weight val \<le> unat tot"
  shows "update_state_and_value tot val new =
    (if unat tot - positive_weight val + positive_weight new < 2 ^ 64
     then Inr (of_nat (unat tot - positive_weight val + positive_weight new))
     else Inl Rate_Limiting_State_Inconsistent)"
proof -
  define t where "t = (if is_positive val then tot - val else tot)"
  have t: "unat t = unat tot - positive_weight val"
    using assms by (auto simp: t_def positive_weight_def unat_minus_le word_le_nat_alt)
  have "update_state_and_value tot val new =
      (if is_positive new then rbind (eos_assert (- 1 - t \<ge> new) Rate_Limiting_State_Inconsistent) (\<lambda>_. Inr (t + new))
       else Inr t)"
    using assms by (simp add: update_state_and_value_def t_def positive_weight_def word_le_nat_alt split: if_splits)
  also have "\<dots> = (if unat t + positive_weight new < 2 ^ 64 then Inr (of_nat (unat t + positive_weight new))
      else Inl Rate_Limiting_State_Inconsistent)"
    using unat_lt_64 [of t] by (simp add: positive_weight_def add_fits_iff eos_assert_def)
  finally show ?thesis by (simp only: t)
qed

lemma update_state_and_value_Inr:
  assumes "positive_weight val \<le> unat tot" "update_state_and_value tot val new = Inr t"
  shows "unat t + positive_weight val = unat tot + positive_weight new"
proof -
  define x where "x = unat tot - positive_weight val + positive_weight new"
  have "x < 2 ^ 64" "t = of_nat x"
    using assms(2) unfolding update_state_and_value_eq [OF assms(1)] x_def [symmetric]
    by (simp_all split: if_splits)
  then have "unat t = x" by (simp add: unat_of_nat_small)
  then show ?thesis using assms(1) by (simp add: x_def)
qed

lemma actual_total_member:
  "db_find idx (False, a) = Some rlo \<Longrightarrow> positive_weight (f rlo) \<le> actual_total f idx"
  unfolding actual_total_def
  using db.total_member [of idx "(False, a)" rlo "\<lambda>k rlo. if fst k then 0 else positive_weight (f rlo)"] by simp

lemma pending_total_member:
  "db_find idx (True, a) = Some rlo \<Longrightarrow> positive_weight (f rlo) \<le> pending_total f idx"
  unfolding pending_total_def
  using db.total_member [of idx "(True, a)" rlo "\<lambda>k rlo. if fst k then positive_weight (f rlo) else 0"] by simp

text \<open>Collapsing a pending entry into the actual one moves its weight between the totals.\<close>

lemma totals_collapse:
  fixes new :: resource_limits_object
  assumes pend: "db_find idx (True, a) = Some itr" and act: "db_find idx (False, a) = Some rlo"
  defines "idx' \<equiv> db_remove (db_modify idx (False, a) new) (True, a)"
  shows "actual_total f idx' + positive_weight (f rlo) = actual_total f idx + positive_weight (f new)"
    and "pending_total f idx' + positive_weight (f itr) = pending_total f idx"
proof -
  have pend': "db_find (db_modify idx (False, a) new) (True, a) = Some itr" using pend by simp
  show "actual_total f idx' + positive_weight (f rlo) = actual_total f idx + positive_weight (f new)"
    unfolding actual_total_def idx'_def
    using db.total_remove [OF pend', of "\<lambda>k rlo. if fst k then 0 else positive_weight (f rlo)"]
      db.total_modify [OF act, of "\<lambda>k rlo. if fst k then 0 else positive_weight (f rlo)" new] by simp
  show "pending_total f idx' + positive_weight (f itr) = pending_total f idx"
    unfolding pending_total_def idx'_def
    using db.total_remove [OF pend', of "\<lambda>k rlo. if fst k then positive_weight (f rlo) else 0"]
      db.total_modify [OF act, of "\<lambda>k rlo. if fst k then positive_weight (f rlo) else 0" new] by simp
qed

text \<open>One iteration, in terms of the collapsed entry.\<close>

lemma apply_pending_eq:
  assumes inv: "index_inv idx" and pend: "db_find idx (True, a) = Some itr"
    and act: "db_find idx (False, a) = Some rlo"
  shows "apply_pending (True, a) idx rso =
     rbind (update_state_and_value (total_ram_bytes rso) (ram_bytes rlo) (ram_bytes itr)) (\<lambda>ram.
     rbind (update_state_and_value (total_cpu_weight rso) (cpu_weight rlo) (cpu_weight itr)) (\<lambda>cpu.
     rbind (update_state_and_value (total_net_weight rso) (net_weight rlo) (net_weight itr)) (\<lambda>net.
     Inr (db_remove
            (db_modify idx (False, a)
               (rlo\<lparr> ram_bytes := ram_bytes itr, cpu_weight := cpu_weight itr, net_weight := net_weight itr \<rparr>)) (True, a),
          rso\<lparr> total_ram_bytes := ram, total_cpu_weight := cpu, total_net_weight := net \<rparr>))))"
  using index_invD(2) [OF inv pend] by (simp add: apply_pending_def pend act)

lemma pending_key_find:
  assumes "k |\<in>| pending_keys idx"
  obtains a itr where "k = (True, a)" "db_find idx (True, a) = Some itr"
  using assms by (cases k) (auto simp: pending_keys_def db_find_def fmlookup_dom_iff)

lemma pending_keys_empty_iff: "pending_keys idx = {||} \<longleftrightarrow> (\<forall>a. db_find idx (True, a) = None)"
  by (auto simp: pending_keys_def db_find_def fmlookup_dom_iff fset_eq_iff)

lemma get_account_limits_find:
  "get_account_limits m a =
     (case db_find (limits m) (True, a) of
        Some p \<Rightarrow> Inr (ram_bytes p, net_weight p, cpu_weight p)
      | None \<Rightarrow>
          (case db_find (limits m) (False, a) of
             Some rlo \<Rightarrow> Inr (ram_bytes rlo, net_weight rlo, cpu_weight rlo)
           | None \<Rightarrow> Inl Db_Key_Not_Found))"
  by (simp add: get_account_limits_def split: option.split)

text \<open>What an iteration keeps: the invariants and the limits in force for every account.\<close>

definition collapse_ok ::
    "resource_limits_index \<times> resource_limits_state_object \<Rightarrow> resource_limits_index \<times> resource_limits_state_object \<Rightarrow> bool" where
  "collapse_ok p q \<longleftrightarrow>
     (index_inv (fst p) \<and> totals_inv (fst p) (snd p) \<longrightarrow>
      index_inv (fst q) \<and> totals_inv (fst q) (snd q) \<and>
      (\<forall>m a. get_account_limits (m\<lparr> limits := fst q \<rparr>) a = get_account_limits (m\<lparr> limits := fst p \<rparr>) a))"

lemma apply_pending_ok:
  assumes k: "k |\<in>| pending_keys idx" and step: "apply_pending k idx rso = Inr q"
  shows "collapse_ok (idx, rso) q"
  unfolding collapse_ok_def fst_conv snd_conv
proof (rule impI, elim conjE)
  assume inv: "index_inv idx" and tot: "totals_inv idx rso"
  obtain a itr where ka: "k = (True, a)" and pend: "db_find idx (True, a) = Some itr"
    using k by (rule pending_key_find)
  obtain rlo where act: "db_find idx (False, a) = Some rlo"
    using index_inv_actual [OF inv pend] .
  define new where "new = rlo\<lparr> ram_bytes := ram_bytes itr, cpu_weight := cpu_weight itr, net_weight := net_weight itr \<rparr>"
  from step obtain r c n where
    r: "update_state_and_value (total_ram_bytes rso) (ram_bytes rlo) (ram_bytes itr) = Inr r" and
    c: "update_state_and_value (total_cpu_weight rso) (cpu_weight rlo) (cpu_weight itr) = Inr c" and
    n: "update_state_and_value (total_net_weight rso) (net_weight rlo) (net_weight itr) = Inr n" and
    q: "q = (db_remove (db_modify idx (False, a) new) (True, a),
             rso\<lparr> total_ram_bytes := r, total_cpu_weight := c, total_net_weight := n \<rparr>)"
    by (auto simp: ka apply_pending_eq [OF inv pend act] new_def)
  have "index_inv (fst q)"
    using inv index_invD [OF inv act] by (auto simp: q index_inv_def new_def)
  moreover have "totals_inv (fst q) (snd q)"
    using tot update_state_and_value_Inr [OF _ r] update_state_and_value_Inr [OF _ c]
      update_state_and_value_Inr [OF _ n] actual_total_member [OF act]
      totals_collapse(1) [OF pend act, of ram_bytes new] totals_collapse(1) [OF pend act, of cpu_weight new]
      totals_collapse(1) [OF pend act, of net_weight new]
    by (simp add: totals_inv_def q new_def) 
  moreover have "get_account_limits (m\<lparr> limits := fst q \<rparr>) b = get_account_limits (m\<lparr> limits := idx \<rparr>) b" for m b
    using pend act by (cases "b = a") (simp_all add: get_account_limits_find q new_def cong: option.case_cong)
  ultimately show "index_inv (fst q) \<and> totals_inv (fst q) (snd q) \<and>
      (\<forall>m a. get_account_limits (m\<lparr> limits := fst q \<rparr>) a = get_account_limits (m\<lparr> limits := idx \<rparr>) a)"
    by blast
qed

lemma collapse_ok_trans: "collapse_ok p q \<Longrightarrow> collapse_ok q r \<Longrightarrow> collapse_ok p r"
  by (simp add: collapse_ok_def)

declare process_pending.simps [simp del]

lemma process_pending_ok:
  "process_pending p = Inr q \<Longrightarrow> collapse_ok p q \<and> pending_keys (fst q) = {||}"
proof (induction p rule: process_pending.induct)
  case (1 idx rso)
  show ?case
  proof (cases "next_pending idx")
    case None
    then have "q = (idx, rso)" using "1.prems" by (simp add: process_pending.simps)
    then show ?thesis using None by (simp add: next_pending_None collapse_ok_def)
  next
    case (Some k)
    then obtain r where r: "apply_pending k idx rso = Inr r" "process_pending r = Inr q"
      using "1.prems" by (auto simp: process_pending.simps)
    then show ?thesis
      using "1.IH" [OF Some r] apply_pending_ok [OF next_pending_Some [OF Some] r(1)] collapse_ok_trans by blast
  qed
qed

text \<open>
  While the current and the pending weights together fit 64 bits no check of the loop fires:
  an iteration succeeds and keeps the bound.
\<close>

definition totals_fit :: "resource_limits_index \<Rightarrow> bool" where
  "totals_fit idx \<longleftrightarrow>
     actual_total ram_bytes idx + pending_total ram_bytes idx < 2 ^ 64 \<and>
     actual_total cpu_weight idx + pending_total cpu_weight idx < 2 ^ 64 \<and>
     actual_total net_weight idx + pending_total net_weight idx < 2 ^ 64"

lemma update_fits:
  assumes act: "db_find idx (False, a) = Some rlo" and pend: "db_find idx (True, a) = Some itr"
    and "unat tot = actual_total f idx" and "actual_total f idx + pending_total f idx < 2 ^ 64"
  shows "\<exists>t. update_state_and_value tot (f rlo) (f itr) = Inr t"
  using assms(3,4) actual_total_member [OF act, of f] pending_total_member [OF pend, of f]
  by (subst update_state_and_value_eq) simp_all

lemma apply_pending_total:
  assumes k: "k |\<in>| pending_keys idx"
    and inv: "index_inv idx" and tot: "totals_inv idx rso" and fit: "totals_fit idx"
  shows "\<exists>q. apply_pending k idx rso = Inr q \<and> totals_fit (fst q)"
proof -
  obtain a itr where ka: "k = (True, a)" and pend: "db_find idx (True, a) = Some itr"
    using k by (rule pending_key_find)
  obtain rlo where act: "db_find idx (False, a) = Some rlo"
    using index_inv_actual [OF inv pend] .
  define new where "new = rlo\<lparr> ram_bytes := ram_bytes itr, cpu_weight := cpu_weight itr, net_weight := net_weight itr \<rparr>"
  obtain r c n where
    "update_state_and_value (total_ram_bytes rso) (ram_bytes rlo) (ram_bytes itr) = Inr r"
    "update_state_and_value (total_cpu_weight rso) (cpu_weight rlo) (cpu_weight itr) = Inr c"
    "update_state_and_value (total_net_weight rso) (net_weight rlo) (net_weight itr) = Inr n"
    using update_fits [OF act pend] tot fit unfolding totals_inv_def totals_fit_def by metis
  moreover have "totals_fit (db_remove (db_modify idx (False, a) new) (True, a))"
    using fit totals_collapse [OF pend act, of ram_bytes new] totals_collapse [OF pend act, of cpu_weight new]
      totals_collapse [OF pend act, of net_weight new]
    by (simp add: totals_fit_def new_def)
  ultimately show ?thesis
    by (simp add: ka apply_pending_eq [OF inv pend act] new_def)
qed

lemma process_pending_total:
  "index_inv (fst p) \<Longrightarrow> totals_inv (fst p) (snd p) \<Longrightarrow> totals_fit (fst p) \<Longrightarrow> \<exists>q. process_pending p = Inr q"
proof (induction p rule: process_pending.induct)
  case (1 idx rso)
  show ?case
  proof (cases "next_pending idx")
    case None
    then show ?thesis by (simp add: process_pending.simps)
  next
    case (Some k)
    note k = next_pending_Some [OF Some]
    obtain r where r: "apply_pending k idx rso = Inr r" "totals_fit (fst r)"
      using apply_pending_total [OF k, of rso] "1.prems" by fastforce
    then have "index_inv (fst r)" "totals_inv (fst r) (snd r)"
      using apply_pending_ok [OF k r(1)] "1.prems" by (auto simp: collapse_ok_def)
    then show ?thesis
      using "1.IH" [OF Some r(1)] r Some by (simp add: process_pending.simps)
  qed
qed

section \<open>Every operation keeps the invariant\<close>

definition rl_inv :: "resource_limits_manager \<Rightarrow> bool" where
  "rl_inv m \<longleftrightarrow> index_inv (limits m) \<and> totals_inv (limits m) (rl_state m)"

definition same_limits :: "resource_limits_manager \<Rightarrow> resource_limits_manager \<Rightarrow> bool" where
  "same_limits m m' \<longleftrightarrow> limits m' = limits m \<and>
     total_ram_bytes (rl_state m') = total_ram_bytes (rl_state m) \<and>
     total_cpu_weight (rl_state m') = total_cpu_weight (rl_state m) \<and>
     total_net_weight (rl_state m') = total_net_weight (rl_state m)"

lemma same_limits_inv: "same_limits m m' \<Longrightarrow> rl_inv m \<Longrightarrow> rl_inv m'"
  by (simp add: same_limits_def rl_inv_def totals_inv_def)

lemma charge_account_frame:
  "charge_account c n t a m = Inr m' \<Longrightarrow> limits m' = limits m \<and> rl_state m' = rl_state m \<and> rl_config m' = rl_config m"
  by (auto simp: charge_account_def Let_def split: prod.splits)

lemma charge_accounts_frame:
  "rfold (charge_account c n t) as m = Inr m' \<Longrightarrow>
   limits m' = limits m \<and> rl_state m' = rl_state m \<and> rl_config m' = rl_config m"
  by (rule rfold_invariant [where P = "\<lambda>x. limits x = limits m \<and> rl_state x = rl_state m \<and> rl_config x = rl_config m"])
    (auto dest: charge_account_frame)

lemma add_transaction_usage_frame: "add_transaction_usage as c n t m = Inr m' \<Longrightarrow> same_limits m m'"
  by (auto simp: add_transaction_usage_def Let_def same_limits_def dest!: charge_accounts_frame)

lemma update_account_usage_frame: "update_account_usage as t m = Inr m' \<Longrightarrow> same_limits m m'"
  unfolding update_account_usage_def
  by (rule rfold_invariant [where P = "same_limits m"]) (auto simp: same_limits_def)

lemma add_pending_ram_usage_frame: "add_pending_ram_usage a d m = Inr m' \<Longrightarrow> same_limits m m'"
  by (auto simp: add_pending_ram_usage_def same_limits_def split: if_splits)

lemma set_block_parameters_frame: "set_block_parameters c n m = Inr m' \<Longrightarrow> same_limits m m'"
  by (auto simp: set_block_parameters_def same_limits_def split: if_splits)

lemma process_block_usage_frame: "process_block_usage n m = Inr m' \<Longrightarrow> same_limits m m'"
  by (auto simp: process_block_usage_def update_virtual_cpu_limit_def update_virtual_net_limit_def Let_def same_limits_def)

lemma rl_inv_init: "rl_inv initialize_database"
proof -
  have "actual_total f fmempty = 0" for f
    by (simp add: actual_total_def db.total_def db_find_def)
  then show ?thesis
    by (simp add: rl_inv_def initialize_database_def index_inv_def totals_inv_def db_find_def)
qed

lemma positive_weight_minus_1 [simp]: "positive_weight (- 1) = 0"
  by (simp add: positive_weight_def is_positive_iff unat_minus_1)

lemma actual_total_create:
  "db_find idx (False, a) = None \<Longrightarrow>
   actual_total f (db_modify idx (False, a) rlo) = actual_total f idx + positive_weight (f rlo)"
  by (simp add: actual_total_def db.total_create)

lemma actual_total_pending: "actual_total f (db_modify idx (True, a) rlo) = actual_total f idx"
proof (cases "db_find idx (True, a)")
  case None
  then show ?thesis by (simp add: actual_total_def db.total_create)
next
  case (Some p)
  then show ?thesis
    using db.total_modify [OF Some, of "\<lambda>k rlo. if fst k then 0 else positive_weight (f rlo)" rlo]
    by (simp add: actual_total_def)
qed

lemma initialize_account_inv:
  assumes "rl_inv m" "initialize_account a m = Inr m'"
  shows "rl_inv m'"
  using assms
  by (auto simp: initialize_account_def rl_inv_def index_inv_def totals_inv_def actual_total_create split: if_splits)

lemma find_or_create_pending_limits_Inr:
  assumes inv: "index_inv idx" and ok: "find_or_create_pending_limits a idx = Inr (l, idx')"
  shows "rlo_owner l = a \<and> rlo_pending l \<and> db_find idx (False, a) \<noteq> None \<and>
    get_account_limits (m\<lparr> limits := idx \<rparr>) a = Inr (ram_bytes l, net_weight l, cpu_weight l) \<and>
    (\<forall>k. db_find idx' k = (if k = (True, a) then Some l else db_find idx k)) \<and>
    actual_total f idx' = actual_total f idx"
proof (cases "db_find idx (True, a)")
  case None
  with ok obtain rlo where rlo: "db_find idx (False, a) = Some rlo"
    and l: "l = rlo\<lparr> rlo_pending := True \<rparr>" and idx': "idx' = db_modify idx (True, rlo_owner rlo) l"
    by (auto simp: find_or_create_pending_limits_def Let_def)
  then show ?thesis
    using None index_invD [OF inv rlo]
    by (auto simp: get_account_limits_find actual_total_pending)
next
  case (Some p)
  with ok have "l = p" "idx' = idx" by (auto simp: find_or_create_pending_limits_def)
  then show ?thesis
    using Some inv index_invD [OF inv Some] by (auto simp: get_account_limits_find index_inv_def)
qed

lemma set_account_limits_inv:
  assumes inv: "rl_inv m" and ok: "set_account_limits a r n c m = Inr (b, m')"
  shows "rl_inv m'"
proof -
  obtain l idx where f: "find_or_create_pending_limits a (limits m) = Inr (l, idx)"
    and m': "m' = m\<lparr> limits := db_modify idx (True, rlo_owner l)
        (l\<lparr> ram_bytes := r, net_weight := n, cpu_weight := c \<rparr>) \<rparr>"
    using ok by (auto simp: set_account_limits_def Let_def)
  from inv have "index_inv (limits m)" by (simp add: rl_inv_def)
  note F = find_or_create_pending_limits_Inr [OF this f]
  have "index_inv (limits m')"
    using inv F by (auto simp: rl_inv_def index_inv_def m')
  moreover have "actual_total g (limits m') = actual_total g (limits m)" for g
    using F by (simp add: m' actual_total_pending)
  ultimately show ?thesis
    using inv by (simp add: rl_inv_def totals_inv_def m')
qed

lemma process_account_limit_updates_inv:
  assumes "rl_inv m" "process_account_limit_updates m = Inr m'"
  shows "rl_inv m'"
proof -
  obtain q where q: "process_pending (limits m, rl_state m) = Inr q"
    and m': "m' = m\<lparr> limits := fst q, rl_state := snd q \<rparr>"
    using assms(2) by (auto simp: process_account_limit_updates_def)
  from process_pending_ok [OF q] assms(1) show ?thesis
    by (simp add: collapse_ok_def rl_inv_def m')
qed

lemma rl_reachable_inv: "rl_reachable m \<Longrightarrow> rl_inv m"
proof (induction rule: rl_reachable.induct)
  case rl_init
  show ?case by (rule rl_inv_init)
next
  case (rl_new_account m a m')
  then show ?case by (blast intro: initialize_account_inv)
next
  case (rl_set_parameters m c n m')
  then show ?case by (blast intro: same_limits_inv set_block_parameters_frame)
next
  case (rl_update_usage m as t m')
  then show ?case by (blast intro: same_limits_inv update_account_usage_frame)
next
  case (rl_add_usage m as c n t m')
  then show ?case by (blast intro: same_limits_inv add_transaction_usage_frame)
next
  case (rl_add_ram m a d m')
  then show ?case by (blast intro: same_limits_inv add_pending_ram_usage_frame)
next
  case (rl_set_limits m a r n c b m')
  then show ?case by (blast intro: set_account_limits_inv)
next
  case (rl_process_limits m m')
  then show ?case by (blast intro: process_account_limit_updates_inv)
next
  case (rl_process_block m n m')
  then show ?case by (blast intro: same_limits_inv process_block_usage_frame)
qed

section \<open>Window arithmetic\<close>

lemma get_account_limits_cong: "limits m' = limits m \<Longrightarrow> get_account_limits m' a = get_account_limits m a"
  by (simp only: get_account_limits_def)

lemma unat_window_product: "unat (ucast (v :: u64) * ucast (w :: u32) :: u128) = unat v * unat w"
proof -
  have "unat v * unat w \<le> 18446744073709551616 * 4294967296"
    using unat_lt_64 [of v] unat_lt_32 [of w] by (intro mult_le_mono) simp_all
  then show ?thesis by (subst unat_mult_small) simp_all
qed

lemma unat_used_in_window: "unat (used_in_window v w) = unat v * unat w div 1000000"
  by (simp add: used_in_window_def unat_div unat_window_product)

lemma unat_used_in_window_ceil:
  "unat (integer_divide_ceil (ucast v * ucast w) (ucast rate_limiting_precision) :: u128) =
   div_ceil (unat (v :: u64) * unat (w :: u32)) 1000000"
proof -
  have "unat (ucast rate_limiting_precision :: u128) \<noteq> 0" by simp
  then have "(ucast rate_limiting_precision :: u128) \<noteq> 0" by (metis unsigned_0)
  then show ?thesis by (simp add: unat_integer_divide_ceil unat_window_product)
qed

lemma unat_scast_weight: "is_nonneg x \<Longrightarrow> unat (scast x :: u128) = unat x"
proof -
  assume x: "is_nonneg x"
  have "(scast x :: u128) = of_int (sint x)" by (rule scast_eq)
  also have "\<dots> = of_nat (unat x)" using x by (simp only: sint_nonneg_unat of_int_of_nat_eq)
  finally have "(scast x :: u128) = of_nat (unat x)" .
  moreover have "unat (of_nat (unat x) :: u128) = unat x"
    using unat_lt_64 [of x] by (intro unat_of_nat_small) simp
  ultimately show ?thesis by metis
qed

text \<open>The share of an account in the virtual capacity of its window, without wrap-around.\<close>

definition window_share :: "u64 \<Rightarrow> u32 \<Rightarrow> i64 \<Rightarrow> u64 \<Rightarrow> nat" where
  "window_share virtual_limit window weight total_weight =
     unat virtual_limit * unat window * unat weight div unat total_weight"

lemma unat_max_user_use:
  assumes "is_nonneg weight" "unat vl * unat w * 2 ^ 63 < 2 ^ 128"
  shows "unat (max_user_use_in_window vl w weight tot) = window_share vl w weight tot"
proof -
  have "unat weight \<le> 2 ^ 63" using assms(1) by (simp add: is_nonneg_iff)
  then have "unat vl * unat w * unat weight \<le> unat vl * unat w * 2 ^ 63" by (rule mult_le_mono2)
  then have "unat vl * unat w * unat weight < 2 ^ 128" using assms(2) by (rule le_less_trans)
  then have "unat (ucast vl * ucast w * scast weight :: u128) = unat vl * unat w * unat weight"
    using assms(1) by (subst unat_mult_small) (simp_all add: unat_window_product unat_scast_weight)
  then show ?thesis
    by (simp add: max_user_use_in_window_def Let_def unat_div window_share_def)
qed

text \<open>What a successful charge leaves behind for the account.\<close>

definition within_share :: "resource_limits_manager \<Rightarrow> name \<Rightarrow> bool" where
  "within_share m a \<longleftrightarrow>
     (\<exists>u r n c. db_find (usages m) a = Some u \<and> get_account_limits m a = Inr (r, n, c) \<and>
        (is_nonneg c \<and> total_cpu_weight (rl_state m) > 0 \<longrightarrow>
           unat (value_ex (cpu_usage u)) * unat (account_cpu_usage_average_window (rl_config m)) div 1000000
           \<le> window_share (virtual_cpu_limit (rl_state m)) (account_cpu_usage_average_window (rl_config m)) c
                (total_cpu_weight (rl_state m))) \<and>
        (is_nonneg n \<and> total_net_weight (rl_state m) > 0 \<longrightarrow>
           unat (value_ex (net_usage u)) * unat (account_net_usage_average_window (rl_config m)) div 1000000
           \<le> window_share (virtual_net_limit (rl_state m)) (account_net_usage_average_window (rl_config m)) n
                (total_net_weight (rl_state m))))"

definition capacity_fits :: "resource_limits_manager \<Rightarrow> bool" where
  "capacity_fits m \<longleftrightarrow>
     unat (virtual_cpu_limit (rl_state m)) * unat (account_cpu_usage_average_window (rl_config m)) * 2 ^ 63 < 2 ^ 128 \<and>
     unat (virtual_net_limit (rl_state m)) * unat (account_net_usage_average_window (rl_config m)) * 2 ^ 63 < 2 ^ 128"

lemma charge_account_within:
  assumes fits: "capacity_fits m" and ok: "charge_account c n t a m = Inr m'"
  shows "within_share m' a"
    and "b \<noteq> a \<Longrightarrow> db_find (usages m') b = db_find (usages m) b"
proof -
  define cw nw where "cw = account_cpu_usage_average_window (rl_config m)"
    and "nw = account_net_usage_average_window (rl_config m)"
  obtain u r nl cl nu cu where u: "db_find (usages m) a = Some u" and
    l: "get_account_limits m a = Inr (r, nl, cl)" and
    m': "m' = m\<lparr> usages := db_modify (usages m) a (u\<lparr> net_usage := nu, cpu_usage := cu \<rparr>) \<rparr>" and
    cpu: "is_nonneg cl \<and> total_cpu_weight (rl_state m) > 0 \<Longrightarrow>
      used_in_window (value_ex cu) cw \<le> max_user_use_in_window (virtual_cpu_limit (rl_state m)) cw cl (total_cpu_weight (rl_state m))" and
    net: "is_nonneg nl \<and> total_net_weight (rl_state m) > 0 \<Longrightarrow>
      used_in_window (value_ex nu) nw \<le> max_user_use_in_window (virtual_net_limit (rl_state m)) nw nl (total_net_weight (rl_state m))"
    using ok unfolding cw_def nw_def by (auto simp: charge_account_def Let_def split: if_splits)
  have "get_account_limits m' a = Inr (r, nl, cl)"
    using l get_account_limits_cong [of m' m a] by (simp add: m')
  then show "within_share m' a"
    using cpu net fits unfolding within_share_def
    by (auto simp: m' word_le_nat_alt unat_used_in_window unat_max_user_use capacity_fits_def cw_def nw_def)
  show "b \<noteq> a \<Longrightarrow> db_find (usages m') b = db_find (usages m) b" by (simp add: m')
qed

lemma charge_accounts_within:
  assumes "capacity_fits m" "distinct as" "rfold (charge_account c n t) as m = Inr m'"
  shows "(\<forall>a \<in> set as. within_share m' a) \<and> (\<forall>b. b \<notin> set as \<longrightarrow> db_find (usages m') b = db_find (usages m) b)"
  using assms
proof (induction as arbitrary: m)
  case (Cons a as)
  then obtain m1 where m1: "charge_account c n t a m = Inr m1" "rfold (charge_account c n t) as m1 = Inr m'"
    by auto
  note f1 = charge_account_frame [OF m1(1)] and f2 = charge_accounts_frame [OF m1(2)]
  have fits: "capacity_fits m1" using Cons.prems(1) f1 by (simp add: capacity_fits_def)
  note IH = Cons.IH [OF fits _ m1(2)]
  have "within_share m' a"
    using charge_account_within(1) [OF Cons.prems(1) m1(1)] IH Cons.prems(2) f1 f2
      get_account_limits_cong [of m' m1 a]
    by (simp add: within_share_def)
  then show ?case
    using IH charge_account_within(2) [OF Cons.prems(1) m1(1)] Cons.prems(2) by auto
qed simp

section \<open>Properties\<close>

text \<open>A manager with one account whose limits are pending, used to exercise the properties.\<close>

definition sample_limits :: "bool \<Rightarrow> i64 \<Rightarrow> i64 \<Rightarrow> i64 \<Rightarrow> resource_limits_object" where
  "sample_limits p r n c =
     \<lparr> rlo_owner = Name 5, rlo_pending = p, net_weight = n, cpu_weight = c, ram_bytes = r \<rparr>"

definition sample_usage :: resource_usage_object where
  "sample_usage = \<lparr> ruo_owner = Name 5, net_usage = usage_accumulator_init, cpu_usage = usage_accumulator_init,
     ram_usage = 0 \<rparr>"

definition sample_manager :: resource_limits_manager where
  "sample_manager = initialize_database\<lparr>
     limits := fmupd (True, Name 5) (sample_limits True 4000 7 9)
       (fmupd (False, Name 5) (sample_limits False (- 1) (- 1) (- 1)) fmempty),
     usages := fmupd (Name 5) sample_usage fmempty \<rparr>"

lemma sample_reachable: "rl_reachable sample_manager"
proof -
  define m1 where "m1 = initialize_database\<lparr>
     limits := fmupd (False, Name 5) (sample_limits False (- 1) (- 1) (- 1)) fmempty,
     usages := fmupd (Name 5) sample_usage fmempty \<rparr>"
  have "initialize_account (Name 5) initialize_database = Inr m1"
    by (simp add: initialize_account_def initialize_database_def m1_def sample_limits_def sample_usage_def db_find_def db_modify_def)
  then have m1: "rl_reachable m1" by (rule rl_new_account [OF rl_init])
  have "set_account_limits (Name 5) 4000 7 9 m1 = Inr (True, sample_manager)"
    by (simp add: set_account_limits_def find_or_create_pending_limits_def m1_def sample_manager_def
      sample_limits_def db_find_def db_modify_def db_get_def db_create_def Let_def is_nonneg_def)
  then show ?thesis by (rule rl_set_limits [OF m1])
qed

text \<open>C30: in every state that the operations reach from a fresh database, the chain-wide totals are
  exactly the sums of the positive limits in force at the last boundary: no total ever wraps.\<close>

theorem rl_totals_consistent:
  assumes "rl_reachable m"
  shows "unat (get_total_cpu_weight m) = actual_total cpu_weight (limits m) \<and>
    unat (get_total_net_weight m) = actual_total net_weight (limits m) \<and>
    unat (total_ram_bytes (rl_state m)) = actual_total ram_bytes (limits m)"
  using rl_reachable_inv [OF assms]
  by (simp add: rl_inv_def totals_inv_def get_total_cpu_weight_def get_total_net_weight_def)

theorem rl_totals_consistent_witness:
  "rl_reachable sample_manager \<and>
   unat (get_total_cpu_weight sample_manager) = actual_total cpu_weight (limits sample_manager)"
  using rl_totals_consistent [OF sample_reachable] sample_reachable by simp

text \<open>C28: in every reachable state in which the current and the pending limits together fit 64 bits,
  applying the pending limits succeeds (its underflow check never fires), leaves nothing pending,
  and leaves the limits in force of every account unchanged.\<close>

theorem process_account_limit_updates_total:
  assumes "rl_reachable m" and "totals_fit (limits m)"
  shows "\<exists>m'. process_account_limit_updates m = Inr m' \<and>
    (\<forall>a. db_find (limits m') (True, a) = None) \<and>
    (\<forall>a. get_account_limits m' a = get_account_limits m a)"
proof -
  have inv: "index_inv (limits m)" "totals_inv (limits m) (rl_state m)"
    using rl_reachable_inv [OF assms(1)] by (simp_all add: rl_inv_def)
  obtain q where q: "process_pending (limits m, rl_state m) = Inr q"
    using process_pending_total [of "(limits m, rl_state m)"] inv assms(2) by auto
  note ok = process_pending_ok [OF q]
  have "get_account_limits (m\<lparr> limits := fst q, rl_state := snd q \<rparr>) a = get_account_limits (m\<lparr> limits := fst q \<rparr>) a" for a
    by (rule get_account_limits_cong) simp
  then show ?thesis
    using ok inv by (simp add: process_account_limit_updates_def q case_prod_unfold collapse_ok_def pending_keys_empty_iff)
qed

theorem process_account_limit_updates_total_witness:
  "\<exists>m m'. rl_reachable m \<and> process_account_limit_updates m = Inr m' \<and>
    db_find (limits m') (True, Name 5) = None \<and> get_account_limits m' (Name 5) = Inr (4000, 7, 9)"
proof -
  have keys: "{k. db_find (limits sample_manager) k \<noteq> None} = {(True, Name 5), (False, Name 5)}"
    by (auto simp: sample_manager_def db_find_def split: if_splits)
  have total: "db.total g (limits sample_manager) =
      g (True, Name 5) (sample_limits True 4000 7 9) + g (False, Name 5) (sample_limits False (- 1) (- 1) (- 1))" for g
    unfolding db.total_def keys by (simp add: sample_manager_def db_find_def)
  have "totals_fit (limits sample_manager)"
    by (simp add: totals_fit_def actual_total_def pending_total_def total)
      (simp add: sample_limits_def positive_weight_def is_positive_def)
  moreover have "get_account_limits sample_manager (Name 5) = Inr (4000, 7, 9)"
    by (simp add: get_account_limits_find sample_manager_def db_find_def sample_limits_def)
  ultimately show ?thesis
    using process_account_limit_updates_total [OF sample_reachable] sample_reachable by metis
qed

text \<open>C35: setting limits takes effect at once for the queries of that account and of no other; it
  reports a decrease just when the new RAM limit is finite and below the one in force (or that one
  was unlimited); it fails only for an account without limits.\<close>

theorem set_account_limits_effect:
  assumes "rl_reachable m"
  shows "case set_account_limits a ram net cpu m of
      Inl e \<Rightarrow> e = Db_Key_Not_Found \<and> db_find (limits m) (False, a) = None
    | Inr (decreased, m') \<Rightarrow>
        get_account_limits m' a = Inr (ram, net, cpu) \<and>
        (\<forall>b. b \<noteq> a \<longrightarrow> get_account_limits m' b = get_account_limits m b) \<and>
        usages m' = usages m \<and> rl_state m' = rl_state m \<and>
        (\<exists>old_ram n c. get_account_limits m a = Inr (old_ram, n, c) \<and>
           (decreased \<longleftrightarrow> 0 \<le> sint ram \<and> (sint old_ram < 0 \<or> sint ram < sint old_ram)))"
proof -
  have inv: "index_inv (limits m)" using rl_reachable_inv [OF assms] by (simp add: rl_inv_def)
  show ?thesis
  proof (cases "find_or_create_pending_limits a (limits m)")
    case (Inl e)
    then have "e = Db_Key_Not_Found \<and> db_find (limits m) (False, a) = None"
      using inv index_invD(2) [OF inv]
      by (auto simp: find_or_create_pending_limits_def Let_def rbind_eq_Inl split: option.splits)
    then show ?thesis using Inl by (simp add: set_account_limits_def)
  next
    case (Inr p)
    obtain l idx where p: "p = (l, idx)" by (cases p)
    note F = find_or_create_pending_limits_Inr [OF inv Inr [unfolded p], of m]
    have "get_account_limits (m\<lparr> limits := limits m \<rparr>) a = get_account_limits m a"
      by (rule get_account_limits_cong) simp
    then show ?thesis
      using F by (simp add: set_account_limits_def Inr p Let_def is_nonneg_def)
        (auto simp: get_account_limits_find cong: option.case_cong)
  qed
qed

theorem set_account_limits_effect_witness:
  "\<exists>m'. set_account_limits (Name 5) 3000 1 2 sample_manager = Inr (True, m') \<and>
    get_account_limits m' (Name 5) = Inr (3000, 1, 2)"
proof -
  have "get_account_limits sample_manager (Name 5) = Inr (4000, 7, 9)"
    by (simp add: get_account_limits_find sample_manager_def db_find_def sample_limits_def)
  moreover have "db_find (limits sample_manager) (False, Name 5) \<noteq> None"
    by (simp add: sample_manager_def db_find_def)
  ultimately show ?thesis
    using set_account_limits_effect [OF sample_reachable, of "Name 5" 3000 1 2]
    by (auto split: sum.splits)
qed

text \<open>C31: a transaction that is accepted leaves every account it charges within its share of the
  virtual capacity for both resources, the block within its limits, and no other account touched
  (while the capacity of a window times any weight fits 128 bits).\<close>

theorem add_transaction_usage_within:
  assumes "capacity_fits m" and "distinct accounts"
    and "add_transaction_usage accounts cpu net time_slot m = Inr m'"
  shows "(\<forall>a \<in> set accounts. within_share m' a) \<and>
    (\<forall>b. b \<notin> set accounts \<longrightarrow> db_find (usages m') b = db_find (usages m) b) \<and>
    pending_cpu_usage (rl_state m') = pending_cpu_usage (rl_state m) + cpu \<and>
    pending_net_usage (rl_state m') = pending_net_usage (rl_state m) + net \<and>
    pending_cpu_usage (rl_state m') \<le> max_limit (cpu_limit_parameters (rl_config m')) \<and>
    pending_net_usage (rl_state m') \<le> max_limit (net_limit_parameters (rl_config m'))"
proof -
  obtain m1 where m1: "rfold (charge_account cpu net time_slot) accounts m = Inr m1"
    and m': "m' = m1\<lparr> rl_state := (rl_state m1)\<lparr> pending_cpu_usage := pending_cpu_usage (rl_state m1) + cpu,
                                              pending_net_usage := pending_net_usage (rl_state m1) + net \<rparr> \<rparr>"
    and lim: "pending_cpu_usage (rl_state m1) + cpu \<le> max_limit (cpu_limit_parameters (rl_config m1))"
      "pending_net_usage (rl_state m1) + net \<le> max_limit (net_limit_parameters (rl_config m1))"
    using assms(3) by (auto simp: add_transaction_usage_def Let_def)
  have share: "within_share m' a \<longleftrightarrow> within_share m1 a" for a
    using get_account_limits_cong [of m' m1 a] by (simp add: within_share_def m')
  show ?thesis
    using charge_accounts_within [OF assms(1,2) m1] charge_accounts_frame [OF m1] lim
    by (simp add: share) (simp add: m')
qed

theorem add_transaction_usage_within_witness:
  "\<exists>m'. add_transaction_usage [Name 5] 300 80 12 sample_manager = Inr m' \<and> within_share m' (Name 5)"
proof -
  have fits: "capacity_fits sample_manager"
    by (simp add: capacity_fits_def sample_manager_def initialize_database_def default_config_def
      default_cpu_limit_parameters_def default_net_limit_parameters_def)
  obtain m' where m': "add_transaction_usage [Name 5] 300 80 12 sample_manager = Inr m'"
  proof -
    have cpu: "ema_add 300 12 172800 usage_accumulator_init = Inr \<lparr> last_ordinal = 12, value_ex = 1737, consumed = 300 \<rparr>"
      and net: "ema_add 80 12 172800 usage_accumulator_init = Inr \<lparr> last_ordinal = 12, value_ex = 463, consumed = 80 \<rparr>"
      by code_simp+
    show ?thesis
      by (rule that)
        (simp add: add_transaction_usage_def charge_account_def get_account_limits_find db_get_def db_find_def
          db_modify_def sample_manager_def initialize_database_def default_config_def sample_usage_def
          default_cpu_limit_parameters_def default_net_limit_parameters_def cpu net Let_def sample_limits_def)
  qed
  then show ?thesis
    using add_transaction_usage_within [OF fits _ m'] by auto
qed

lemma div_ceil_mult_less: "0 < b \<Longrightarrow> div_ceil a b * b < a + b"
proof -
  assume b: "0 < b"
  have a: "a = a div b * b + a mod b" by simp
  show ?thesis
  proof (cases "a mod b = 0")
    case True
    then show ?thesis using a b by (simp add: div_ceil_def)
  next
    case False
    then have "div_ceil a b * b = a div b * b + b" by (simp add: div_ceil_def)
    then show ?thesis using a False by linarith
  qed
qed

lemma window_headroom:
  assumes "0 < w" "w \<le> p" "div_ceil (v * w) p + u \<le> m"
  shows "(v + div_ceil (u * p) w) * w div p \<le> m"
proof -
  have p: "0 < p" using assms by linarith
  have "v * w \<le> div_ceil (v * w) p * p" using p by (simp add: div_ceil_iff [symmetric])
  moreover have "div_ceil (u * p) w * w < u * p + w" using assms(1) by (rule div_ceil_mult_less)
  moreover have "(div_ceil (v * w) p + u) * p \<le> m * p" using assms(3) by (rule mult_le_mono1)
  ultimately have "(v + div_ceil (u * p) w) * w < m * p + p"
    using assms(2) by (simp add: add_mult_distrib)
  then have "(v + div_ceil (u * p) w) * w < Suc m * p" by simp
  then have "(v + div_ceil (u * p) w) * w div p < Suc m" by (rule less_mult_imp_div_less)
  then show ?thesis by simp
qed

lemma ema_add_errors:
  "ema_add u n w a = Inl e \<Longrightarrow>
   e = Resource_Limit_Exception \<or> e = Rate_Limiting_State_Inconsistent \<or> e = Undefined_Behaviour"
  by (auto simp: ema_add_def ema_advance_def ratio_mult_def downgrade_cast_u64_def rbind_eq_Inl Let_def
    split: if_splits)

lemma account_limit_ex_available:
  assumes ok: "account_limit_ex acc weight tot vl mx w gl None = Inr (arl, g)"
    and gl: "maximum_elastic_resource_multiplier \<le> gl" and pos: "0 < sint (available arl)"
  shows "unat (available arl) + div_ceil (unat (value_ex acc) * unat w) 1000000 =
    unat (max_user_use_in_window vl w weight tot)"
proof -
  define M where "M = max_user_use_in_window vl w weight tot"
  define U where "U = (integer_divide_ceil (ucast (value_ex acc) * ucast w) (ucast rate_limiting_precision) :: u128)"
  have cond: "\<not> (sint weight < 0 \<or> tot = 0)"
    using ok pos by (auto simp: account_limit_ex_def)
  have M: "ucast w * ucast vl * scast weight div ucast tot = M"
    by (simp add: M_def max_user_use_in_window_def Let_def mult.commute)
  have ng: "gl < maximum_elastic_resource_multiplier \<longleftrightarrow> False"
    using gl by (simp add: not_less)
  have av: "rbind (if M \<le> U then Inr 0 else downgrade_cast_i64 (M - U)) (\<lambda>avail.
      rbind (downgrade_cast_i64 U) (\<lambda>us. rbind (downgrade_cast_i64 M) (\<lambda>mx.
      Inr (\<lparr> used = us, available = avail, max_use = mx,
             last_usage_update_time = Block_Timestamp (last_ordinal acc), current_used = us \<rparr>, False)))) = Inr (arl, g)"
    using ok by (simp only: account_limit_ex_def Let_def cond ng if_False simp_thms option.case rbind_Inr
      U_def [symmetric] M)
  have less: "\<not> M \<le> U" using av pos by auto
  have small: "unat (M - U) < 2 ^ 63" "available arl = ucast (M - U)"
    using av less by (auto simp: downgrade_cast_i64_eq split: if_splits)
  then have "unat (available arl) = unat (M - U)"
    by (simp only:) (rule unat_ucast_128_64, simp)
  also have "\<dots> = unat M - unat U" using less by (intro unat_minus_le) simp
  finally have "unat (available arl) = unat M - unat U" .
  then show ?thesis
    using less unat_used_in_window_ceil [of "value_ex acc" w] by (simp add: M_def U_def word_le_nat_alt)
qed

text \<open>C29: the CPU time an account is told to have available is really accepted: when its usage is
  already brought to the current slot, a transaction that costs no more than the reported, positive
  amount is never refused for exceeding the CPU share of that account. The averaging window must be
  positive and not exceed the precision of the rate limiter, as the default of 172800 slots.\<close>

theorem available_cpu_accepted:
  assumes "db_find (usages m) a = Some u" and "last_ordinal (cpu_usage u) = time_slot"
    and "get_account_cpu_limit a greylist_limit m = Inr (avail, greylisted)"
    and "maximum_elastic_resource_multiplier \<le> greylist_limit"
    and "0 < sint avail" and "cpu \<le> avail"
    and "0 < unat (account_cpu_usage_average_window (rl_config m))"
    and "unat (account_cpu_usage_average_window (rl_config m)) \<le> 1000000"
  shows "charge_account cpu net time_slot a m \<noteq> Inl Tx_Cpu_Usage_Exceeded"
proof
  assume exceeded: "charge_account cpu net time_slot a m = Inl Tx_Cpu_Usage_Exceeded"
  define w where "w = account_cpu_usage_average_window (rl_config m)"
  have w0: "w \<noteq> 0" "account_cpu_usage_average_window (rl_config m) \<noteq> 0" using assms(7) by (auto simp: w_def)
  obtain r n weight where l: "get_account_limits m a = Inr (r, n, weight)"
    using exceeded assms(1) by (auto simp: charge_account_def Let_def rbind_eq_Inl get_account_limits_find split: option.splits)
  from exceeded obtain cu where
    cu: "ema_add cpu time_slot w (cpu_usage u) = Inr cu" and
    bad: "\<not> used_in_window (value_ex cu) w \<le> max_user_use_in_window (virtual_cpu_limit (rl_state m)) w weight (total_cpu_weight (rl_state m))"
    using assms(1) l unfolding w_def
    by (auto simp: charge_account_def Let_def rbind_eq_Inl dest: ema_add_errors split: if_splits)
  obtain arl where arl: "avail = available arl" and
    ex: "account_limit_ex (cpu_usage u) weight (total_cpu_weight (rl_state m)) (virtual_cpu_limit (rl_state m))
       (max_limit (cpu_limit_parameters (rl_config m))) w greylist_limit None = Inr (arl, greylisted)"
    using assms(3) by (auto simp: get_account_cpu_limit_def get_account_cpu_limit_ex_def assms(1) l w_def)
  define M where "M = unat (max_user_use_in_window (virtual_cpu_limit (rl_state m)) w weight (total_cpu_weight (rl_state m)))"
  have "unat avail + div_ceil (unat (value_ex (cpu_usage u)) * unat w) 1000000 = M"
    using account_limit_ex_available [OF ex assms(4)] assms(5) unfolding arl M_def by simp
  then have "div_ceil (unat (value_ex (cpu_usage u)) * unat w) 1000000 + unat cpu \<le> M"
    using assms(6) by (simp add: word_le_nat_alt)
  then have "(unat (value_ex (cpu_usage u)) + contribution cpu w) * unat w div 1000000 \<le> M"
    unfolding contribution_def using assms(7,8) by (intro window_headroom) (simp_all add: w_def)
  moreover have "unat (value_ex cu) = unat (value_ex (cpu_usage u)) + contribution cpu w"
    using cu assms(2) unfolding ema_add_Inr [OF w0(1)] by auto
  ultimately show False
    using bad by (simp add: word_le_nat_alt unat_used_in_window M_def)
qed

theorem available_cpu_accepted_witness:
  "charge_account 50000 0 0 (Name 5) (sample_manager\<lparr> rl_state := (rl_state sample_manager)\<lparr> total_cpu_weight := 9 \<rparr> \<rparr>)
   \<noteq> Inl Tx_Cpu_Usage_Exceeded"
proof -
  let ?m = "sample_manager\<lparr> rl_state := (rl_state sample_manager)\<lparr> total_cpu_weight := 9 \<rparr> \<rparr>"
  have ex: "account_limit_ex usage_accumulator_init 9 9 200000 200000 172800 1000 None =
      Inr (\<lparr> used = 0, available = 34560000000, max_use = 34560000000,
             last_usage_update_time = Block_Timestamp 0, current_used = 0 \<rparr>, False)"
    by code_simp
  have "get_account_cpu_limit (Name 5) 1000 ?m = Inr (34560000000, False)"
    by (simp add: get_account_cpu_limit_def get_account_cpu_limit_ex_def get_account_limits_find db_find_def db_get_def
      sample_manager_def initialize_database_def default_config_def default_cpu_limit_parameters_def sample_usage_def
      sample_limits_def ex)
  then show ?thesis
    by (rule available_cpu_accepted [where u = sample_usage, rotated 2])
      (simp_all add: sample_manager_def db_find_def sample_usage_def usage_accumulator_init_def initialize_database_def
        default_config_def maximum_elastic_resource_multiplier_def)
qed

text \<open>Adding a signed delta to an unsigned value.\<close>

lemma uint_add_sint:
  fixes r d :: u64
  assumes "0 \<le> uint r + sint d" "uint r + sint d < 2 ^ 64"
  shows "uint (r + d) = uint r + sint d"
proof -
  have "uint (r + d) = (uint r + uint d) mod 2 ^ 64" by (simp add: uint_word_ariths)
  also have "\<dots> = (uint r + sint d) mod 2 ^ 64"
    by (simp add: uint_sint take_bit_eq_mod mod_add_right_eq)
  finally show ?thesis using assms by simp
qed

lemma sint_eq_0: "sint d = 0 \<Longrightarrow> d = (0 :: i64)"
  using int_unat_nonneg [of d] by (simp add: uint_0_iff)

lemma delta_fits_iff:
  fixes r d :: u64
  shows "is_positive d \<Longrightarrow> - 1 - r \<ge> d \<longleftrightarrow> uint r + sint d < 18446744073709551616"
    and "sint d < 0 \<Longrightarrow> r \<ge> - d \<longleftrightarrow> 0 \<le> uint r + sint d"
proof -
  assume "is_positive d"
  then have "sint d = int (unat d)" by (intro sint_nonneg_unat) (simp add: is_positive_def is_nonneg_def)
  moreover have "uint r = int (unat r)" by simp
  moreover have "- 1 - r \<ge> d \<longleftrightarrow> unat r + unat d < 18446744073709551616" by (simp add: add_fits_iff)
  ultimately show "- 1 - r \<ge> d \<longleftrightarrow> uint r + sint d < 18446744073709551616" by linarith
next
  assume d: "sint d < 0"
  have "uint (- d) = (- uint d) mod 2 ^ 64" by (simp add: uint_word_ariths)
  also have "\<dots> = (- sint d) mod 2 ^ 64" by (simp add: uint_sint take_bit_eq_mod mod_minus_eq)
  also have "\<dots> = - sint d" using d sint_range_64 [of d] by simp
  finally show "r \<ge> - d \<longleftrightarrow> 0 \<le> uint r + sint d" by (simp add: word_le_def) linarith
qed

text \<open>RAM usage is charged exactly: a delta other than the least 64-bit value is added to the
  account's usage as an integer when the sum is representable as an unsigned 64-bit value, and
  refused otherwise; no other account changes.\<close>

theorem add_pending_ram_usage_exact:
  assumes "db_find (usages m) a = Some u" and "d \<noteq> 0x8000000000000000"
  shows "case add_pending_ram_usage a d m of
      Inl e \<Rightarrow> e = Transaction_Exception \<and>
        (uint (ram_usage u) + sint d < 0 \<or> 2 ^ 64 \<le> uint (ram_usage u) + sint d)
    | Inr m' \<Rightarrow> limits m' = limits m \<and> rl_state m' = rl_state m \<and>
        (\<exists>u'. db_find (usages m') a = Some u' \<and> uint (ram_usage u') = uint (ram_usage u) + sint d \<and>
              u' = u\<lparr> ram_usage := ram_usage u' \<rparr>) \<and>
        (\<forall>b. b \<noteq> a \<longrightarrow> db_find (usages m') b = db_find (usages m) b)"
proof -
  define r where "r = ram_usage u"
  have r: "0 \<le> uint r" "uint r < 2 ^ 64" using uint_bounded [of r] by simp_all
  consider (zero) "d = 0" | (pos) "is_positive d" "is_nonneg d" "0 < sint d" "d \<noteq> 0"
    | (neg) "\<not> is_positive d" "\<not> is_nonneg d" "sint d < 0" "d \<noteq> 0"
    by (cases "sint d" "0 :: int" rule: linorder_cases) (auto simp: is_positive_def is_nonneg_def dest: sint_eq_0)
  then show ?thesis
  proof cases
    case zero
    then show ?thesis using assms(1) by (simp add: add_pending_ram_usage_def)
  next
    case pos
    then show ?thesis
      using assms(1) delta_fits_iff(1) [of d r] uint_add_sint [of r d] r
      by (simp add: add_pending_ram_usage_def r_def eos_assert_def)
  next
    case neg
    then show ?thesis
      using assms delta_fits_iff(2) [of d r] uint_add_sint [of r d] r
      by (simp add: add_pending_ram_usage_def r_def eos_assert_def)
  qed
qed

theorem add_pending_ram_usage_exact_witness:
  "\<exists>m' u'. add_pending_ram_usage (Name 5) 2048 sample_manager = Inr m' \<and>
     db_find (usages m') (Name 5) = Some u' \<and> uint (ram_usage u') = 2048"
proof -
  have u: "db_find (usages sample_manager) (Name 5) = Some sample_usage"
    by (simp add: sample_manager_def db_find_def)
  show ?thesis
    using add_pending_ram_usage_exact [OF u, of 2048]
    by (auto simp: sample_usage_def split: sum.splits)
qed

text \<open>One resource at the end of a block: its average, its elastic limit and its pending usage.\<close>

definition resource_sound :: "elastic_limit_parameters \<Rightarrow> usage_accumulator \<Rightarrow> u64 \<Rightarrow> u64 \<Rightarrow> bool" where
  "resource_sound p avg virtual_limit pending \<longleftrightarrow>
     elastic_sound p \<and> ema_within (max_limit p) avg \<and> max_limit p \<le> virtual_limit \<and>
     unat virtual_limit \<le> unat (max_limit p) * unat (max_multiplier p) \<and> pending \<le> max_limit p"

definition block_sound :: "resource_limits_manager \<Rightarrow> bool" where
  "block_sound m \<longleftrightarrow>
     resource_sound (cpu_limit_parameters (rl_config m)) (average_block_cpu_usage (rl_state m))
       (virtual_cpu_limit (rl_state m)) (pending_cpu_usage (rl_state m)) \<and>
     resource_sound (net_limit_parameters (rl_config m)) (average_block_net_usage (rl_state m))
       (virtual_net_limit (rl_state m)) (pending_net_usage (rl_state m))"

lemma resource_sound_step:
  assumes "resource_sound p avg v pend" and "last_ordinal avg < n"
  obtains avg' r where "ema_add pend n (periods p) avg = Inr avg'" "last_ordinal avg' = n"
    "update_elastic_limit v (ema_average avg') p = Inr r" "resource_sound p avg' r 0"
proof -
  obtain avg' where a: "ema_add pend n (periods p) avg = Inr avg'" "ema_within (max_limit p) avg'" "last_ordinal avg' = n"
    using assms ema_add_within [of "periods p" "max_limit p" avg pend n]
    by (auto simp: resource_sound_def elastic_sound_def)
  obtain r where r: "update_elastic_limit v (ema_average avg') p = Inr r"
    using assms(1) update_elastic_limit_total [of p v "ema_average avg'"] by (auto simp: resource_sound_def)
  have "max_limit p \<le> r \<and> unat r \<le> unat (max_limit p) * unat (max_multiplier p)"
    using assms(1) r by (intro update_elastic_limit_range) (auto simp: resource_sound_def elastic_sound_def)
  then have "resource_sound p avg' r 0" using assms(1) a by (simp add: resource_sound_def)
  with a r that show thesis by blast
qed



end
