(* ===== verification/Authority.thy ===== *)
theory Authority
  imports Names "HOL-Library.List_Lexorder" "HOL-Library.Product_Lexorder"
begin

text \<open>
  Authorities (\<^verbatim>\<open>authority.hpp\<close>): weighted keys, account permissions and waits with a threshold, and
  the validation of an authority before it is stored. A \<^verbatim>\<open>shared_authority\<close> holds the same data in
  shared memory and is not distinguished from an authority.
\<close>

section \<open>Definitions\<close>

text \<open>
  A public key is one of the alternatives of its variant together with its data, given as the
  values that its comparison goes through in order.
\<close>

datatype public_key = Public_Key (which: nat) (key_data: "int list")

instantiation public_key :: linorder
begin

definition less_eq_public_key :: "public_key \<Rightarrow> public_key \<Rightarrow> bool" where
  "less_eq_public_key a b \<longleftrightarrow> which a < which b \<or> which a = which b \<and> key_data a \<le> key_data b"

definition less_public_key :: "public_key \<Rightarrow> public_key \<Rightarrow> bool" where
  "less_public_key a b \<longleftrightarrow> which a < which b \<or> which a = which b \<and> key_data a < key_data b"

instance
  by standard (auto simp: less_eq_public_key_def less_public_key_def public_key.expand)

end

datatype permission_level = Permission_Level (actor: name) (permission: name)

instantiation permission_level :: linorder
begin

definition less_eq_permission_level :: "permission_level \<Rightarrow> permission_level \<Rightarrow> bool" where
  "less_eq_permission_level a b \<longleftrightarrow> (actor a, permission a) \<le> (actor b, permission b)"

definition less_permission_level :: "permission_level \<Rightarrow> permission_level \<Rightarrow> bool" where
  "less_permission_level a b \<longleftrightarrow> (actor a, permission a) < (actor b, permission b)"

instance
  by standard (auto simp: less_eq_permission_level_def less_permission_level_def permission_level.expand)

end

record permission_level_weight =
  plw_permission :: permission_level
  plw_weight :: u16

record key_weight =
  kw_key :: public_key
  kw_weight :: u16

record wait_weight =
  wait_sec :: u32
  ww_weight :: u16

record authority =
  threshold :: u32
  auth_keys :: "key_weight list"
  auth_accounts :: "permission_level_weight list"
  auth_waits :: "wait_weight list"

definition authority_of_key :: "public_key \<Rightarrow> u32 \<Rightarrow> authority" where
  "authority_of_key k delay_sec =
     (let auth = \<lparr> threshold = 1, auth_keys = [\<lparr> kw_key = k, kw_weight = 1 \<rparr>], auth_accounts = [], auth_waits = [] \<rparr>
      in if delay_sec > 0
         then auth\<lparr> threshold := 2, auth_waits := auth_waits auth @ [\<lparr> wait_sec = delay_sec, ww_weight = 1 \<rparr>] \<rparr>
         else auth)"

definition authority_of_permission :: "permission_level \<Rightarrow> u32 \<Rightarrow> authority" where
  "authority_of_permission p delay_sec =
     (let auth = \<lparr> threshold = 1, auth_keys = [],
                   auth_accounts = [\<lparr> plw_permission = p, plw_weight = 1 \<rparr>], auth_waits = [] \<rparr>
      in if delay_sec > 0
         then auth\<lparr> threshold := 2, auth_waits := auth_waits auth @ [\<lparr> wait_sec = delay_sec, ww_weight = 1 \<rparr>] \<rparr>
         else auth)"

text \<open>
  The loop of \<^verbatim>\<open>validate\<close> over one of the three vectors: it returns \<open>None\<close> where the code returns
  false, and the running 32-bit total otherwise.
\<close>

fun validate_loop :: "('a \<Rightarrow> 'b::linorder) \<Rightarrow> ('a \<Rightarrow> u16) \<Rightarrow> 'a option \<Rightarrow> 'a list \<Rightarrow> u32 \<Rightarrow> u32 option" where
  "validate_loop key weight prev [] total_weight = Some total_weight"
| "validate_loop key weight prev (x # xs) total_weight =
     (if (case prev of None \<Rightarrow> False | Some p \<Rightarrow> \<not> key p < key x) then None
      else validate_loop key weight (Some x) xs (total_weight + ucast (weight x)))"

definition validate :: "authority \<Rightarrow> bool" where
  "validate auth =
     (if length (auth_keys auth) + length (auth_accounts auth) + length (auth_waits auth) > 65536 then False
      else if threshold auth = 0 then False
      else
        case validate_loop kw_key kw_weight None (auth_keys auth) 0 of
          None \<Rightarrow> False
        | Some total_weight \<Rightarrow>
        (case validate_loop plw_permission plw_weight None (auth_accounts auth) total_weight of
          None \<Rightarrow> False
        | Some total_weight \<Rightarrow>
        (if auth_waits auth \<noteq> [] \<and> wait_sec (hd (auth_waits auth)) = 0 then False
         else
           case validate_loop wait_sec ww_weight None (auth_waits auth) total_weight of
             None \<Rightarrow> False
           | Some total_weight \<Rightarrow> total_weight \<ge> threshold auth)))"

section \<open>What validation accepts\<close>

definition key_total :: "key_weight list \<Rightarrow> nat" where
  "key_total ks = sum_list (map (\<lambda>k. unat (kw_weight k)) ks)"

definition account_total :: "permission_level_weight list \<Rightarrow> nat" where
  "account_total ps = sum_list (map (\<lambda>p. unat (plw_weight p)) ps)"

definition wait_total :: "wait_weight list \<Rightarrow> nat" where
  "wait_total ws = sum_list (map (\<lambda>w. unat (ww_weight w)) ws)"

lemma unat_ucast_16_32 [simp]: "unat (ucast (w :: u16) :: u32) = unat w"
proof -
  have "unat w < 65536" using unsigned_less [of w] by simp
  then show ?thesis by (simp add: unsigned_ucast_eq take_bit_nat_eq_self)
qed

lemma unat_lt_16: "unat (w :: u16) < 65536"
  using unsigned_less [of w] by simp

lemma validate_loop_eq:
  assumes "unat t + sum_list (map (\<lambda>x. unat (weight x)) xs) < 2 ^ 32"
  shows "validate_loop key weight prev xs t =
    (if sorted_wrt (<) (case prev of None \<Rightarrow> map key xs | Some p \<Rightarrow> key p # map key xs)
     then Some (t + of_nat (sum_list (map (\<lambda>x. unat (weight x)) xs))) else None)"
  using assms
proof (induction xs arbitrary: prev t)
  case Nil
  then show ?case by (simp split: option.split)
next
  case (Cons x xs)
  have "unat (t + ucast (weight x)) = unat t + unat (weight x)"
    using Cons.prems by (subst unat_add_small) simp_all
  then have IH: "validate_loop key weight (Some x) xs (t + ucast (weight x)) =
      (if sorted_wrt (<) (key x # map key xs)
       then Some (t + ucast (weight x) + of_nat (sum_list (map (\<lambda>x. unat (weight x)) xs))) else None)"
    using Cons.IH [of "t + ucast (weight x)" "Some x"] Cons.prems by simp
  have w: "(of_nat (unat (weight x)) :: u32) = ucast (weight x)"
    by (simp add: word_unat_eq_iff unat_of_nat)
  show ?case
    unfolding validate_loop.simps IH
    by (auto simp: add.assoc w split: option.split)
qed

lemma sum_weights_bound: "sum_list (map (\<lambda>x. unat (weight x :: u16)) xs) \<le> 65535 * length xs"
proof (induction xs)
  case (Cons x xs)
  then show ?case using unat_lt_16 [of "weight x"] by simp
qed simp

lemma validate_total:
  assumes "validate auth"
  shows "account_total (auth_accounts auth) + key_total (auth_keys auth) + wait_total (auth_waits auth) < 2 ^ 32"
proof -
  have "length (auth_keys auth) + length (auth_accounts auth) + length (auth_waits auth) \<le> 65536"
    using assms by (auto simp: validate_def split: if_splits)
  then show ?thesis
    using sum_weights_bound [of kw_weight "auth_keys auth"] sum_weights_bound [of plw_weight "auth_accounts auth"]
      sum_weights_bound [of ww_weight "auth_waits auth"]
    unfolding key_total_def account_total_def wait_total_def by simp
qed

text \<open>C17: validation accepts exactly the authorities with at most 65536 parts, a positive threshold,
  strictly ascending keys, permission levels and waits, no zero wait, and whose weights add up to the
  threshold as natural numbers: the 32-bit total of the loops never wraps.\<close>

theorem validate_iff:
  "validate auth \<longleftrightarrow>
     length (auth_keys auth) + length (auth_accounts auth) + length (auth_waits auth) \<le> 65536 \<and>
     0 < unat (threshold auth) \<and>
     sorted_wrt (<) (map kw_key (auth_keys auth)) \<and>
     sorted_wrt (<) (map plw_permission (auth_accounts auth)) \<and>
     sorted_wrt (<) (map wait_sec (auth_waits auth)) \<and>
     0 \<notin> wait_sec ` set (auth_waits auth) \<and>
     unat (threshold auth) \<le> key_total (auth_keys auth) + account_total (auth_accounts auth) + wait_total (auth_waits auth)"
proof (cases "length (auth_keys auth) + length (auth_accounts auth) + length (auth_waits auth) \<le> 65536")
  case True
  let ?k = "key_total (auth_keys auth)" and ?a = "account_total (auth_accounts auth)" and ?w = "wait_total (auth_waits auth)"
  have "?k + ?a + ?w \<le> 65535 * 65536"
    using sum_weights_bound [of kw_weight "auth_keys auth"] sum_weights_bound [of plw_weight "auth_accounts auth"]
      sum_weights_bound [of ww_weight "auth_waits auth"] True
    unfolding key_total_def account_total_def wait_total_def by linarith
  then have total: "?k + ?a + ?w < 2 ^ 32" by simp
  have uk: "unat (of_nat ?k :: u32) = ?k" and ua: "unat (of_nat ?k + of_nat ?a :: u32) = ?k + ?a"
    and uw: "unat (of_nat ?k + of_nat ?a + of_nat ?w :: u32) = ?k + ?a + ?w"
    using total unat_of_nat_small [of ?k, where 'a = 32] unat_of_nat_small [of "?k + ?a", where 'a = 32]
      unat_of_nat_small [of "?k + ?a + ?w", where 'a = 32] by simp_all
  have l1: "validate_loop kw_key kw_weight None (auth_keys auth) 0 =
      (if sorted_wrt (<) (map kw_key (auth_keys auth)) then Some (of_nat ?k) else None)"
    using total by (subst validate_loop_eq) (simp_all add: key_total_def)
  have l2: "validate_loop plw_permission plw_weight None (auth_accounts auth) (of_nat ?k) =
      (if sorted_wrt (<) (map plw_permission (auth_accounts auth)) then Some (of_nat ?k + of_nat ?a) else None)"
    using total by (subst validate_loop_eq) (simp_all add: uk account_total_def)
  have l3: "validate_loop wait_sec ww_weight None (auth_waits auth) (of_nat ?k + of_nat ?a) =
      (if sorted_wrt (<) (map wait_sec (auth_waits auth)) then Some (of_nat ?k + of_nat ?a + of_nat ?w) else None)"
    using total by (subst validate_loop_eq) (simp_all add: ua wait_total_def)
  have zero: "auth_waits auth \<noteq> [] \<and> wait_sec (hd (auth_waits auth)) = 0 \<longleftrightarrow> 0 \<in> wait_sec ` set (auth_waits auth)"
    if "sorted_wrt (<) (map wait_sec (auth_waits auth))"
    using that by (cases "auth_waits auth") (auto simp: word_less_def)
  have enough: "threshold auth \<le> of_nat ?k + of_nat ?a + of_nat ?w \<longleftrightarrow> unat (threshold auth) \<le> ?k + ?a + ?w"
    by (simp only: word_le_nat_alt uw)
  show ?thesis
    using True zero enough unfolding validate_def l1
    by (auto simp: l2 l3 unat_gt_0)
next
  case False
  then show ?thesis by (simp add: validate_def)
qed

end
