(* ===== verification/Authority_Checker.thy ===== *)
theory Authority_Checker
  imports Authority Chain_Database
begin

text \<open>
  The authority checker (\<^verbatim>\<open>authority_checker.hpp\<close>): whether a set of keys, already granted permissions
  and a delay satisfies an authority, tallying weights from the heaviest factor down, following
  account permissions to a bounded depth, caching what was decided and marking the keys it used.
\<close>

section \<open>Definitions\<close>

text \<open>
  The parameters of a checker. \<open>permission_to_authority\<close> gives \<open>None\<close> both for a null pointer and
  for a raised \<^verbatim>\<open>permission_query_exception\<close>, which the code treats alike. Delays are microseconds.
\<close>

record authority_checker =
  permission_to_authority :: "permission_level \<Rightarrow> authority option"
  provided_keys :: "public_key list"
  provided_permissions :: "permission_level list"
  provided_delay :: i64
  recursion_depth_limit :: u16

datatype permission_cache_status = Being_Evaluated | Permission_Unsatisfied | Permission_Satisfied

type_synonym permission_cache = "(permission_level, permission_cache_status) fmap"

text \<open>What changes while checking: the marks of the used keys and the cache.\<close>

record checker_state =
  used_marks :: "bool list"
  cached_permissions :: permission_cache

datatype factor =
    Account_Factor permission_level_weight
  | Key_Factor key_weight
  | Wait_Factor wait_weight

fun factor_weight :: "factor \<Rightarrow> u16" where
  "factor_weight (Account_Factor p) = plw_weight p"
| "factor_weight (Key_Factor k) = kw_weight k"
| "factor_weight (Wait_Factor w) = ww_weight w"

fun factor_priority :: "factor \<Rightarrow> int" where
  "factor_priority (Account_Factor p) = 1"
| "factor_priority (Key_Factor k) = 2"
| "factor_priority (Wait_Factor w) = 3"

definition factors :: "authority \<Rightarrow> factor list" where
  "factors auth = map Account_Factor (auth_accounts auth) @ map Key_Factor (auth_keys auth) @
     map Wait_Factor (auth_waits auth)"

text \<open>The multimap of meta permissions: greatest weight first, then greatest priority, ties in the
  order of insertion.\<close>

definition meta_permissions :: "authority \<Rightarrow> factor list" where
  "meta_permissions auth = sort_key (\<lambda>f. (- int (unat (factor_weight f)), - factor_priority f)) (factors auth)"

definition permission_status_in_cache :: "permission_cache \<Rightarrow> permission_level \<Rightarrow> permission_cache_status option" where
  "permission_status_in_cache permissions level =
     (case fmlookup permissions level of
        Some s \<Rightarrow> Some s
      | None \<Rightarrow> fmlookup permissions (Permission_Level (actor level) (Name 0)))"

definition initialize_permission_cache :: "permission_level list \<Rightarrow> permission_cache" where
  "initialize_permission_cache ps = fold (\<lambda>p c. fmupd p Permission_Satisfied c) ps fmempty"

fun find_index :: "public_key list \<Rightarrow> public_key \<Rightarrow> nat option" where
  "find_index [] k = None"
| "find_index (x # xs) k = (if x = k then Some 0 else map_option Suc (find_index xs k))"

text \<open>\<^verbatim>\<open>fc::seconds\<close> of a wait, as a signed microsecond count.\<close>

definition wait_micros :: "wait_weight \<Rightarrow> i64" where
  "wait_micros w = ucast (wait_sec w) * 1000000"

text \<open>
  \<open>visit\<close> is \<^verbatim>\<open>weight_tally_visitor::operator()\<close> for the three kinds of factors and \<open>tally\<close> the loop of
  \<^verbatim>\<open>satisfied\<close> over the meta permissions; \<open>satisfied_at\<close> is the private \<^verbatim>\<open>satisfied\<close> that reverts the key
  marks when the authority is not satisfied. The recursion goes one level deeper at each account
  permission and stops at the depth limit.
\<close>

function (sequential) visit ::
    "authority_checker \<Rightarrow> factor \<Rightarrow> u16 \<Rightarrow> u32 \<Rightarrow> checker_state \<Rightarrow> u32 \<times> checker_state"
  and tally ::
    "authority_checker \<Rightarrow> u32 \<Rightarrow> factor list \<Rightarrow> u16 \<Rightarrow> u32 \<Rightarrow> checker_state \<Rightarrow> bool \<times> checker_state"
where
  "visit c (Wait_Factor w) depth total_weight st =
     (if sint (wait_micros w) \<le> sint (provided_delay c)
      then (total_weight + ucast (ww_weight w), st) else (total_weight, st))"
| "visit c (Key_Factor k) depth total_weight st =
     (case find_index (provided_keys c) (kw_key k) of
        Some i \<Rightarrow> (total_weight + ucast (kw_weight k), st\<lparr> used_marks := (used_marks st)[i := True] \<rparr>)
      | None \<Rightarrow> (total_weight, st))"
| "visit c (Account_Factor p) depth total_weight st =
     (case permission_status_in_cache (cached_permissions st) (plw_permission p) of
        None \<Rightarrow>
          if depth < recursion_depth_limit c then
            (case permission_to_authority c (plw_permission p) of
               None \<Rightarrow> (total_weight, st)
             | Some auth \<Rightarrow>
                 let st1 = st\<lparr> cached_permissions := fmupd (plw_permission p) Being_Evaluated (cached_permissions st) \<rparr>;
                     (r, st2) = tally c (threshold auth) (meta_permissions auth) (depth + 1) 0 st1
                 in
                 if r then (total_weight + ucast (plw_weight p),
                            st2\<lparr> cached_permissions := fmupd (plw_permission p) Permission_Satisfied (cached_permissions st2) \<rparr>)
                 else (total_weight,
                       st2\<lparr> used_marks := used_marks st1,
                            cached_permissions := fmupd (plw_permission p) Permission_Unsatisfied (cached_permissions st2) \<rparr>))
          else (total_weight, st)
      | Some s \<Rightarrow>
          if s = Permission_Satisfied then (total_weight + ucast (plw_weight p), st) else (total_weight, st))"
| "tally c thr [] depth total_weight st = (False, st)"
| "tally c thr (f # fs) depth total_weight st =
     (let (total_weight, st) = visit c f depth total_weight st
      in if thr \<le> total_weight then (True, st) else tally c thr fs depth total_weight st)"
  by pat_completeness auto
termination
proof (relation "measures
    [\<lambda>x. case x of
        Inl (c, f, depth, t, st) \<Rightarrow> unat (recursion_depth_limit c) - unat depth
      | Inr (c, thr, fs, depth, t, st) \<Rightarrow> unat (recursion_depth_limit c) - unat depth,
     \<lambda>x. case x of Inl _ \<Rightarrow> 0 | Inr (c, thr, fs, depth, t, st) \<Rightarrow> Suc (length fs)]", goal_cases)
  case (2 c p depth total_weight st auth x)
  have d: "depth < recursion_depth_limit c" using 2 by simp
  then have "unat (depth + 1) = unat depth + 1"
    using unat_lt_16 [of "recursion_depth_limit c"] by (subst unat_add_small) (simp_all add: word_less_nat_alt)
  with d show ?case by (simp add: word_less_nat_alt)
qed simp_all

definition satisfied_at :: "authority_checker \<Rightarrow> authority \<Rightarrow> u16 \<Rightarrow> checker_state \<Rightarrow> bool \<times> checker_state" where
  "satisfied_at c auth depth st =
     (let (r, st') = tally c (threshold auth) (meta_permissions auth) depth 0 st
      in if r then (True, st') else (False, st'\<lparr> used_marks := used_marks st \<rparr>))"

text \<open>A new checker has no key marked. The public overloads start from the given cache, or from one
  that holds the provided permissions; the marks persist from call to call.\<close>

definition initial_marks :: "authority_checker \<Rightarrow> bool list" where
  "initial_marks c = replicate (length (provided_keys c)) False"

definition satisfied_authority ::
    "authority_checker \<Rightarrow> authority \<Rightarrow> permission_cache option \<Rightarrow> bool list \<Rightarrow> bool \<times> checker_state" where
  "satisfied_authority c auth cached_perms marks =
     satisfied_at c auth 0
       \<lparr> used_marks = marks,
         cached_permissions = (case cached_perms of Some p \<Rightarrow> p
                               | None \<Rightarrow> initialize_permission_cache (provided_permissions c)) \<rparr>"

definition satisfied_permission ::
    "authority_checker \<Rightarrow> permission_level \<Rightarrow> permission_cache option \<Rightarrow> bool list \<Rightarrow> bool \<times> checker_state" where
  "satisfied_permission c p cached_perms marks =
     (let (w, st) = visit c (Account_Factor \<lparr> plw_permission = p, plw_weight = 1 \<rparr>) 0 0
           \<lparr> used_marks = marks,
             cached_permissions = (case cached_perms of Some p \<Rightarrow> p
                                   | None \<Rightarrow> initialize_permission_cache (provided_permissions c)) \<rparr>
      in (w > 0, st))"

text \<open>The overloads with a delay of their own: the delay holds during the call only.\<close>

definition satisfied_permission_delay ::
    "authority_checker \<Rightarrow> permission_level \<Rightarrow> i64 \<Rightarrow> permission_cache option \<Rightarrow> bool list \<Rightarrow> bool \<times> checker_state" where
  "satisfied_permission_delay c p override_provided_delay cached_perms marks =
     satisfied_permission (c\<lparr> provided_delay := override_provided_delay \<rparr>) p cached_perms marks"

definition satisfied_authority_delay ::
    "authority_checker \<Rightarrow> authority \<Rightarrow> i64 \<Rightarrow> permission_cache option \<Rightarrow> bool list \<Rightarrow> bool \<times> checker_state" where
  "satisfied_authority_delay c auth override_provided_delay cached_perms marks =
     satisfied_authority (c\<lparr> provided_delay := override_provided_delay \<rparr>) auth cached_perms marks"

definition all_keys_used :: "bool list \<Rightarrow> bool" where
  "all_keys_used marks \<longleftrightarrow> list_all (\<lambda>b. b) marks"

definition filter_data_by_marker :: "'a list \<Rightarrow> bool list \<Rightarrow> bool \<Rightarrow> 'a list" where
  "filter_data_by_marker data markers marker_value =
     map snd (filter (\<lambda>(m, d). m = marker_value) (zip markers data))"

definition used_keys :: "authority_checker \<Rightarrow> bool list \<Rightarrow> public_key list" where
  "used_keys c marks = filter_data_by_marker (provided_keys c) marks True"

definition unused_keys :: "authority_checker \<Rightarrow> bool list \<Rightarrow> public_key list" where
  "unused_keys c marks = filter_data_by_marker (provided_keys c) marks False"

section \<open>What it means for an authority to be satisfied\<close>

text \<open>
  The specification does not know of depth, order, caches or machine arithmetic: a permission is
  granted when it (or every permission of its account) was provided or when its authority is
  satisfied; an authority is satisfied when some of its factors are and their weights reach the
  threshold.
\<close>

inductive granted :: "authority_checker \<Rightarrow> permission_level \<Rightarrow> bool"
  and grants :: "authority_checker \<Rightarrow> factor \<Rightarrow> bool"
  and satisfies :: "authority_checker \<Rightarrow> authority \<Rightarrow> bool"
  for c :: authority_checker where
  granted_provided: "p \<in> set (provided_permissions c) \<Longrightarrow> granted c p"
| granted_any: "Permission_Level (actor p) (Name 0) \<in> set (provided_permissions c) \<Longrightarrow> granted c p"
| granted_authority: "permission_to_authority c p = Some auth \<Longrightarrow> satisfies c auth \<Longrightarrow> granted c p"
| grants_account: "granted c (plw_permission p) \<Longrightarrow> grants c (Account_Factor p)"
| grants_key: "kw_key k \<in> set (provided_keys c) \<Longrightarrow> grants c (Key_Factor k)"
| grants_wait: "sint (wait_micros w) \<le> sint (provided_delay c) \<Longrightarrow> grants c (Wait_Factor w)"
| satisfies_threshold:
    "mset fs \<subseteq># mset (factors auth) \<Longrightarrow> \<forall>f \<in> set fs. grants c f \<Longrightarrow>
     unat (threshold auth) \<le> sum_list (map (\<lambda>f. unat (factor_weight f)) fs) \<Longrightarrow> satisfies c auth"

section \<open>Soundness\<close>

declare visit.simps [simp del] tally.simps [simp del]

text \<open>What the cache may claim: a permission it holds satisfied is granted, and an entry for every
  permission of an account was provided.\<close>

definition cache_ok :: "authority_checker \<Rightarrow> permission_cache \<Rightarrow> bool" where
  "cache_ok c cache \<longleftrightarrow>
     (\<forall>p. fmlookup cache p = Some Permission_Satisfied \<longrightarrow>
       granted c p \<and> (permission p = Name 0 \<longrightarrow> p \<in> set (provided_permissions c)))"

definition no_wildcard_authority :: "authority_checker \<Rightarrow> bool" where
  "no_wildcard_authority c \<longleftrightarrow> (\<forall>a. permission_to_authority c (Permission_Level a (Name 0)) = None)"

lemma cache_ok_status:
  assumes "cache_ok c cache" "permission_status_in_cache cache p = Some Permission_Satisfied"
  shows "granted c p"
proof (cases "fmlookup cache p")
  case None
  with assms(2) have "fmlookup cache (Permission_Level (actor p) (Name 0)) = Some Permission_Satisfied"
    by (simp add: permission_status_in_cache_def)
  with assms(1) have "Permission_Level (actor p) (Name 0) \<in> set (provided_permissions c)"
    by (simp add: cache_ok_def)
  then show ?thesis by (rule granted_any)
next
  case (Some s)
  with assms show ?thesis by (simp add: cache_ok_def permission_status_in_cache_def)
qed

lemma cache_ok_update: "cache_ok c cache \<Longrightarrow> s \<noteq> Permission_Satisfied \<Longrightarrow> cache_ok c (fmupd p s cache)"
  by (simp add: cache_ok_def)

lemma initialize_permission_cache_ok: "cache_ok c (initialize_permission_cache (provided_permissions c))"
proof -
  have "fmlookup (fold (\<lambda>p c. fmupd p Permission_Satisfied c) ps m) p = Some Permission_Satisfied \<Longrightarrow>
      p \<in> set ps \<or> fmlookup m p = Some Permission_Satisfied" for ps m p
  proof (induction ps arbitrary: m)
    case (Cons q ps)
    then have "fmlookup (fold (\<lambda>p c. fmupd p Permission_Satisfied c) ps (fmupd q Permission_Satisfied m)) p =
        Some Permission_Satisfied" by simp
    from Cons.IH [OF this] show ?case by (auto split: if_splits)
  qed simp
  from this [of "provided_permissions c" fmempty] show ?thesis
    by (auto simp: cache_ok_def initialize_permission_cache_def intro: granted_provided)
qed

lemma unat_add_le: "unat (a + b) \<le> unat a + unat b" for a b :: "'a::len word"
  by (simp add: unat_word_ariths)

lemma find_index_Some: "find_index ks k = Some i \<Longrightarrow> i < length ks \<and> ks ! i = k"
  by (induction ks arbitrary: i) (auto split: if_splits)

lemma find_index_iff: "(\<exists>i. find_index ks k = Some i) \<longleftrightarrow> k \<in> set ks"
  by (induction ks) auto

text \<open>A factor that adds its weight is granted; a tally that reaches the threshold did so on granted
  factors of the list.\<close>

definition visit_ok :: "authority_checker \<Rightarrow> factor \<Rightarrow> u32 \<Rightarrow> u32 \<times> checker_state \<Rightarrow> bool" where
  "visit_ok c f t r \<longleftrightarrow> cache_ok c (cached_permissions (snd r)) \<and>
     (fst r = t \<or> fst r = t + ucast (factor_weight f) \<and> grants c f)"

definition tally_ok :: "authority_checker \<Rightarrow> u32 \<Rightarrow> factor list \<Rightarrow> u32 \<Rightarrow> bool \<times> checker_state \<Rightarrow> bool" where
  "tally_ok c thr fs t r \<longleftrightarrow> cache_ok c (cached_permissions (snd r)) \<and>
     (fst r \<longrightarrow> (\<exists>gs. mset gs \<subseteq># mset fs \<and> (\<forall>g \<in> set gs. grants c g) \<and>
        unat thr \<le> unat t + sum_list (map (\<lambda>g. unat (factor_weight g)) gs)))"

lemma tally_ok_satisfies:
  assumes "tally_ok c (threshold auth) (meta_permissions auth) 0 (True, st)"
  shows "satisfies c auth"
proof -
  obtain gs where "mset gs \<subseteq># mset (meta_permissions auth)" "\<forall>g \<in> set gs. grants c g"
    "unat (threshold auth) \<le> sum_list (map (\<lambda>g. unat (factor_weight g)) gs)"
    using assms by (auto simp: tally_ok_def)
  then show ?thesis by (intro satisfies_threshold [of gs]) (simp_all add: meta_permissions_def)
qed

lemma tally_ok_Cons:
  assumes v: "visit_ok c f t (t', st')"
    and stop: "thr \<le> t' \<Longrightarrow> r = (True, st')" and cont: "\<not> thr \<le> t' \<Longrightarrow> tally_ok c thr fs t' r"
  shows "tally_ok c thr (f # fs) t r"
proof -
  have step: "\<exists>hs. mset hs \<subseteq># {#f#} \<and> (\<forall>g \<in> set hs. grants c g) \<and>
      unat t' \<le> unat t + sum_list (map (\<lambda>g. unat (factor_weight g)) hs)"
  proof (cases "t' = t")
    case True
    then show ?thesis by (intro exI [of _ "[]"]) simp
  next
    case False
    then show ?thesis
      using v unat_add_le [of t "ucast (factor_weight f)"]
      by (intro exI [of _ "[f]"]) (auto simp: visit_ok_def)
  qed
  then obtain hs where hs: "mset hs \<subseteq># {#f#}" "\<forall>g \<in> set hs. grants c g"
    "unat t' \<le> unat t + sum_list (map (\<lambda>g. unat (factor_weight g)) hs)" by blast
  show ?thesis
  proof (cases "thr \<le> t'")
    case True
    have "mset hs \<subseteq># mset (f # fs)" using hs(1) by (simp add: subset_mset.trans)
    then show ?thesis
      using True stop v hs unfolding tally_ok_def visit_ok_def word_le_nat_alt by fastforce
  next
    case False
    note c = cont [OF False]
    show ?thesis unfolding tally_ok_def
    proof (intro conjI impI)
      show "cache_ok c (cached_permissions (snd r))" using c by (simp add: tally_ok_def)
      assume "fst r"
      then obtain gs where gs: "mset gs \<subseteq># mset fs" "\<forall>g \<in> set gs. grants c g"
        "unat thr \<le> unat t' + sum_list (map (\<lambda>g. unat (factor_weight g)) gs)"
        using c by (auto simp: tally_ok_def)
      have "mset (hs @ gs) \<subseteq># mset (f # fs)"
        using subset_mset.add_mono [OF hs(1) gs(1)] by simp
      then show "\<exists>gs. mset gs \<subseteq># mset (f # fs) \<and> (\<forall>g \<in> set gs. grants c g) \<and>
          unat thr \<le> unat t + sum_list (map (\<lambda>g. unat (factor_weight g)) gs)"
        using hs gs by (intro exI [of _ "hs @ gs"]) auto
    qed
  qed
qed

lemma visit_tally_ok:
  assumes "no_wildcard_authority c"
  shows "cache_ok c (cached_permissions st) \<Longrightarrow> visit_ok c f t (visit c f depth t st)"
    and "cache_ok c (cached_permissions st) \<Longrightarrow> tally_ok c thr fs t (tally c thr fs depth t st)"
  using assms
proof (induction c f depth t st and c thr fs depth t st rule: visit_tally.induct)
  case (1 c w depth t st)
  then show ?case by (auto simp: visit.simps visit_ok_def intro: grants_wait)
next
  case (2 c k depth t st)
  then show ?case
    using find_index_iff [of "provided_keys c" "kw_key k"]
    by (auto simp: visit.simps visit_ok_def intro: grants_key split: option.split)
next
  case (3 c p depth t st)
  let ?p = "plw_permission p"
  show ?case
  proof (cases "permission_status_in_cache (cached_permissions st) ?p = None \<and> depth < recursion_depth_limit c \<and>
      permission_to_authority c ?p \<noteq> None")
    case False
    then show ?thesis
      using "3.prems" cache_ok_status [of c "cached_permissions st" ?p]
      by (auto simp: visit.simps visit_ok_def intro: grants_account split: option.split)
  next
    case True
    then obtain auth where auth: "permission_to_authority c ?p = Some auth" by blast
    define st1 where "st1 = st\<lparr> cached_permissions := fmupd ?p Being_Evaluated (cached_permissions st) \<rparr>"
    obtain r st2 where r: "tally c (threshold auth) (meta_permissions auth) (depth + 1) 0 st1 = (r, st2)"
      by (cases "tally c (threshold auth) (meta_permissions auth) (depth + 1) 0 st1")
    have "cache_ok c (cached_permissions st1)"
      using "3.prems" by (simp add: st1_def cache_ok_update)
    then have ok: "tally_ok c (threshold auth) (meta_permissions auth) 0 (r, st2)"
      using "3.IH" [OF _ _ auth st1_def] True "3.prems" r by simp
    have named: "permission ?p \<noteq> Name 0"
      using "3.prems"(2) auth by (metis no_wildcard_authority_def option.distinct(1) permission_level.collapse)
    have granted: "granted c ?p" if r
      using that ok auth tally_ok_satisfies by (auto intro: granted_authority)
    have cache: "cache_ok c (cached_permissions st2)" using ok by (simp add: tally_ok_def)
    have eq: "visit c (Account_Factor p) depth t st =
        (if r then (t + ucast (plw_weight p),
                    st2\<lparr> cached_permissions := fmupd ?p Permission_Satisfied (cached_permissions st2) \<rparr>)
         else (t, st2\<lparr> used_marks := used_marks st1,
                        cached_permissions := fmupd ?p Permission_Unsatisfied (cached_permissions st2) \<rparr>))"
      using True auth r by (simp add: visit.simps st1_def [symmetric])
    show ?thesis
      using cache granted named unfolding eq visit_ok_def
      by (auto simp: cache_ok_def intro: grants_account)
  qed
next
  case (4 c thr depth t st)
  then show ?case by (simp add: tally.simps tally_ok_def)
next
  case (5 c thr f fs depth t st)
  obtain t' st' where v: "visit c f depth t st = (t', st')" by (cases "visit c f depth t st")
  have vo: "visit_ok c f t (t', st')" using "5.IH"(1) "5.prems" v by simp
  then have cont: "\<not> thr \<le> t' \<Longrightarrow> tally_ok c thr fs t' (tally c thr fs depth t' st')"
    using "5.IH"(2) [OF v [symmetric] refl] "5.prems" by (simp add: visit_ok_def)
  show ?case
    by (rule tally_ok_Cons [OF vo]) (simp_all add: tally.simps v cont)
qed

lemma satisfied_permission_granted:
  assumes "no_wildcard_authority c" "fst (satisfied_permission c p None marks)"
  shows "granted c p"
proof -
  define st where "st = \<lparr> used_marks = marks, cached_permissions = initialize_permission_cache (provided_permissions c) \<rparr>"
  let ?f = "Account_Factor \<lparr> plw_permission = p, plw_weight = 1 \<rparr>"
  have "visit_ok c ?f 0 (visit c ?f 0 0 st)"
    by (rule visit_tally_ok(1) [OF assms(1)]) (simp add: st_def initialize_permission_cache_ok)
  moreover have "fst (visit c ?f 0 0 st) > 0"
    using assms(2) by (simp add: satisfied_permission_def st_def [symmetric] case_prod_unfold Let_def)
  ultimately show ?thesis by (auto simp: visit_ok_def elim: grants.cases)
qed

lemma satisfied_authority_satisfies:
  assumes "no_wildcard_authority c" "fst (satisfied_authority c auth None marks)"
  shows "satisfies c auth"
proof -
  define st where "st = \<lparr> used_marks = marks, cached_permissions = initialize_permission_cache (provided_permissions c) \<rparr>"
  have "tally_ok c (threshold auth) (meta_permissions auth) 0 (tally c (threshold auth) (meta_permissions auth) 0 0 st)"
    by (rule visit_tally_ok(2) [OF assms(1)]) (simp add: st_def initialize_permission_cache_ok)
  moreover have "fst (tally c (threshold auth) (meta_permissions auth) 0 0 st)"
    using assms(2) by (simp add: satisfied_authority_def satisfied_at_def st_def [symmetric] case_prod_unfold Let_def split: if_splits)
  ultimately show ?thesis using tally_ok_satisfies by (metis (full_types) prod.collapse)
qed

text \<open>A longer delay grants no less.\<close>

lemma granted_delay_mono:
  assumes "sint d \<le> sint d'"
  shows "granted (c\<lparr> provided_delay := d \<rparr>) p \<Longrightarrow> granted (c\<lparr> provided_delay := d' \<rparr>) p"
    and "grants (c\<lparr> provided_delay := d \<rparr>) f \<Longrightarrow> grants (c\<lparr> provided_delay := d' \<rparr>) f"
    and "satisfies (c\<lparr> provided_delay := d \<rparr>) a \<Longrightarrow> satisfies (c\<lparr> provided_delay := d' \<rparr>) a"
proof (induction rule: granted_grants_satisfies.inducts)
  case (satisfies_threshold fs auth)
  then show ?case by (intro granted_grants_satisfies.satisfies_threshold) auto
qed (use assms in \<open>auto intro: granted_provided granted_any granted_authority grants_account grants_key grants_wait\<close>)

section \<open>Key marks\<close>

definition marks_le :: "bool list \<Rightarrow> bool list \<Rightarrow> bool" where
  "marks_le a b \<longleftrightarrow> list_all2 (\<lambda>x y. x \<longrightarrow> y) a b"

lemma marks_le_refl [simp]: "marks_le a a"
  by (simp add: marks_le_def list_all2_refl)

lemma marks_le_trans: "marks_le a b \<Longrightarrow> marks_le b d \<Longrightarrow> marks_le a d"
  unfolding marks_le_def by (erule (1) list_all2_trans [rotated]) blast

lemma marks_le_update [simp]: "marks_le a (a[i := True])"
proof (cases "i < length a")
  case True
  then show ?thesis by (auto simp: marks_le_def list_all2_conv_all_nth nth_list_update)
qed (simp add: not_less list_update_beyond)

lemma visit_tally_marks:
  "marks_le (used_marks st) (used_marks (snd (visit c f depth t st)))"
  "marks_le (used_marks st) (used_marks (snd (tally c thr fs depth t st)))"
proof (induction c f depth t st and c thr fs depth t st rule: visit_tally.induct)
  case (1 c w depth t st)
  then show ?case by (simp add: visit.simps)
next
  case (2 c k depth t st)
  then show ?case by (simp add: visit.simps split: option.split)
next
  case (3 c p depth t st)
  then show ?case
    by (auto simp: visit.simps Let_def split: option.split prod.split if_splits) force
next
  case (4 c thr depth t st)
  then show ?case by (simp add: tally.simps)
next
  case (5 c thr f fs depth t st)
  obtain t' st' where v: "visit c f depth t st = (t', st')" by (cases "visit c f depth t st")
  show ?case
    using "5.IH"(1) "5.IH"(2) [OF v [symmetric] refl]
    by (auto simp: tally.simps v intro: marks_le_trans)
qed

section \<open>Authorities whose accounts are decided\<close>

text \<open>Whether a factor adds its weight when its permission, if it has one, is already in the cache.\<close>

fun adds :: "authority_checker \<Rightarrow> permission_cache \<Rightarrow> factor \<Rightarrow> bool" where
  "adds c cache (Wait_Factor w) \<longleftrightarrow> sint (wait_micros w) \<le> sint (provided_delay c)"
| "adds c cache (Key_Factor k) \<longleftrightarrow> kw_key k \<in> set (provided_keys c)"
| "adds c cache (Account_Factor p) \<longleftrightarrow> permission_status_in_cache cache (plw_permission p) = Some Permission_Satisfied"

fun decided :: "permission_cache \<Rightarrow> factor \<Rightarrow> bool" where
  "decided cache (Account_Factor p) \<longleftrightarrow> permission_status_in_cache cache (plw_permission p) \<noteq> None"
| "decided cache _ \<longleftrightarrow> True"

lemma visit_decided:
  assumes "decided (cached_permissions st) f"
  obtains m where "visit c f depth t st =
    (if adds c (cached_permissions st) f then t + ucast (factor_weight f) else t, st\<lparr> used_marks := m \<rparr>)"
proof (cases f)
  case (Account_Factor p)
  then show ?thesis
    using assms that [of "used_marks st"] by (auto simp: visit.simps split: option.splits)
next
  case (Key_Factor k)
  then show ?thesis
    using that [of "used_marks st"] that find_index_iff [of "provided_keys c" "kw_key k"]
    by (auto simp: visit.simps split: option.splits)
next
  case (Wait_Factor w)
  then show ?thesis using that [of "used_marks st"] by (auto simp: visit.simps)
qed

definition added_weight :: "authority_checker \<Rightarrow> permission_cache \<Rightarrow> factor list \<Rightarrow> nat" where
  "added_weight c cache fs = sum_list (map (\<lambda>f. unat (factor_weight f)) (filter (adds c cache) fs))"

lemma added_weight_le: "added_weight c cache fs \<le> sum_list (map (\<lambda>f. unat (factor_weight f)) fs)"
  unfolding added_weight_def by (induction fs) auto

lemma tally_decided:
  assumes "list_all (decided (cached_permissions st)) fs"
    and "unat t + sum_list (map (\<lambda>f. unat (factor_weight f)) fs) < 2 ^ 32" and "t < thr"
  shows "fst (tally c thr fs depth t st) \<longleftrightarrow>
    unat thr \<le> unat t + added_weight c (cached_permissions st) fs"
  using assms
proof (induction fs arbitrary: t st)
  case Nil
  then show ?case by (simp add: tally.simps added_weight_def word_less_nat_alt)
next
  case (Cons f fs)
  let ?cache = "cached_permissions st"
  define t' where "t' = (if adds c ?cache f then t + ucast (factor_weight f) else t)"
  have "decided ?cache f" using Cons.prems(1) by simp
  then obtain m where v: "visit c f depth t st = (t', st\<lparr> used_marks := m \<rparr>)"
    unfolding t'_def by (rule visit_decided)
  have "unat (t + ucast (factor_weight f)) = unat t + unat (factor_weight f)"
    using Cons.prems(2) by (subst unat_add_small) simp_all
  then have t': "unat t' + added_weight c ?cache fs = unat t + added_weight c ?cache (f # fs)"
    "unat t' + sum_list (map (\<lambda>f. unat (factor_weight f)) fs) < 2 ^ 32"
    using Cons.prems(2) by (simp_all add: t'_def added_weight_def)
  show ?case
  proof (cases "thr \<le> t'")
    case True
    then show ?thesis using t'(1) by (simp add: tally.simps v word_le_nat_alt)
  next
    case False
    then show ?thesis
      using Cons.IH [of "st\<lparr> used_marks := m \<rparr>" t'] Cons.prems(1) t'
      by (auto simp: tally.simps v not_le)
  qed
qed

lemma sum_weights_factors:
  "sum_list (map (\<lambda>f. unat (factor_weight f)) (factors auth)) =
   account_total (auth_accounts auth) + key_total (auth_keys auth) + wait_total (auth_waits auth)"
  by (simp add: factors_def account_total_def key_total_def wait_total_def o_def)

lemma sum_weights_meta:
  "sum_list (map (\<lambda>f. unat (factor_weight f)) (filter P (meta_permissions auth))) =
   sum_list (map (\<lambda>f. unat (factor_weight f)) (filter P (factors auth)))"
proof -
  have "mset (map (\<lambda>f. unat (factor_weight f)) (filter P (meta_permissions auth))) =
      mset (map (\<lambda>f. unat (factor_weight f)) (filter P (factors auth)))"
    by (simp add: meta_permissions_def mset_filter)
  then show ?thesis by (metis sum_mset_sum_list)
qed

lemma set_meta_permissions [simp]: "set (meta_permissions auth) = set (factors auth)"
  by (simp add: meta_permissions_def)

section \<open>Properties\<close>

text \<open>C15: the checker is sound. When it reports a permission or an authority satisfied, starting from the
  provided permissions, then that permission is granted, or that authority satisfied, in the sense of
  the specification, which knows neither the depth limit, the order of evaluation, the cache nor the
  32-bit tally. The lookup of authorities must know no authority for the empty permission name.\<close>

theorem checker_sound:
  assumes "\<forall>a. permission_to_authority c (Permission_Level a (Name 0)) = None"
  shows "(fst (satisfied_permission c p None marks) \<longrightarrow> granted c p) \<and>
    (fst (satisfied_authority c auth None marks) \<longrightarrow> satisfies c auth)"
proof -
  have "no_wildcard_authority c" using assms by (simp add: no_wildcard_authority_def)
  then show ?thesis using satisfied_permission_granted satisfied_authority_satisfies by blast
qed

definition sample_key :: "int \<Rightarrow> public_key" where
  "sample_key i = Public_Key 0 [i]"

definition sample_authority :: authority where
  "sample_authority = \<lparr> threshold = 3, auth_keys = [\<lparr> kw_key = sample_key 1, kw_weight = 1 \<rparr>, \<lparr> kw_key = sample_key 2, kw_weight = 1 \<rparr>],
     auth_accounts = [\<lparr> plw_permission = Permission_Level (Name 8) (Name 9), plw_weight = 2 \<rparr>], auth_waits = [] \<rparr>"

definition sample_checker :: authority_checker where
  "sample_checker = \<lparr> permission_to_authority = (\<lambda>p. if p = Permission_Level (Name 8) (Name 9)
       then Some (authority_of_key (sample_key 3) 0) else None),
     provided_keys = [sample_key 2, sample_key 3], provided_permissions = [], provided_delay = 0, recursion_depth_limit = 6 \<rparr>"

theorem checker_sound_witness:
  "fst (satisfied_authority sample_checker sample_authority None [False, False]) \<and> satisfies sample_checker sample_authority"
proof -
  have "fst (satisfied_authority sample_checker sample_authority None [False, False])"
    by code_simp
  then show ?thesis
    using checker_sound [of sample_checker "Permission_Level (Name 1) (Name 2)" "[False, False]" sample_authority]
    by (simp add: sample_checker_def)
qed

text \<open>The key marks tell what was used: a failed check restores the marks it started with, a
  successful one only adds marks, and their number never changes.\<close>

theorem satisfied_at_marks:
  "case satisfied_at c auth depth st of (r, st') \<Rightarrow>
     (if r then marks_le (used_marks st) (used_marks st') else used_marks st' = used_marks st) \<and>
     length (used_marks st') = length (used_marks st)"
  using visit_tally_marks(2) [of st c "threshold auth" "meta_permissions auth" depth 0]
  by (auto simp: satisfied_at_def case_prod_unfold Let_def marks_le_def dest: list_all2_lengthD)

text \<open>C16: for a valid authority all of whose account permissions are already decided in the cache
  (in particular one of keys and waits only) the checker is exact: it reports satisfied just when the
  weights of the provided keys, the elapsed waits and the satisfied permissions add up to the
  threshold, in whatever order it visits them.\<close>

theorem satisfied_at_decided_iff:
  assumes "validate auth" and "list_all (decided (cached_permissions st)) (factors auth)"
  shows "fst (satisfied_at c auth depth st) \<longleftrightarrow>
    unat (threshold auth) \<le>
      sum_list (map (\<lambda>f. unat (factor_weight f)) (filter (adds c (cached_permissions st)) (factors auth)))"
proof -
  have "sum_list (map (\<lambda>f. unat (factor_weight f)) (meta_permissions auth)) < 2 ^ 32"
    using validate_total [OF assms(1)] sum_weights_meta [of "\<lambda>_. True" auth] sum_weights_factors [of auth] by simp
  moreover have "0 < threshold auth" using assms(1) by (auto simp: validate_def word_neq_0_conv split: if_splits)
  moreover have "list_all (decided (cached_permissions st)) (meta_permissions auth)"
    using assms(2) by (simp add: list_all_iff)
  ultimately have "fst (tally c (threshold auth) (meta_permissions auth) depth 0 st) \<longleftrightarrow>
      unat (threshold auth) \<le> added_weight c (cached_permissions st) (meta_permissions auth)"
    using tally_decided [of st "meta_permissions auth" 0 "threshold auth" c depth] by simp
  then show ?thesis
    by (simp add: satisfied_at_def case_prod_unfold Let_def added_weight_def sum_weights_meta)
qed

theorem satisfied_at_decided_iff_witness:
  "validate (authority_of_key (sample_key 2) 10) \<and>
   \<not> fst (satisfied_at sample_checker (authority_of_key (sample_key 2) 10) 0 \<lparr> used_marks = [False, False], cached_permissions = fmempty \<rparr>)"
proof -
  let ?a = "authority_of_key (sample_key 2) 10" and ?st = "\<lparr> used_marks = [False, False], cached_permissions = fmempty \<rparr>"
  have v: "validate ?a" by (simp add: validate_def authority_of_key_def)
  moreover have "sum_list (map (\<lambda>f. unat (factor_weight f)) (filter (adds sample_checker fmempty) (factors ?a))) = 1"
    by (simp add: factors_def authority_of_key_def sample_checker_def sample_key_def wait_micros_def)
  moreover have "unat (threshold ?a) = 2" by (simp add: authority_of_key_def)
  moreover have "list_all (decided (cached_permissions ?st)) (factors ?a)"
    by (simp add: factors_def authority_of_key_def)
  ultimately show ?thesis
    using satisfied_at_decided_iff [of ?a ?st sample_checker 0] by simp
qed

end
