(* ===== verification/Authorization.thy ===== *)
theory Authorization
  imports Merkle Authority_Checker
begin

text \<open>
  The authorization manager (\<^verbatim>\<open>authorization_manager.cpp\<close>, \<^verbatim>\<open>permission_object.hpp\<close>,
  \<^verbatim>\<open>permission_link_object.hpp\<close>): the permissions of the accounts, the links from actions to the
  permissions they need, and the check that the declared authorizations of a transaction are there.
  The data of an action is taken as already decoded. Deep-mind logging, snapshots and the
  \<^verbatim>\<open>checktime\<close> callback, which can only abort a check, are not modelled.
\<close>

section \<open>Tables\<close>

text \<open>Time points are microseconds since 1970, as \<^verbatim>\<open>int64_t\<close>.\<close>

record permission_object =
  perm_id :: nat
  usage_id :: nat
  parent_id :: nat
  perm_owner :: name
  perm_name :: name
  last_updated :: i64
  perm_auth :: authority

definition perm_key :: "permission_object \<Rightarrow> name \<times> name" where
  "perm_key p = (perm_owner p, perm_name p)"

text \<open>The native actions (\<^verbatim>\<open>contract_types.hpp\<close>).\<close>

record newaccount =
  na_creator :: name
  na_name :: name
  na_owner :: authority
  na_active :: authority

record setcode =
  sc_account :: name
  sc_vmtype :: u8
  sc_vmversion :: u8
  sc_code :: "u8 list"

record setabi =
  sa_account :: name
  sa_abi :: "u8 list"

record updateauth =
  ua_account :: name
  ua_permission :: name
  ua_parent :: name
  ua_auth :: authority

record deleteauth =
  da_account :: name
  da_permission :: name

record linkauth =
  la_account :: name
  la_code :: name
  la_type :: name
  la_requirement :: name

record unlinkauth =
  ula_account :: name
  ula_code :: name
  ula_type :: name

record canceldelay =
  canceling_auth :: permission_level
  cd_trx_id :: digest

text \<open>The data of an action: what its bytes decode to, or bytes that decode to none of these.\<close>

datatype action_data =
    Newaccount_Data newaccount
  | Setcode_Data setcode
  | Setabi_Data setabi
  | Updateauth_Data updateauth
  | Deleteauth_Data deleteauth
  | Linkauth_Data linkauth
  | Unlinkauth_Data unlinkauth
  | Canceldelay_Data canceldelay
  | Packed_Data "u8 list"

record action =
  act_account :: name
  act_name :: name
  act_authorization :: "permission_level list"
  act_data :: action_data

text \<open>\<^verbatim>\<open>action::data_as\<close> for each of them.\<close>

definition check_action_type :: "action \<Rightarrow> name \<Rightarrow> unit res" where
  "check_action_type act n =
     rbind (eos_assert (act_account act = system_account_name) Action_Type_Exception) (\<lambda>_.
     eos_assert (act_name act = n) Action_Type_Exception)"

definition as_newaccount :: "action \<Rightarrow> newaccount res" where
  "as_newaccount act = rbind (check_action_type act newaccount_name) (\<lambda>_.
     case act_data act of Newaccount_Data d \<Rightarrow> Inr d | _ \<Rightarrow> Inl Unpack_Exception)"

definition as_setcode :: "action \<Rightarrow> setcode res" where
  "as_setcode act = rbind (check_action_type act setcode_name) (\<lambda>_.
     case act_data act of Setcode_Data d \<Rightarrow> Inr d | _ \<Rightarrow> Inl Unpack_Exception)"

definition as_setabi :: "action \<Rightarrow> setabi res" where
  "as_setabi act = rbind (check_action_type act setabi_name) (\<lambda>_.
     case act_data act of Setabi_Data d \<Rightarrow> Inr d | _ \<Rightarrow> Inl Unpack_Exception)"

definition as_updateauth :: "action \<Rightarrow> updateauth res" where
  "as_updateauth act = rbind (check_action_type act updateauth_name) (\<lambda>_.
     case act_data act of Updateauth_Data d \<Rightarrow> Inr d | _ \<Rightarrow> Inl Unpack_Exception)"

definition as_deleteauth :: "action \<Rightarrow> deleteauth res" where
  "as_deleteauth act = rbind (check_action_type act deleteauth_name) (\<lambda>_.
     case act_data act of Deleteauth_Data d \<Rightarrow> Inr d | _ \<Rightarrow> Inl Unpack_Exception)"

definition as_linkauth :: "action \<Rightarrow> linkauth res" where
  "as_linkauth act = rbind (check_action_type act linkauth_name) (\<lambda>_.
     case act_data act of Linkauth_Data d \<Rightarrow> Inr d | _ \<Rightarrow> Inl Unpack_Exception)"

definition as_unlinkauth :: "action \<Rightarrow> unlinkauth res" where
  "as_unlinkauth act = rbind (check_action_type act unlinkauth_name) (\<lambda>_.
     case act_data act of Unlinkauth_Data d \<Rightarrow> Inr d | _ \<Rightarrow> Inl Unpack_Exception)"

definition as_canceldelay :: "action \<Rightarrow> canceldelay res" where
  "as_canceldelay act = rbind (check_action_type act canceldelay_name) (\<lambda>_.
     case act_data act of Canceldelay_Data d \<Rightarrow> Inr d | _ \<Rightarrow> Inl Unpack_Exception)"

text \<open>A deferred transaction, with its actions already unpacked.\<close>

record generated_transaction_object =
  gt_trx_id :: digest
  gt_sender :: name
  gt_sender_id :: u128
  gt_payer :: name
  gt_delay_until :: i64
  gt_expiration :: i64
  gt_published :: i64
  gt_actions :: "action list"
  gt_packed_size :: nat

text \<open>
  The tables of the manager. A link is keyed by account, code and message type and holds the required
  permission.
\<close>

record authorization_manager =
  permissions :: "permission_object list"
  next_permission_id :: nat
  permission_usages :: "(nat, i64) fmap"
  next_usage_id :: nat
  permission_links :: "(name \<times> name \<times> name, name) fmap"
  generated_transactions :: "generated_transaction_object list"

text \<open>What the manager reads from the controller.\<close>

record control_state =
  max_authority_depth :: u16
  max_transaction_delay :: u32
  num_supported_key_types :: nat
  pending_block_time :: i64
  fix_linkauth_restriction :: bool
  only_link_to_existing_permission :: bool

section \<open>Permissions\<close>

definition no_authority :: authority where
  "no_authority = \<lparr> threshold = 0, auth_keys = [], auth_accounts = [], auth_waits = [] \<rparr>"

text \<open>Permission 0 is reserved: it is the parent of the permissions that have none.\<close>

definition auth_initialize_database :: authorization_manager where
  "auth_initialize_database =
     \<lparr> permissions = [\<lparr> perm_id = 0, usage_id = 0, parent_id = 0, perm_owner = Name 0, perm_name = Name 0,
                        last_updated = 0, perm_auth = no_authority \<rparr>],
       next_permission_id = 1, permission_usages = fmempty, next_usage_id = 0, permission_links = fmempty,
       generated_transactions = [] \<rparr>"

definition check_key_types :: "control_state \<Rightarrow> authority \<Rightarrow> unit res" where
  "check_key_types ctl auth =
     rfold (\<lambda>k _. eos_assert (which (kw_key k) < num_supported_key_types ctl) Unactivated_Key_Type) (auth_keys auth) ()"

definition create_permission ::
    "control_state \<Rightarrow> name \<Rightarrow> name \<Rightarrow> nat \<Rightarrow> authority \<Rightarrow> i64 \<Rightarrow> authorization_manager \<Rightarrow>
     (permission_object \<times> authorization_manager) res" where
  "create_permission ctl account name parent auth initial_creation_time m =
     rbind (check_key_types ctl auth) (\<lambda>_.
     let creation_time = (if initial_creation_time = 0 then pending_block_time ctl else initial_creation_time);
         perm = \<lparr> perm_id = next_permission_id m, usage_id = next_usage_id m, parent_id = parent,
                  perm_owner = account, perm_name = name, last_updated = creation_time, perm_auth = auth \<rparr>
     in
     rbind (eos_assert (find_by perm_key (permissions m) (perm_key perm) = None) Db_Uniqueness_Violation) (\<lambda>_.
     Inr (perm, m\<lparr> permission_usages := db_modify (permission_usages m) (next_usage_id m) creation_time,
                   next_usage_id := next_usage_id m + 1,
                   permissions := permissions m @ [perm],
                   next_permission_id := next_permission_id m + 1 \<rparr>)))"

definition modify_permission ::
    "control_state \<Rightarrow> permission_object \<Rightarrow> authority \<Rightarrow> authorization_manager \<Rightarrow> authorization_manager res" where
  "modify_permission ctl perm auth m =
     rbind (check_key_types ctl auth) (\<lambda>_.
     Inr (m\<lparr> permissions := modify_by perm_id (permissions m)
                               (perm\<lparr> perm_auth := auth, last_updated := pending_block_time ctl \<rparr>) \<rparr>))"

definition remove_permission :: "permission_object \<Rightarrow> authorization_manager \<Rightarrow> authorization_manager res" where
  "remove_permission perm m =
     rbind (eos_assert (find_by parent_id (permissions m) (perm_id perm) = None) Action_Validate_Exception) (\<lambda>_.
     rbind (db_get (permission_usages m) (usage_id perm)) (\<lambda>_.
     Inr (m\<lparr> permission_usages := db_remove (permission_usages m) (usage_id perm),
             permissions := remove_by perm_id (permissions m) (perm_id perm) \<rparr>)))"

definition update_permission_usage ::
    "control_state \<Rightarrow> permission_object \<Rightarrow> authorization_manager \<Rightarrow> authorization_manager res" where
  "update_permission_usage ctl perm m =
     rbind (db_get (permission_usages m) (usage_id perm)) (\<lambda>_.
     Inr (m\<lparr> permission_usages := db_modify (permission_usages m) (usage_id perm) (pending_block_time ctl) \<rparr>))"

definition get_permission_last_used :: "permission_object \<Rightarrow> authorization_manager \<Rightarrow> i64 res" where
  "get_permission_last_used perm m = db_get (permission_usages m) (usage_id perm)"

text \<open>Every exception of the two lookups is rethrown as a query exception.\<close>

definition find_permission :: "permission_level \<Rightarrow> authorization_manager \<Rightarrow> permission_object option res" where
  "find_permission level m =
     rbind (eos_assert (\<not> name_empty (actor level) \<and> \<not> name_empty (permission level)) Permission_Query_Exception) (\<lambda>_.
     Inr (find_by perm_key (permissions m) (actor level, permission level)))"

definition get_permission :: "permission_level \<Rightarrow> authorization_manager \<Rightarrow> permission_object res" where
  "get_permission level m =
     rbind (eos_assert (\<not> name_empty (actor level) \<and> \<not> name_empty (permission level)) Permission_Query_Exception) (\<lambda>_.
     case find_by perm_key (permissions m) (actor level, permission level) of
       None \<Rightarrow> Inl Permission_Query_Exception
     | Some p \<Rightarrow> Inr p)"

text \<open>
  \<^verbatim>\<open>permission_object::satisfies\<close>. The loop follows parents through the table; a parent that is not in
  it would be a past-the-end dereference. The objects met in a walk that ends are all different, so a
  walk of more steps than the table has objects never ends.
\<close>

fun satisfies_walk :: "nat \<Rightarrow> permission_object list \<Rightarrow> nat \<Rightarrow> permission_object \<Rightarrow> bool res" where
  "satisfies_walk 0 idx i par = Inl Does_Not_Terminate"
| "satisfies_walk (Suc n) idx i par =
     (if i = parent_id par then Inr True
      else if parent_id par = 0 then Inr False
      else case find_by perm_id idx (parent_id par) of
             None \<Rightarrow> Inl Undefined_Behaviour
           | Some par \<Rightarrow> satisfies_walk n idx i par)"

definition perm_satisfies :: "permission_object \<Rightarrow> permission_object \<Rightarrow> permission_object list \<Rightarrow> bool res" where
  "perm_satisfies this other idx =
     (if perm_owner this \<noteq> perm_owner other then Inr False
      else if perm_id this = perm_id other \<or> perm_id this = parent_id other then Inr True
      else case find_by perm_id idx (parent_id other) of
             None \<Rightarrow> Inl Undefined_Behaviour
           | Some par \<Rightarrow> satisfies_walk (length idx) idx (perm_id this) par)"

section \<open>Links and minimum permissions\<close>

definition lookup_linked_permission :: "name \<Rightarrow> name \<Rightarrow> name \<Rightarrow> authorization_manager \<Rightarrow> name option" where
  "lookup_linked_permission authorizer_account scope action_nm m =
     (case db_find (permission_links m) (authorizer_account, scope, action_nm) of
        Some required \<Rightarrow> Some required
      | None \<Rightarrow> db_find (permission_links m) (authorizer_account, scope, Name 0))"

definition native_auth_action :: "name \<Rightarrow> bool" where
  "native_auth_action action_nm \<longleftrightarrow>
     action_nm = updateauth_name \<or> action_nm = deleteauth_name \<or> action_nm = linkauth_name \<or>
     action_nm = unlinkauth_name \<or> action_nm = canceldelay_name"

definition lookup_minimum_permission :: "name \<Rightarrow> name \<Rightarrow> name \<Rightarrow> authorization_manager \<Rightarrow> name option res" where
  "lookup_minimum_permission authorizer_account scope action_nm m =
     rbind (if scope = system_account_name
            then eos_assert (\<not> native_auth_action action_nm) Unlinkable_Min_Permission_Action else Inr ()) (\<lambda>_.
     case lookup_linked_permission authorizer_account scope action_nm m of
       None \<Rightarrow> Inr (Some active_name)
     | Some linked \<Rightarrow> if linked = eosio_any_name then Inr None else Inr (Some linked))"

text \<open>The assertion that the declared permission satisfies the minimum one.\<close>

definition assert_satisfies :: "permission_level \<Rightarrow> permission_object \<Rightarrow> authorization_manager \<Rightarrow> unit res" where
  "assert_satisfies auth min_permission m =
     rbind (get_permission auth m) (\<lambda>p.
     rbind (perm_satisfies p min_permission (permissions m)) (\<lambda>r.
     eos_assert r Irrelevant_Auth_Exception))"

text \<open>The single declared authorization of a native action, which has to be by the given account.\<close>

definition single_auth :: "permission_level list \<Rightarrow> permission_level res" where
  "single_auth auths = (case auths of [auth] \<Rightarrow> Inr auth | _ \<Rightarrow> Inl Irrelevant_Auth_Exception)"

definition check_updateauth_authorization ::
    "updateauth \<Rightarrow> permission_level list \<Rightarrow> authorization_manager \<Rightarrow> unit res" where
  "check_updateauth_authorization update auths m =
     rbind (single_auth auths) (\<lambda>auth.
     rbind (eos_assert (actor auth = ua_account update) Irrelevant_Auth_Exception) (\<lambda>_.
     rbind (find_permission (Permission_Level (ua_account update) (ua_permission update)) m) (\<lambda>found.
     rbind (case found of
              Some p \<Rightarrow> Inr p
            | None \<Rightarrow> get_permission (Permission_Level (ua_account update) (ua_parent update)) m) (\<lambda>min_permission.
     assert_satisfies auth min_permission m))))"

definition check_deleteauth_authorization ::
    "deleteauth \<Rightarrow> permission_level list \<Rightarrow> authorization_manager \<Rightarrow> unit res" where
  "check_deleteauth_authorization del auths m =
     rbind (single_auth auths) (\<lambda>auth.
     rbind (eos_assert (actor auth = da_account del) Irrelevant_Auth_Exception) (\<lambda>_.
     rbind (get_permission (Permission_Level (da_account del) (da_permission del)) m) (\<lambda>min_permission.
     assert_satisfies auth min_permission m)))"

definition check_linkauth_authorization ::
    "control_state \<Rightarrow> linkauth \<Rightarrow> permission_level list \<Rightarrow> authorization_manager \<Rightarrow> unit res" where
  "check_linkauth_authorization ctl link auths m =
     rbind (single_auth auths) (\<lambda>auth.
     rbind (eos_assert (actor auth = la_account link) Irrelevant_Auth_Exception) (\<lambda>_.
     rbind (if la_code link = system_account_name \<or> \<not> fix_linkauth_restriction ctl
            then eos_assert (\<not> native_auth_action (la_type link)) Action_Validate_Exception else Inr ()) (\<lambda>_.
     rbind (lookup_minimum_permission (la_account link) (la_code link) (la_type link) m) (\<lambda>linked.
     case linked of
       None \<Rightarrow> Inr ()
     | Some linked_permission_name \<Rightarrow>
         rbind (get_permission (Permission_Level (la_account link) linked_permission_name) m) (\<lambda>min_permission.
         assert_satisfies auth min_permission m)))))"

definition check_unlinkauth_authorization ::
    "unlinkauth \<Rightarrow> permission_level list \<Rightarrow> authorization_manager \<Rightarrow> unit res" where
  "check_unlinkauth_authorization unlink auths m =
     rbind (single_auth auths) (\<lambda>auth.
     rbind (eos_assert (actor auth = ula_account unlink) Irrelevant_Auth_Exception) (\<lambda>_.
     case lookup_linked_permission (ula_account unlink) (ula_code unlink) (ula_type unlink) m of
       None \<Rightarrow> Inl Transaction_Exception
     | Some unlinked_permission_name \<Rightarrow>
         if unlinked_permission_name = eosio_any_name then Inr ()
         else
           rbind (get_permission (Permission_Level (ula_account unlink) unlinked_permission_name) m) (\<lambda>min_permission.
           assert_satisfies auth min_permission m)))"

text \<open>It returns the delay the deferred transaction was given.\<close>

definition check_canceldelay_authorization ::
    "canceldelay \<Rightarrow> permission_level list \<Rightarrow> authorization_manager \<Rightarrow> i64 res" where
  "check_canceldelay_authorization cancel auths m =
     rbind (single_auth auths) (\<lambda>auth.
     rbind (get_permission (canceling_auth cancel) m) (\<lambda>min_permission.
     rbind (assert_satisfies auth min_permission m) (\<lambda>_.
     case find_by gt_trx_id (generated_transactions m) (cd_trx_id cancel) of
       None \<Rightarrow> Inl Tx_Not_Found
     | Some itr \<Rightarrow>
         rbind (eos_assert (gt_sender itr = Name 0) Tx_Not_Found) (\<lambda>_.
         rbind (eos_assert
                  (list_ex (\<lambda>act. list_ex (\<lambda>auth. auth = canceling_auth cancel) (act_authorization act)) (gt_actions itr))
                  Action_Validate_Exception) (\<lambda>_.
         Inr (gt_delay_until itr - gt_published itr))))))"

section \<open>Checking the authorizations of a transaction\<close>

definition seconds :: "u32 \<Rightarrow> i64" where
  "seconds s = ucast s * 1000000"

definition microseconds_maximum :: i64 where
  "microseconds_maximum = 0x7fffffffffffffff"

definition effective_delay :: "control_state \<Rightarrow> i64 \<Rightarrow> i64" where
  "effective_delay ctl delay =
     (if sint (seconds (max_transaction_delay ctl)) \<le> sint delay then microseconds_maximum else delay)"

text \<open>The lookup that \<^verbatim>\<open>make_auth_checker\<close> is given; the checker takes a raised query exception and a
  missing permission alike.\<close>

definition authority_of :: "authorization_manager \<Rightarrow> permission_level \<Rightarrow> authority option" where
  "authority_of m p =
     (case find_permission p m of Inl _ \<Rightarrow> None | Inr found \<Rightarrow> map_option perm_auth found)"

definition make_auth_checker ::
    "control_state \<Rightarrow> authorization_manager \<Rightarrow> public_key list \<Rightarrow> permission_level list \<Rightarrow> i64 \<Rightarrow> authority_checker" where
  "make_auth_checker ctl m keys perms delay =
     \<lparr> permission_to_authority = authority_of m, provided_keys = keys, provided_permissions = perms,
       provided_delay = delay, recursion_depth_limit = max_authority_depth ctl \<rparr>"

definition max_i64 :: "i64 \<Rightarrow> i64 \<Rightarrow> i64" where
  "max_i64 a b = (if sint a < sint b then b else a)"

text \<open>Whether an action is one of the special cases, and the delay under which its authorizations are
  checked.\<close>

definition check_special ::
    "control_state \<Rightarrow> i64 \<Rightarrow> action \<Rightarrow> authorization_manager \<Rightarrow> (bool \<times> i64) res" where
  "check_special ctl delay act m =
     (if act_account act = system_account_name then
        if act_name act = updateauth_name then
          rbind (as_updateauth act) (\<lambda>d.
          rbind (check_updateauth_authorization d (act_authorization act) m) (\<lambda>_. Inr (True, delay)))
        else if act_name act = deleteauth_name then
          rbind (as_deleteauth act) (\<lambda>d.
          rbind (check_deleteauth_authorization d (act_authorization act) m) (\<lambda>_. Inr (True, delay)))
        else if act_name act = linkauth_name then
          rbind (as_linkauth act) (\<lambda>d.
          rbind (check_linkauth_authorization ctl d (act_authorization act) m) (\<lambda>_. Inr (True, delay)))
        else if act_name act = unlinkauth_name then
          rbind (as_unlinkauth act) (\<lambda>d.
          rbind (check_unlinkauth_authorization d (act_authorization act) m) (\<lambda>_. Inr (True, delay)))
        else if act_name act = canceldelay_name then
          rbind (as_canceldelay act) (\<lambda>d.
          rbind (check_canceldelay_authorization d (act_authorization act) m) (\<lambda>original.
          Inr (True, max_i64 delay original)))
        else Inr (False, delay)
      else Inr (False, delay))"

definition check_minimum :: "action \<Rightarrow> authorization_manager \<Rightarrow> permission_level \<Rightarrow> unit res" where
  "check_minimum act m declared_auth =
     rbind (lookup_minimum_permission (actor declared_auth) (act_account act) (act_name act) m) (\<lambda>min_name.
     case min_name of
       None \<Rightarrow> Inr ()
     | Some min_permission_name \<Rightarrow>
         rbind (get_permission (Permission_Level (actor declared_auth) min_permission_name) m) (\<lambda>min_permission.
         assert_satisfies declared_auth min_permission m))"

text \<open>The permissions to satisfy, each with the least delay of the actions that declare it.\<close>

type_synonym delay_map = "(permission_level, i64) fmap"

definition require_with_delay :: "permission_level \<Rightarrow> i64 \<Rightarrow> delay_map \<Rightarrow> delay_map" where
  "require_with_delay p delay to_satisfy =
     (case fmlookup to_satisfy p of
        None \<Rightarrow> fmupd p delay to_satisfy
      | Some d \<Rightarrow> if sint delay < sint d then fmupd p delay to_satisfy else to_satisfy)"

definition check_declared_auth ::
    "bool \<Rightarrow> i64 \<Rightarrow> permission_level list \<Rightarrow> action \<Rightarrow> authorization_manager \<Rightarrow> permission_level \<Rightarrow> delay_map \<Rightarrow> delay_map res" where
  "check_declared_auth special_case delay satisfied_authorizations act m declared_auth to_satisfy =
     rbind (if special_case then Inr () else check_minimum act m declared_auth) (\<lambda>_.
     Inr (if declared_auth \<in> set satisfied_authorizations then to_satisfy
          else require_with_delay declared_auth delay to_satisfy))"

definition check_action ::
    "control_state \<Rightarrow> i64 \<Rightarrow> permission_level list \<Rightarrow> authorization_manager \<Rightarrow> action \<Rightarrow> delay_map \<Rightarrow> delay_map res" where
  "check_action ctl delay satisfied_authorizations m act to_satisfy =
     rbind (check_special ctl delay act m) (\<lambda>(special_case, delay).
     rfold (check_declared_auth special_case delay satisfied_authorizations act m) (act_authorization act) to_satisfy)"

definition check_permissions ::
    "authority_checker \<Rightarrow> bool \<Rightarrow> (permission_level \<times> i64) list \<Rightarrow> bool list \<Rightarrow> bool list res" where
  "check_permissions checker check_but_dont_fail ps marks =
     rfold (\<lambda>(p, delay) marks.
       let (r, st) = satisfied_permission_delay checker p delay None marks in
       rbind (eos_assert (r \<or> check_but_dont_fail) Unsatisfied_Authorization) (\<lambda>_.
       Inr (used_marks st))) ps marks"

definition delay_list :: "delay_map \<Rightarrow> (permission_level \<times> i64) list" where
  "delay_list to_satisfy = map (\<lambda>p. (p, the (fmlookup to_satisfy p))) (sorted_list_of_fset (fmdom to_satisfy))"

definition check_authorization ::
    "control_state \<Rightarrow> action list \<Rightarrow> public_key list \<Rightarrow> permission_level list \<Rightarrow> i64 \<Rightarrow> bool \<Rightarrow> bool \<Rightarrow>
     permission_level list \<Rightarrow> authorization_manager \<Rightarrow> unit res" where
  "check_authorization ctl actions keys perms delay allow_unused_keys check_but_dont_fail satisfied_authorizations m =
     (let effective_provided_delay = effective_delay ctl delay;
          checker = make_auth_checker ctl m keys perms effective_provided_delay
      in
      rbind (rfold (check_action ctl effective_provided_delay satisfied_authorizations m) actions fmempty) (\<lambda>to_satisfy.
      rbind (check_permissions checker check_but_dont_fail (delay_list to_satisfy) (initial_marks checker)) (\<lambda>marks.
      if allow_unused_keys then Inr ()
      else eos_assert (all_keys_used marks \<or> check_but_dont_fail) Tx_Irrelevant_Sig)))"

definition check_authorization_permission ::
    "control_state \<Rightarrow> name \<Rightarrow> name \<Rightarrow> public_key list \<Rightarrow> permission_level list \<Rightarrow> i64 \<Rightarrow> bool \<Rightarrow>
     authorization_manager \<Rightarrow> unit res" where
  "check_authorization_permission ctl account perm keys perms delay allow_unused_keys m =
     (let checker = make_auth_checker ctl m keys perms (effective_delay ctl delay);
          (r, st) = satisfied_permission checker (Permission_Level account perm) None (initial_marks checker)
      in
      rbind (eos_assert r Unsatisfied_Authorization) (\<lambda>_.
      if allow_unused_keys then Inr () else eos_assert (all_keys_used (used_marks st)) Tx_Irrelevant_Sig))"

definition get_required_keys ::
    "control_state \<Rightarrow> action list \<Rightarrow> public_key list \<Rightarrow> i64 \<Rightarrow> authorization_manager \<Rightarrow> public_key list res" where
  "get_required_keys ctl actions candidate_keys delay m =
     (let checker = make_auth_checker ctl m candidate_keys [] delay in
      rbind (rfold (\<lambda>act marks.
               rfold (\<lambda>declared_auth marks.
                 let (r, st) = satisfied_permission checker declared_auth None marks in
                 rbind (eos_assert r Unsatisfied_Authorization) (\<lambda>_. Inr (used_marks st)))
                 (act_authorization act) marks) actions (initial_marks checker)) (\<lambda>marks.
      Inr (used_keys checker marks)))"

end
