(* ===== verification/System_Contract.thy ===== *)
theory System_Contract
  imports Authorization Resource_Limits
begin

text \<open>
  The native actions of the system account (\<^verbatim>\<open>eosio_contract.cpp\<close>) on the tables of accounts, codes,
  permissions and resource usage, and the first accounts that \<^verbatim>\<open>controller_impl\<close> creates. The results
  of SHA-256, of the validation of WebAssembly modules and the serialised size of a key are parameters.
  Deep-mind logging is not modelled.
\<close>

section \<open>Tables\<close>

record account_object =
  creation_date :: block_timestamp
  acc_abi :: "u8 list"

record account_metadata_object =
  recv_sequence :: u64
  auth_sequence :: u64
  code_sequence :: u64
  abi_sequence :: u64
  md_code_hash :: digest
  last_code_update :: i64
  md_flags :: u32
  md_vm_type :: u8
  md_vm_version :: u8

definition is_privileged :: "account_metadata_object \<Rightarrow> bool" where
  "is_privileged a \<longleftrightarrow> md_flags a AND 1 \<noteq> 0"

definition set_privileged :: "bool \<Rightarrow> account_metadata_object \<Rightarrow> account_metadata_object" where
  "set_privileged privileged a = a\<lparr> md_flags := (if privileged then md_flags a OR 1 else md_flags a AND NOT 1) \<rparr>"

definition new_account_metadata :: account_metadata_object where
  "new_account_metadata = \<lparr> recv_sequence = 0, auth_sequence = 0, code_sequence = 0, abi_sequence = 0,
     md_code_hash = digest_default, last_code_update = 0, md_flags = 0, md_vm_type = 0, md_vm_version = 0 \<rparr>"

record code_object =
  code_bytes :: "u8 list"
  code_ref_count :: u64
  first_block_used :: u32

text \<open>
  The tables the native actions work on, and what they leave in the contexts of the transaction and of
  the action: the accounts whose RAM is verified at the end, and the RAM deltas of the action.
\<close>

record system_state =
  accounts :: "(name, account_object) fmap"
  account_metadata :: "(name, account_metadata_object) fmap"
  codes :: "(digest \<times> u8 \<times> u8, code_object) fmap"
  authz :: authorization_manager
  rlm :: resource_limits_manager
  validate_ram_usage :: "name fset"
  account_ram_deltas :: "(name, i64) fmap"

text \<open>
  What the handlers read from their surroundings. SHA-256, the validation of a WebAssembly module and
  the serialised size of a key are parameters.
\<close>

record apply_env =
  env_control :: control_state
  env_read_only :: bool
  env_enforce_key_list :: bool
  env_key_blacklist :: "public_key list"
  env_sha256 :: "u8 list \<Rightarrow> digest"
  env_wasm_validate :: "u8 list \<Rightarrow> unit res"
  env_key_size :: "public_key \<Rightarrow> u64"
  env_head_block_num :: u32
  env_disable_deferred :: bool

section \<open>Billable sizes\<close>

definition billable_size_v :: "u64 \<Rightarrow> u64" where
  "billable_size_v v = ((v + 16 - 1) div 16) * 16"

definition overhead_per_row_per_index_ram_bytes :: u64 where
  "overhead_per_row_per_index_ram_bytes = 32"

definition billable_size_shared_authority :: u64 where
  "billable_size_shared_authority = billable_size_v (3 * 16 + 4)"

definition billable_size_permission_object :: u64 where
  "billable_size_permission_object =
     billable_size_v ((billable_size_shared_authority + 64) + 5 * overhead_per_row_per_index_ram_bytes)"

definition billable_size_permission_link_object :: u64 where
  "billable_size_permission_link_object = billable_size_v (40 + overhead_per_row_per_index_ram_bytes * 3)"

definition billable_size_generated_transaction_object :: u64 where
  "billable_size_generated_transaction_object = billable_size_v (96 + 4 + overhead_per_row_per_index_ram_bytes * 5)"

definition get_billable_size :: "(public_key \<Rightarrow> u64) \<Rightarrow> authority \<Rightarrow> u64" where
  "get_billable_size key_size auth =
     (let accounts_size = of_nat (length (auth_accounts auth)) * billable_size_v 24;
          waits_size = of_nat (length (auth_waits auth)) * billable_size_v 16;
          keys_size = fold (\<lambda>k s. s + billable_size_v 8 + key_size (kw_key k)) (auth_keys auth) 0
      in accounts_size + waits_size + keys_size)"

definition overhead_per_account_ram_bytes :: u64 where
  "overhead_per_account_ram_bytes = 2 * 1024"

definition setcode_ram_bytes_multiplier :: u64 where
  "setcode_ram_bytes_multiplier = 10"

section \<open>The context of an action\<close>

definition require_authorization :: "action \<Rightarrow> name \<Rightarrow> unit res" where
  "require_authorization act account =
     eos_assert (list_ex (\<lambda>a. actor a = account) (act_authorization act)) Missing_Auth_Exception"

definition add_ram_usage :: "name \<Rightarrow> i64 \<Rightarrow> system_state \<Rightarrow> system_state res" where
  "add_ram_usage account ram_delta s =
     rbind (add_pending_ram_usage account ram_delta (rlm s)) (\<lambda>rl.
     Inr (s\<lparr> rlm := rl,
             validate_ram_usage := (if is_positive ram_delta then finsert account (validate_ram_usage s) else validate_ram_usage s),
             account_ram_deltas := (case fmlookup (account_ram_deltas s) account of
                 None \<Rightarrow> fmupd account ram_delta (account_ram_deltas s)
               | Some d \<Rightarrow> fmupd account (d + ram_delta) (account_ram_deltas s)) \<rparr>))"

definition cancel_deferred_transaction ::
    "apply_env \<Rightarrow> u128 \<Rightarrow> name \<Rightarrow> system_state \<Rightarrow> (bool \<times> system_state) res" where
  "cancel_deferred_transaction env sender_id sender s =
     (if env_disable_deferred env then Inr (False, s)
      else
        rbind (eos_assert (\<not> env_read_only env) Transaction_Exception) (\<lambda>_.
        case find_by (\<lambda>g. (gt_sender g, gt_sender_id g)) (generated_transactions (authz s)) (sender, sender_id) of
          None \<Rightarrow> Inr (False, s)
        | Some gto \<Rightarrow>
            rbind (add_ram_usage (gt_payer gto)
                     (- (billable_size_generated_transaction_object + of_nat (gt_packed_size gto))) s) (\<lambda>s.
            Inr (True, s\<lparr> authz := (authz s)\<lparr> generated_transactions :=
                   remove_by (\<lambda>g. (gt_sender g, gt_sender_id g)) (generated_transactions (authz s)) (sender, sender_id) \<rparr> \<rparr>))))"

section \<open>The native actions\<close>

definition transaction_id_to_sender_id :: "digest \<Rightarrow> u128" where
  "transaction_id_to_sender_id tid = push_bit 64 (ucast (hash3 tid)) OR ucast (hash2 tid)"

definition check_key_list :: "apply_env \<Rightarrow> public_key \<Rightarrow> unit res" where
  "check_key_list env key =
     (if length (env_key_blacklist env) > 0
      then eos_assert (key \<notin> set (env_key_blacklist env)) Key_Blacklist_Exception else Inr ())"

definition validate_authority_account :: "system_state \<Rightarrow> permission_level \<Rightarrow> unit res" where
  "validate_authority_account s p =
     rbind (eos_assert (db_find (accounts s) (actor p) \<noteq> None) Action_Validate_Exception) (\<lambda>_.
     if permission p = owner_name \<or> permission p = active_name then Inr ()
     else if permission p = eosio_code_name then Inr ()
     else case get_permission p (authz s) of Inl _ \<Rightarrow> Inl Action_Validate_Exception | Inr _ \<Rightarrow> Inr ())"

definition validate_authority_precondition :: "apply_env \<Rightarrow> authority \<Rightarrow> system_state \<Rightarrow> unit res" where
  "validate_authority_precondition env auth s =
     rbind (rfold (\<lambda>a _. validate_authority_account s (plw_permission a)) (auth_accounts auth) ()) (\<lambda>_.
     if env_enforce_key_list env then rfold (\<lambda>k _. check_key_list env (kw_key k)) (auth_keys auth) () else Inr ())"

definition has_eosio_prefix :: "name \<Rightarrow> bool" where
  "has_eosio_prefix n \<longleftrightarrow> take 6 (name_to_string n) = ''eosio.''"

definition apply_eosio_newaccount :: "apply_env \<Rightarrow> action \<Rightarrow> system_state \<Rightarrow> system_state res" where
  "apply_eosio_newaccount env act s =
     rbind (eos_assert (\<not> env_read_only env) Action_Validate_Exception) (\<lambda>_.
     rbind (as_newaccount act) (\<lambda>create.
     rbind (require_authorization act (na_creator create)) (\<lambda>_.
     rbind (eos_assert (validate (na_owner create)) Action_Validate_Exception) (\<lambda>_.
     rbind (eos_assert (validate (na_active create)) Action_Validate_Exception) (\<lambda>_.
     rbind (eos_assert (\<not> name_empty (na_name create)) Action_Validate_Exception) (\<lambda>_.
     rbind (eos_assert (length (name_to_string (na_name create)) \<le> 12) Action_Validate_Exception) (\<lambda>_.
     rbind (db_get (account_metadata s) (na_creator create)) (\<lambda>creator.
     rbind (if is_privileged creator then Inr ()
            else eos_assert (\<not> has_eosio_prefix (na_name create)) Action_Validate_Exception) (\<lambda>_.
     rbind (eos_assert (db_find (accounts s) (na_name create) = None) Account_Name_Exists_Exception) (\<lambda>_.
     rbind (db_create (accounts s) (na_name create)
              \<lparr> creation_date = set_time_point (pending_block_time (env_control env)), acc_abi = [] \<rparr>) (\<lambda>accs.
     rbind (db_create (account_metadata s) (na_name create) new_account_metadata) (\<lambda>mds.
     let s = s\<lparr> accounts := accs, account_metadata := mds \<rparr> in
     rbind (validate_authority_precondition env (na_owner create) s) (\<lambda>_.
     rbind (validate_authority_precondition env (na_active create) s) (\<lambda>_.
     rbind (create_permission (env_control env) (na_name create) owner_name 0 (na_owner create) 0 (authz s)) (\<lambda>(owner_permission, az).
     rbind (create_permission (env_control env) (na_name create) active_name (perm_id owner_permission) (na_active create) 0 az) (\<lambda>(active_permission, az).
     rbind (initialize_account (na_name create) (rlm s)) (\<lambda>rl.
     let ram_delta = overhead_per_account_ram_bytes + 2 * billable_size_permission_object
           + get_billable_size (env_key_size env) (perm_auth owner_permission)
           + get_billable_size (env_key_size env) (perm_auth active_permission)
     in add_ram_usage (na_name create) ram_delta (s\<lparr> authz := az, rlm := rl \<rparr>))))))))))))))))))"

definition release_code ::
    "digest \<times> u8 \<times> u8 \<Rightarrow> digest \<Rightarrow> (digest \<times> u8 \<times> u8, code_object) fmap \<Rightarrow>
     (u64 \<times> (digest \<times> u8 \<times> u8, code_object) fmap) res" where
  "release_code old_key code_hash t =
     rbind (db_get t old_key) (\<lambda>old_code_entry.
     rbind (eos_assert (fst old_key \<noteq> code_hash) Set_Exact_Code) (\<lambda>_.
     let old_size = of_nat (length (code_bytes old_code_entry)) * setcode_ram_bytes_multiplier in
     if code_ref_count old_code_entry = 1 then Inr (old_size, db_remove t old_key)
     else Inr (old_size, db_modify t old_key
                 (old_code_entry\<lparr> code_ref_count := code_ref_count old_code_entry - 1 \<rparr>))))"

definition reference_code ::
    "apply_env \<Rightarrow> digest \<times> u8 \<times> u8 \<Rightarrow> u8 list \<Rightarrow> (digest \<times> u8 \<times> u8, code_object) fmap \<Rightarrow>
     (digest \<times> u8 \<times> u8, code_object) fmap res" where
  "reference_code env new_key code t =
     (case db_find t new_key of
        Some new_code_entry \<Rightarrow>
          Inr (db_modify t new_key (new_code_entry\<lparr> code_ref_count := code_ref_count new_code_entry + 1 \<rparr>))
      | None \<Rightarrow>
          db_create t new_key \<lparr> code_bytes = code, code_ref_count = 1, first_block_used = env_head_block_num env + 1 \<rparr>)"

definition setcode_hash :: "apply_env \<Rightarrow> setcode \<Rightarrow> digest" where
  "setcode_hash env sc = (if length (sc_code sc) > 0 then env_sha256 env (sc_code sc) else digest_default)"

definition setcode_tables ::
    "apply_env \<Rightarrow> setcode \<Rightarrow> account_metadata_object \<Rightarrow> (digest \<times> u8 \<times> u8, code_object) fmap \<Rightarrow>
     (u64 \<times> (digest \<times> u8 \<times> u8, code_object) fmap) res" where
  "setcode_tables env sc account t =
     (let code_hash = setcode_hash env sc; existing_code = (md_code_hash account \<noteq> digest_default) in
      rbind (if existing_code
             then release_code (md_code_hash account, md_vm_type account, md_vm_version account) code_hash t
             else Inr (0, t)) (\<lambda>(old_size, t).
      rbind (if length (sc_code sc) > 0 then reference_code env (code_hash, sc_vmtype sc, sc_vmversion sc) (sc_code sc) t
             else Inr t) (\<lambda>t.
      Inr (old_size, t))))"

definition charge_size_change :: "name \<Rightarrow> i64 \<Rightarrow> i64 \<Rightarrow> system_state \<Rightarrow> system_state res" where
  "charge_size_change account new_size old_size s =
     (if new_size \<noteq> old_size then add_ram_usage account (new_size - old_size) s else Inr s)"

definition apply_eosio_setcode :: "apply_env \<Rightarrow> action \<Rightarrow> system_state \<Rightarrow> system_state res" where
  "apply_eosio_setcode env act s =
     rbind (eos_assert (\<not> env_read_only env) Action_Validate_Exception) (\<lambda>_.
     rbind (as_setcode act) (\<lambda>sc.
     rbind (require_authorization act (sc_account sc)) (\<lambda>_.
     rbind (eos_assert (sc_vmtype sc = 0) Invalid_Contract_Vm_Type) (\<lambda>_.
     rbind (eos_assert (sc_vmversion sc = 0) Invalid_Contract_Vm_Version) (\<lambda>_.
     rbind (if length (sc_code sc) > 0 then env_wasm_validate env (sc_code sc) else Inr ()) (\<lambda>_.
     rbind (db_get (account_metadata s) (sc_account sc)) (\<lambda>account.
     rbind (eos_assert (length (sc_code sc) > 0 \<or> md_code_hash account \<noteq> digest_default) Set_Exact_Code) (\<lambda>_.
     rbind (setcode_tables env sc account (codes s)) (\<lambda>(old_size, t).
     charge_size_change (sc_account sc) (of_nat (length (sc_code sc)) * setcode_ram_bytes_multiplier) old_size
       (s\<lparr> codes := t,
           account_metadata := db_modify (account_metadata s) (sc_account sc)
             (account\<lparr> code_sequence := code_sequence account + 1, md_code_hash := setcode_hash env sc,
                       md_vm_type := sc_vmtype sc, md_vm_version := sc_vmversion sc,
                       last_code_update := pending_block_time (env_control env) \<rparr>) \<rparr>))))))))))"

definition apply_eosio_setabi :: "apply_env \<Rightarrow> action \<Rightarrow> system_state \<Rightarrow> system_state res" where
  "apply_eosio_setabi env act s =
     rbind (eos_assert (\<not> env_read_only env) Action_Validate_Exception) (\<lambda>_.
     rbind (as_setabi act) (\<lambda>sa.
     rbind (require_authorization act (sa_account sa)) (\<lambda>_.
     rbind (db_get (accounts s) (sa_account sa)) (\<lambda>account.
     rbind (db_get (account_metadata s) (sa_account sa)) (\<lambda>md.
     charge_size_change (sa_account sa) (of_nat (length (sa_abi sa))) (of_nat (length (acc_abi account)))
       (s\<lparr> accounts := db_modify (accounts s) (sa_account sa) (account\<lparr> acc_abi := sa_abi sa \<rparr>),
           account_metadata := db_modify (account_metadata s) (sa_account sa)
             (md\<lparr> abi_sequence := abi_sequence md + 1 \<rparr>) \<rparr>))))))"

text \<open>What a permission is billed for.\<close>

definition permission_size :: "apply_env \<Rightarrow> authority \<Rightarrow> i64" where
  "permission_size env auth = billable_size_permission_object + get_billable_size (env_key_size env) auth"

definition check_updateauth_names :: "updateauth \<Rightarrow> unit res" where
  "check_updateauth_names update =
     rbind (if ua_permission update = active_name
            then eos_assert (ua_parent update = owner_name) Action_Validate_Exception else Inr ()) (\<lambda>_.
     if ua_permission update = owner_name
     then eos_assert (name_empty (ua_parent update)) Action_Validate_Exception
     else eos_assert (\<not> name_empty (ua_parent update)) Action_Validate_Exception)"

definition apply_eosio_updateauth :: "apply_env \<Rightarrow> action \<Rightarrow> system_state \<Rightarrow> system_state res" where
  "apply_eosio_updateauth env act s =
     rbind (eos_assert (\<not> env_read_only env) Action_Validate_Exception) (\<lambda>_.
     rbind (as_updateauth act) (\<lambda>update.
     rbind (require_authorization act (ua_account update)) (\<lambda>_.
     rbind (eos_assert (\<not> name_empty (ua_permission update)) Action_Validate_Exception) (\<lambda>_.
     rbind (eos_assert (\<not> has_eosio_prefix (ua_permission update)) Action_Validate_Exception) (\<lambda>_.
     rbind (eos_assert (ua_permission update \<noteq> ua_parent update) Action_Validate_Exception) (\<lambda>_.
     rbind (db_get (accounts s) (ua_account update)) (\<lambda>_.
     rbind (eos_assert (validate (ua_auth update)) Action_Validate_Exception) (\<lambda>_.
     rbind (check_updateauth_names update) (\<lambda>_.
     rbind (if auth_waits (ua_auth update) = [] then Inr ()
            else eos_assert (wait_sec (last (auth_waits (ua_auth update))) \<le> max_transaction_delay (env_control env))
                   Action_Validate_Exception) (\<lambda>_.
     rbind (validate_authority_precondition env (ua_auth update) s) (\<lambda>_.
     rbind (find_permission (Permission_Level (ua_account update) (ua_permission update)) (authz s)) (\<lambda>found.
     rbind (if ua_permission update = owner_name then Inr 0
            else rbind (get_permission (Permission_Level (ua_account update) (ua_parent update)) (authz s)) (\<lambda>parent.
                 Inr (perm_id parent))) (\<lambda>parent.
     case found of
       Some perm \<Rightarrow>
         rbind (eos_assert (parent = parent_id perm) Action_Validate_Exception) (\<lambda>_.
         let old_size = permission_size env (perm_auth perm) in
         rbind (modify_permission (env_control env) perm (ua_auth update) (authz s)) (\<lambda>az.
         add_ram_usage (perm_owner perm) (permission_size env (ua_auth update) - old_size) (s\<lparr> authz := az \<rparr>)))
     | None \<Rightarrow>
         rbind (create_permission (env_control env) (ua_account update) (ua_permission update) parent (ua_auth update) 0 (authz s)) (\<lambda>(p, az).
         add_ram_usage (ua_account update) (permission_size env (perm_auth p)) (s\<lparr> authz := az \<rparr>)))))))))))))))"

definition apply_eosio_deleteauth :: "apply_env \<Rightarrow> action \<Rightarrow> system_state \<Rightarrow> system_state res" where
  "apply_eosio_deleteauth env act s =
     rbind (eos_assert (\<not> env_read_only env) Action_Validate_Exception) (\<lambda>_.
     rbind (as_deleteauth act) (\<lambda>rem.
     rbind (require_authorization act (da_account rem)) (\<lambda>_.
     rbind (eos_assert (da_permission rem \<noteq> active_name) Action_Validate_Exception) (\<lambda>_.
     rbind (eos_assert (da_permission rem \<noteq> owner_name) Action_Validate_Exception) (\<lambda>_.
     rbind (eos_assert (\<not> fBex (fmdom (permission_links (authz s)))
              (\<lambda>k. fst k = da_account rem \<and> fmlookup (permission_links (authz s)) k = Some (da_permission rem)))
              Action_Validate_Exception) (\<lambda>_.
     rbind (get_permission (Permission_Level (da_account rem) (da_permission rem)) (authz s)) (\<lambda>perm.
     let old_size = permission_size env (perm_auth perm) in
     rbind (remove_permission perm (authz s)) (\<lambda>az.
     add_ram_usage (da_account rem) (- old_size) (s\<lparr> authz := az \<rparr>)))))))))"

definition link_target_exists :: "control_state \<Rightarrow> linkauth \<Rightarrow> authorization_manager \<Rightarrow> bool" where
  "link_target_exists ctl req m \<longleftrightarrow>
     (if only_link_to_existing_permission ctl
      then find_by perm_key (permissions m) (la_account req, la_requirement req) \<noteq> None
      else find_by perm_name (permissions m) (la_requirement req) \<noteq> None)"

definition apply_eosio_linkauth :: "apply_env \<Rightarrow> action \<Rightarrow> system_state \<Rightarrow> system_state res" where
  "apply_eosio_linkauth env act s =
     rbind (eos_assert (\<not> env_read_only env) Action_Validate_Exception) (\<lambda>_.
     rbind (as_linkauth act) (\<lambda>req.
     rbind (eos_assert (\<not> name_empty (la_requirement req)) Action_Validate_Exception) (\<lambda>_.
     rbind (require_authorization act (la_account req)) (\<lambda>_.
     rbind (eos_assert (db_find (accounts s) (la_account req) \<noteq> None) Account_Query_Exception) (\<lambda>_.
     rbind (eos_assert (db_find (accounts s) (la_code req) \<noteq> None) Account_Query_Exception) (\<lambda>_.
     rbind (if la_requirement req = eosio_any_name then Inr ()
            else eos_assert (link_target_exists (env_control env) req (authz s)) Permission_Query_Exception) (\<lambda>_.
     let link_key = (la_account req, la_code req, la_type req); links = permission_links (authz s) in
     case db_find links link_key of
       Some required_permission \<Rightarrow>
         rbind (eos_assert (required_permission \<noteq> la_requirement req) Action_Validate_Exception) (\<lambda>_.
         Inr (s\<lparr> authz := (authz s)\<lparr> permission_links := db_modify links link_key (la_requirement req) \<rparr> \<rparr>))
     | None \<Rightarrow>
         rbind (db_create links link_key (la_requirement req)) (\<lambda>links.
         add_ram_usage (la_account req) billable_size_permission_link_object
           (s\<lparr> authz := (authz s)\<lparr> permission_links := links \<rparr> \<rparr>)))))))))"

definition apply_eosio_unlinkauth :: "apply_env \<Rightarrow> action \<Rightarrow> system_state \<Rightarrow> system_state res" where
  "apply_eosio_unlinkauth env act s =
     rbind (eos_assert (\<not> env_read_only env) Action_Validate_Exception) (\<lambda>_.
     rbind (as_unlinkauth act) (\<lambda>unlink.
     rbind (require_authorization act (ula_account unlink)) (\<lambda>_.
     let link_key = (ula_account unlink, ula_code unlink, ula_type unlink) in
     rbind (eos_assert (db_find (permission_links (authz s)) link_key \<noteq> None) Action_Validate_Exception) (\<lambda>_.
     rbind (add_ram_usage (ula_account unlink) (- billable_size_permission_link_object) s) (\<lambda>s.
     Inr (s\<lparr> authz := (authz s)\<lparr> permission_links := db_remove (permission_links (authz s)) link_key \<rparr> \<rparr>))))))"

definition apply_eosio_canceldelay :: "apply_env \<Rightarrow> action \<Rightarrow> system_state \<Rightarrow> system_state res" where
  "apply_eosio_canceldelay env act s =
     rbind (eos_assert (\<not> env_read_only env) Action_Validate_Exception) (\<lambda>_.
     rbind (as_canceldelay act) (\<lambda>cancel.
     rbind (require_authorization act (actor (canceling_auth cancel))) (\<lambda>_.
     rbind (cancel_deferred_transaction env (transaction_id_to_sender_id (cd_trx_id cancel)) (Name 0) s) (\<lambda>(_, s).
     Inr s))))"

section \<open>The first accounts\<close>

definition null_account_name :: name where "null_account_name = n_of ''eosio.null''"
definition producers_account_name :: name where "producers_account_name = n_of ''eosio.prods''"
definition majority_producers_permission_name :: name where "majority_producers_permission_name = n_of ''prod.major''"
definition minority_producers_permission_name :: name where "minority_producers_permission_name = n_of ''prod.minor''"

text \<open>The ABI that the system account starts with is a generated constant, here a parameter.\<close>

definition create_native_account ::
    "apply_env \<Rightarrow> u8 list \<Rightarrow> i64 \<Rightarrow> name \<Rightarrow> authority \<Rightarrow> authority \<Rightarrow> bool \<Rightarrow> system_state \<Rightarrow> system_state res" where
  "create_native_account env eosio_abi_bin initial_timestamp name owner active privileged s =
     rbind (db_create (accounts s) name
              \<lparr> creation_date = set_time_point initial_timestamp,
                acc_abi = (if name = system_account_name then eosio_abi_bin else []) \<rparr>) (\<lambda>accs.
     rbind (db_create (account_metadata s) name (set_privileged privileged new_account_metadata)) (\<lambda>mds.
     rbind (create_permission (env_control env) name owner_name 0 owner initial_timestamp (authz s)) (\<lambda>(owner_permission, az).
     rbind (create_permission (env_control env) name active_name (perm_id owner_permission) active initial_timestamp az) (\<lambda>(active_permission, az).
     rbind (initialize_account name (rlm s)) (\<lambda>rl.
     let ram_delta = overhead_per_account_ram_bytes + 2 * billable_size_permission_object
           + get_billable_size (env_key_size env) (perm_auth owner_permission)
           + get_billable_size (env_key_size env) (perm_auth active_permission)
     in
     rbind (add_pending_ram_usage name ram_delta rl) (\<lambda>rl.
     rbind (verify_account_ram_usage name rl) (\<lambda>_.
     Inr (s\<lparr> accounts := accs, account_metadata := mds, authz := az, rlm := rl \<rparr>))))))))"

definition empty_system_state :: system_state where
  "empty_system_state = \<lparr> accounts = fmempty, account_metadata = fmempty, codes = fmempty,
     authz = auth_initialize_database, rlm = initialize_database, validate_ram_usage = {||}, account_ram_deltas = fmempty \<rparr>"

definition initialize_native_accounts :: "apply_env \<Rightarrow> u8 list \<Rightarrow> i64 \<Rightarrow> public_key \<Rightarrow> system_state res" where
  "initialize_native_accounts env eosio_abi_bin initial_timestamp initial_key =
     (let system_auth = authority_of_key initial_key 0;
          empty_authority = \<lparr> threshold = 1, auth_keys = [], auth_accounts = [], auth_waits = [] \<rparr>;
          active_producers_authority = empty_authority\<lparr> auth_accounts :=
            [\<lparr> plw_permission = Permission_Level system_account_name active_name, plw_weight = 1 \<rparr>] \<rparr>
      in
      rbind (create_native_account env eosio_abi_bin initial_timestamp system_account_name system_auth system_auth True empty_system_state) (\<lambda>s.
      rbind (create_native_account env eosio_abi_bin initial_timestamp null_account_name empty_authority empty_authority False s) (\<lambda>s.
      rbind (create_native_account env eosio_abi_bin initial_timestamp producers_account_name empty_authority active_producers_authority False s) (\<lambda>s.
      rbind (get_permission (Permission_Level producers_account_name active_name) (authz s)) (\<lambda>active_permission.
      rbind (create_permission (env_control env) producers_account_name majority_producers_permission_name
               (perm_id active_permission) active_producers_authority initial_timestamp (authz s)) (\<lambda>(majority_permission, az).
      rbind (create_permission (env_control env) producers_account_name minority_producers_permission_name
               (perm_id majority_permission) active_producers_authority initial_timestamp az) (\<lambda>(_, az).
      Inr (s\<lparr> authz := az \<rparr>))))))))"

text \<open>
  The native actions as a transition system: the chain starts with the native accounts and applies
  native actions, each with the environment of its block. The actions that fail leave no trace.
\<close>

definition find_apply_handler :: "name \<Rightarrow> name \<Rightarrow> name \<Rightarrow> (apply_env \<Rightarrow> action \<Rightarrow> system_state \<Rightarrow> system_state res) option" where
  "find_apply_handler receiver contract action_nm =
     (if receiver \<noteq> system_account_name \<or> contract \<noteq> system_account_name then None
      else map_of
        [(newaccount_name, apply_eosio_newaccount), (setcode_name, apply_eosio_setcode), (setabi_name, apply_eosio_setabi),
         (updateauth_name, apply_eosio_updateauth), (deleteauth_name, apply_eosio_deleteauth),
         (linkauth_name, apply_eosio_linkauth), (unlinkauth_name, apply_eosio_unlinkauth),
         (canceldelay_name, apply_eosio_canceldelay)] action_nm)"

text \<open>The native part of \<^verbatim>\<open>exec_one\<close> when the receiver is the system account.\<close>

definition apply_native :: "apply_env \<Rightarrow> action \<Rightarrow> system_state \<Rightarrow> system_state res" where
  "apply_native env act s =
     (case find_apply_handler system_account_name (act_account act) (act_name act) of
        None \<Rightarrow> Inr s
      | Some handler \<Rightarrow> handler env act s)"

lemma system_name_values [code]:
  "null_account_name = Name 6138663588472832000"
  "producers_account_name = Name 6138663589497696256"
  "majority_producers_permission_name = Name 12531424605554196480"
  "minority_producers_permission_name = Name 12531424609916272640"
  unfolding null_account_name_def producers_account_name_def majority_producers_permission_name_def
    minority_producers_permission_name_def
  by (simp_all add: n_of_def string_to_uint64_t_def char_to_symbol_def upt_conv_Cons push_bit_eq_mult)

end
