(* ===== verification/Authorization_Facts.thy ===== *)
theory Authorization_Facts
  imports Authorization
begin

text \<open>
  The permission tree and its invariant, preserved by the operations that create, modify and remove
  permissions, and what an accepted authorization check establishes.
\<close>

section \<open>The permission tree\<close>

text \<open>
  Well-formed tables: ids and (owner, name) pairs are unique and below the next id, permission 0 is there,
  and every other permission has a parent that is older than itself and, unless it is permission 0, of
  the same account; the permissions without a parent are those named owner.
\<close>

definition perm_ok :: "permission_object list \<Rightarrow> permission_object \<Rightarrow> bool" where
  "perm_ok ps p \<longleftrightarrow>
     (if perm_id p = 0 then parent_id p = 0 \<and> perm_key p = (Name 0, Name 0)
      else parent_id p < perm_id p \<and> perm_owner p \<noteq> Name 0 \<and> perm_name p \<noteq> Name 0 \<and>
        (parent_id p = 0 \<longleftrightarrow> perm_name p = owner_name) \<and>
        (\<exists>q \<in> set ps. perm_id q = parent_id p \<and> (parent_id p \<noteq> 0 \<longrightarrow> perm_owner q = perm_owner p)))"

definition perms_ok :: "permission_object list \<Rightarrow> nat \<Rightarrow> bool" where
  "perms_ok ps next_id \<longleftrightarrow>
     distinct (map perm_id ps) \<and> distinct (map perm_key ps) \<and> (\<exists>r \<in> set ps. perm_id r = 0) \<and>
     (\<forall>p \<in> set ps. perm_id p < next_id \<and> perm_ok ps p)"

definition parent_rel :: "permission_object list \<Rightarrow> (nat \<times> nat) set" where
  "parent_rel ps = {(parent_id p, perm_id p) | p. p \<in> set ps \<and> perm_id p \<noteq> 0}"

lemma perms_okD:
  assumes "perms_ok ps n"
  shows "distinct (map perm_id ps)" "distinct (map perm_key ps)" "\<exists>r \<in> set ps. perm_id r = 0"
    "p \<in> set ps \<Longrightarrow> perm_id p < n" "p \<in> set ps \<Longrightarrow> perm_ok ps p"
  using assms by (simp_all add: perms_ok_def)

lemma perm_id_inject: "perms_ok ps n \<Longrightarrow> p \<in> set ps \<Longrightarrow> q \<in> set ps \<Longrightarrow> perm_id p = perm_id q \<longleftrightarrow> p = q"
  using perms_okD(1) by (auto simp: distinct_map inj_on_def)

lemma perm_key_inject: "perms_ok ps n \<Longrightarrow> p \<in> set ps \<Longrightarrow> q \<in> set ps \<Longrightarrow> perm_key p = perm_key q \<longleftrightarrow> p = q"
  using perms_okD(2) by (auto simp: distinct_map inj_on_def)

lemma parent_in_table:
  assumes "perms_ok ps n" "p \<in> set ps"
  obtains q where "q \<in> set ps" "perm_id q = parent_id p" "find_by perm_id ps (parent_id p) = Some q"
proof -
  obtain q where q: "q \<in> set ps" "perm_id q = parent_id p"
    using perms_okD(3,5) [OF assms(1)] assms(2) by (fastforce simp: perm_ok_def split: if_splits)
  moreover have "find_by perm_id ps (parent_id p) = Some q"
    using q find_by_Some_iff [OF perms_okD(1) [OF assms(1)]] by simp
  ultimately show ?thesis using that by blast
qed

lemma parent_rel_step:
  assumes "perms_ok ps n" "q \<in> set ps"
  shows "(i, perm_id q) \<in> (parent_rel ps)\<^sup>+ \<longleftrightarrow>
    perm_id q \<noteq> 0 \<and> (i = parent_id q \<or> (i, parent_id q) \<in> (parent_rel ps)\<^sup>+)"
proof -
  have edge: "(j, perm_id q) \<in> parent_rel ps \<longleftrightarrow> perm_id q \<noteq> 0 \<and> j = parent_id q" for j
  proof
    assume "(j, perm_id q) \<in> parent_rel ps"
    then obtain p where p: "p \<in> set ps" "perm_id p \<noteq> 0" "j = parent_id p" "perm_id p = perm_id q"
      by (auto simp: parent_rel_def)
    then have "p = q" using perm_id_inject [OF assms(1) p(1) assms(2)] by simp
    with p show "perm_id q \<noteq> 0 \<and> j = parent_id q" by simp
  qed (use assms(2) in \<open>auto simp: parent_rel_def\<close>)
  show ?thesis
    using edge by (metis tranclE r_into_trancl trancl.trancl_into_trancl)
qed

lemma parent_rel_less:
  assumes "(i, j) \<in> (parent_rel ps)\<^sup>+" "perms_ok ps n"
  shows "i < j"
proof -
  have edge: "a < b" if ab: "(a, b) \<in> parent_rel ps" for a b
  proof -
    obtain p where "p \<in> set ps" "perm_id p \<noteq> 0" "a = parent_id p" "b = perm_id p"
      using ab by (auto simp: parent_rel_def)
    then show ?thesis using perms_okD(5) [OF assms(2), of p] by (simp add: perm_ok_def)
  qed
  show ?thesis using assms(1) by (induction rule: trancl_induct) (auto dest: edge)
qed

text \<open>Objects below a given one, the bound on the walk.\<close>

definition older :: "permission_object list \<Rightarrow> permission_object \<Rightarrow> nat" where
  "older ps q = card {r \<in> set ps. perm_id r \<le> perm_id q}"

lemma older_length: "older ps q \<le> length ps"
proof -
  have "older ps q \<le> card (set ps)" unfolding older_def by (rule card_mono) auto
  then show ?thesis using card_length [of ps] by linarith
qed

lemma older_parent:
  assumes "perms_ok ps n" "q \<in> set ps" "r \<in> set ps" "perm_id r < perm_id q"
  shows "older ps r < older ps q"
proof -
  have "q \<in> {r \<in> set ps. perm_id r \<le> perm_id q}" "q \<notin> {s \<in> set ps. perm_id s \<le> perm_id r}"
    using assms(2,4) by simp_all
  moreover have "{s \<in> set ps. perm_id s \<le> perm_id r} \<subseteq> {s \<in> set ps. perm_id s \<le> perm_id q}"
    using assms(4) by auto
  ultimately have "{s \<in> set ps. perm_id s \<le> perm_id r} \<subset> {s \<in> set ps. perm_id s \<le> perm_id q}"
    by blast
  then show ?thesis unfolding older_def by (intro psubset_card_mono) simp_all
qed

lemma satisfies_walk_iff:
  assumes "perms_ok ps n" "i \<noteq> 0" "q \<in> set ps" "older ps q \<le> fuel"
  shows "satisfies_walk fuel ps i q = Inr ((i, perm_id q) \<in> (parent_rel ps)\<^sup>+)"
  using assms(3,4)
proof (induction fuel arbitrary: q)
  case 0
  then have "{r \<in> set ps. perm_id r \<le> perm_id q} = {}" by (simp add: older_def)
  then show ?case using 0 by blast
next
  case (Suc fuel)
  note step = parent_rel_step [OF assms(1) Suc.prems(1), of i]
  have root: "(i, 0) \<notin> (parent_rel ps)\<^sup>+" using parent_rel_less [OF _ assms(1)] by blast
  have ok: "perm_ok ps q" using perms_okD(5) [OF assms(1) Suc.prems(1)] .
  show ?case
  proof (cases "i = parent_id q \<or> parent_id q = 0")
    case True
    then show ?thesis using step root ok assms(2) by (auto simp: perm_ok_def split: if_splits)
  next
    case False
    obtain r where r: "r \<in> set ps" "perm_id r = parent_id q" "find_by perm_id ps (parent_id q) = Some r"
      using parent_in_table [OF assms(1) Suc.prems(1)] .
    have lt: "perm_id r < perm_id q" "perm_id q \<noteq> 0" using ok r(2) False by (auto simp: perm_ok_def split: if_splits)
    then have "older ps r \<le> fuel" using older_parent [OF assms(1) Suc.prems(1) r(1)] Suc.prems(2) by simp
    then show ?thesis using Suc.IH [OF r(1)] step False r lt by simp
  qed
qed

lemma perm_satisfies_ok:
  assumes "perms_ok ps n" "this \<in> set ps" "other \<in> set ps"
  shows "perm_satisfies this other ps =
    Inr (perm_owner this = perm_owner other \<and> (perm_id this, perm_id other) \<in> (parent_rel ps)\<^sup>*)"
proof (cases "perm_owner this = perm_owner other \<and> perm_id this \<noteq> perm_id other \<and> perm_id this \<noteq> parent_id other")
  case False
  have "(parent_id other, perm_id other) \<in> (parent_rel ps)\<^sup>*"
  proof (cases "perm_id other = 0")
    case True
    then show ?thesis using perms_okD(5) [OF assms(1,3)] by (simp add: perm_ok_def)
  next
    case False
    then show ?thesis using assms(3) by (intro r_into_rtrancl) (auto simp: parent_rel_def)
  qed
  then show ?thesis using False by (auto simp: perm_satisfies_def)
next
  case True
  have nz: "perm_id this \<noteq> 0"
    using perms_okD(5) [OF assms(1,2)] perms_okD(5) [OF assms(1,3)] True
    by (auto simp: perm_ok_def perm_key_def split: if_splits)
  obtain r where r: "r \<in> set ps" "perm_id r = parent_id other" "find_by perm_id ps (parent_id other) = Some r"
    using parent_in_table [OF assms(1,3)] .
  have root: "(perm_id this, 0) \<notin> (parent_rel ps)\<^sup>+" using parent_rel_less [OF _ assms(1)] by blast
  have "satisfies_walk (length ps) ps (perm_id this) r = Inr ((perm_id this, parent_id other) \<in> (parent_rel ps)\<^sup>+)"
    using satisfies_walk_iff [OF assms(1) nz r(1) older_length] r(2) by simp
  moreover have "(perm_id this, perm_id other) \<in> (parent_rel ps)\<^sup>* \<longleftrightarrow> (perm_id this, parent_id other) \<in> (parent_rel ps)\<^sup>+"
    using parent_rel_step [OF assms(1,3), of "perm_id this"] True root perms_okD(5) [OF assms(1,3)]
    by (auto simp: rtrancl_eq_or_trancl perm_ok_def split: if_splits)
  ultimately show ?thesis using True r(3) by (simp add: perm_satisfies_def)
qed

text \<open>Every permission of an account descends from its only permission without a parent.\<close>

lemma root_reaches:
  assumes "perms_ok ps n" "p \<in> set ps" "perm_id p \<noteq> 0"
  obtains r where "r \<in> set ps" "perm_id r \<noteq> 0" "parent_id r = 0" "perm_owner r = perm_owner p"
    "(perm_id r, perm_id p) \<in> (parent_rel ps)\<^sup>*"
  using assms(2,3)
proof (induction "perm_id p" arbitrary: p thesis rule: less_induct)
  case less
  have ok: "perm_ok ps p" using perms_okD(5) [OF assms(1) less.prems(2)] .
  show ?case
  proof (cases "parent_id p = 0")
    case True
    then show ?thesis using less.prems(1) [of p] less.prems(2,3) by simp
  next
    case False
    obtain q where q: "q \<in> set ps" "perm_id q = parent_id p" "perm_owner q = perm_owner p"
      using ok False less.prems(3) by (auto simp: perm_ok_def)
    have lt: "perm_id q < perm_id p" "perm_id q \<noteq> 0" using ok q False less.prems(3) by (auto simp: perm_ok_def)
    obtain r where r: "r \<in> set ps" "perm_id r \<noteq> 0" "parent_id r = 0" "perm_owner r = perm_owner q"
      "(perm_id r, perm_id q) \<in> (parent_rel ps)\<^sup>*"
      using less.hyps [OF lt(1) _ q(1) lt(2)] by blast
    have "(perm_id q, perm_id p) \<in> parent_rel ps" using q less.prems by (auto simp: parent_rel_def)
    with r(5) have "(perm_id r, perm_id p) \<in> (parent_rel ps)\<^sup>*" by (rule rtrancl.rtrancl_into_rtrancl)
    then show ?thesis using less.prems(1) [of r] r(1-4) q(3) by simp
  qed
qed

section \<open>Well-formed managers\<close>

text \<open>The usage records: one per permission, none shared.\<close>

definition live :: "permission_object list \<Rightarrow> permission_object list" where
  "live ps = filter (\<lambda>p. perm_id p \<noteq> 0) ps"

definition usages_ok :: "authorization_manager \<Rightarrow> bool" where
  "usages_ok m \<longleftrightarrow>
     (\<forall>u. db_find (permission_usages m) u \<noteq> None \<longrightarrow> u < next_usage_id m) \<and>
     (\<forall>p \<in> set (live (permissions m)). db_find (permission_usages m) (usage_id p) \<noteq> None) \<and>
     distinct (map usage_id (live (permissions m)))"

lemma usages_okI:
  assumes "\<And>u. db_find (permission_usages m) u \<noteq> None \<Longrightarrow> u < next_usage_id m"
    and "\<And>p. p \<in> set (live (permissions m)) \<Longrightarrow> db_find (permission_usages m) (usage_id p) \<noteq> None"
    and "distinct (map usage_id (live (permissions m)))"
  shows "usages_ok m"
  using assms by (auto simp: usages_ok_def)

lemma usages_okD:
  assumes "usages_ok m"
  shows "db_find (permission_usages m) u \<noteq> None \<Longrightarrow> u < next_usage_id m"
    and "p \<in> set (live (permissions m)) \<Longrightarrow> db_find (permission_usages m) (usage_id p) \<noteq> None"
    and "distinct (map usage_id (live (permissions m)))"
  using assms by (auto simp: usages_ok_def)

definition auth_ok :: "authorization_manager \<Rightarrow> bool" where
  "auth_ok m \<longleftrightarrow> perms_ok (permissions m) (next_permission_id m) \<and> usages_ok m"

lemma auth_okD:
  assumes "auth_ok m"
  shows "perms_ok (permissions m) (next_permission_id m)" "usages_ok m"
  using assms by (simp_all add: auth_ok_def)

lemma auth_ok_initialize: "auth_ok auth_initialize_database"
  by (simp add: auth_ok_def perms_ok_def perm_ok_def usages_ok_def live_def auth_initialize_database_def perm_key_def db_find_def)

text \<open>A permission as \<open>create_permission\<close> makes it, under the conditions its callers establish.\<close>

definition may_create :: "permission_object list \<Rightarrow> name \<Rightarrow> name \<Rightarrow> nat \<Rightarrow> bool" where
  "may_create ps account name parent \<longleftrightarrow>
     account \<noteq> Name 0 \<and> name \<noteq> Name 0 \<and> (parent = 0 \<longleftrightarrow> name = owner_name) \<and>
     (parent \<noteq> 0 \<longrightarrow> (\<exists>q \<in> set ps. perm_id q = parent \<and> perm_owner q = account))"

lemma perm_ok_mono: "perm_ok ps p \<Longrightarrow> set ps \<subseteq> set qs \<Longrightarrow> perm_ok qs p"
  by (auto simp: perm_ok_def split: if_splits)

lemma perms_ok_append:
  assumes ok: "perms_ok ps n" and new: "may_create ps (perm_owner p) (perm_name p) (parent_id p)"
    and id: "perm_id p = n" and fresh: "find_by perm_key ps (perm_key p) = None"
  shows "perms_ok (ps @ [p]) (n + 1)"
proof -
  have "n > 0" using perms_okD(3,4) [OF ok] by fastforce
  moreover obtain q where q: "q \<in> set ps" "perm_id q = parent_id p" "parent_id p \<noteq> 0 \<longrightarrow> perm_owner q = perm_owner p"
    using new perms_okD(3) [OF ok] by (cases "parent_id p = 0") (auto simp: may_create_def)
  moreover have "parent_id p < n" using perms_okD(4) [OF ok q(1)] q(2) by simp
  ultimately have "perm_ok (ps @ [p]) p"
    using new id unfolding perm_ok_def may_create_def by auto
  moreover have "perm_id p \<notin> perm_id ` set ps" using id perms_okD(4) [OF ok] by fastforce
  moreover have "perm_key p \<notin> perm_key ` set ps" using fresh by (simp add: find_by_None)
  ultimately show ?thesis
    using ok id perm_ok_mono [of ps _ "ps @ [p]"] by (fastforce simp: perms_ok_def)
qed

lemma create_permission_Inr:
  assumes "create_permission ctl account name parent auth t m = Inr (p, m')"
  shows "perm_id p = next_permission_id m" "usage_id p = next_usage_id m" "parent_id p = parent"
    "perm_owner p = account" "perm_name p = name" "perm_auth p = auth"
    "permissions m' = permissions m @ [p]" "next_permission_id m' = next_permission_id m + 1"
    "next_usage_id m' = next_usage_id m + 1" "permission_links m' = permission_links m"
    "generated_transactions m' = generated_transactions m"
    "\<exists>time. permission_usages m' = db_modify (permission_usages m) (next_usage_id m) time"
    "find_by perm_key (permissions m) (account, name) = None"
  using assms by (auto simp: create_permission_def Let_def perm_key_def)

lemma auth_ok_create:
  assumes ok: "auth_ok m" and new: "may_create (permissions m) account name parent"
    and c: "create_permission ctl account name parent auth t m = Inr (p, m')"
  shows "auth_ok m'"
proof -
  note c' = create_permission_Inr [OF c]
  have perms: "perms_ok (permissions m') (next_permission_id m')"
    unfolding c'(7,8) by (rule perms_ok_append)
      (use auth_okD [OF ok] new c' in \<open>simp_all add: perm_key_def\<close>)
  have old: "usage_id q < next_usage_id m" if "q \<in> set (live (permissions m))" for q
    using that usages_okD(1,2) [OF auth_okD(2) [OF ok]] by blast
  have live: "live (permissions m') = live (permissions m) @ live [p]" by (simp add: live_def c'(7))
  have "usages_ok m'"
  proof (rule usages_okI)
    fix u assume "db_find (permission_usages m') u \<noteq> None"
    then show "u < next_usage_id m'"
      using c'(9,12) usages_okD(1) [OF auth_okD(2) [OF ok], of u] by (auto split: if_splits)
  next
    fix q assume "q \<in> set (live (permissions m'))"
    then show "db_find (permission_usages m') (usage_id q) \<noteq> None"
      using c'(2,12) usages_okD(2) [OF auth_okD(2) [OF ok], of q]
      by (auto simp: live) (auto simp: live_def split: if_splits)
  next
    have "next_usage_id m \<notin> usage_id ` set (live (permissions m))" using old by fastforce
    then show "distinct (map usage_id (live (permissions m')))"
      using usages_okD(3) [OF auth_okD(2) [OF ok]] c'(2) unfolding live by (auto simp: live_def)
  qed
  with perms show ?thesis by (simp add: auth_ok_def)
qed

lemma modify_permission_Inr:
  assumes "modify_permission ctl p auth m = Inr m'"
  shows "m' = m\<lparr> permissions := modify_by perm_id (permissions m)
                    (p\<lparr> perm_auth := auth, last_updated := pending_block_time ctl \<rparr>) \<rparr>"
  using assms by (simp add: modify_permission_def)

text \<open>Replacing an object by one that differs in its authority and update time only.\<close>

definition same_node :: "permission_object \<Rightarrow> permission_object \<Rightarrow> bool" where
  "same_node p q \<longleftrightarrow> perm_id p = perm_id q \<and> usage_id p = usage_id q \<and> parent_id p = parent_id q \<and>
     perm_owner p = perm_owner q \<and> perm_name p = perm_name q"

lemma same_node_iff:
  "same_node p q \<longleftrightarrow> perm_id p = perm_id q \<and> usage_id p = usage_id q \<and> parent_id p = parent_id q \<and> perm_key p = perm_key q"
  by (auto simp: same_node_def perm_key_def)

lemma perms_ok_cong:
  assumes "list_all2 same_node ps qs" "perms_ok ps n"
  shows "perms_ok qs n"
proof -
  have ids: "map perm_id qs = map perm_id ps" and keys: "map perm_key qs = map perm_key ps"
    using assms(1) by (induction rule: list_all2_induct) (auto simp: same_node_iff)
  have from_new: "\<exists>p \<in> set ps. same_node p q" if "q \<in> set qs" for q
    using assms(1) that by (metis in_set_conv_nth list_all2_conv_all_nth)
  have to_new: "\<exists>q \<in> set qs. same_node p q" if "p \<in> set ps" for p
    using assms(1) that by (metis in_set_conv_nth list_all2_conv_all_nth)
  have "perm_id q < n \<and> perm_ok qs q" if q: "q \<in> set qs" for q
  proof -
    obtain p where p: "p \<in> set ps" "same_node p q" using from_new [OF q] by blast
    have "perm_ok ps p" "perm_id p < n" using perms_okD(4,5) [OF assms(2) p(1)] by simp_all
    then show ?thesis
      using p(2) to_new unfolding perm_ok_def same_node_def perm_key_def
      by (auto split: if_splits) (metis (no_types, lifting))+
  qed
  moreover have "\<exists>r \<in> set qs. perm_id r = 0"
    using perms_okD(3) [OF assms(2)] to_new by (metis same_node_def)
  ultimately show ?thesis using assms(2) ids keys by (simp add: perms_ok_def)
qed

lemma modify_by_same_node:
  assumes "perms_ok ps n" "p \<in> set ps" "same_node p p'"
  shows "list_all2 same_node ps (modify_by perm_id ps p')"
proof -
  have "same_node q (if perm_id q = perm_id p' then p' else q)" if "q \<in> set ps" for q
    using perm_id_inject [OF assms(1) that assms(2)] assms(3) by (auto simp: same_node_def)
  then show ?thesis by (auto simp: modify_by_def list_all2_conv_all_nth)
qed

lemma same_node_refl_update: "same_node p (p\<lparr> perm_auth := auth, last_updated := t \<rparr>)"
  by (simp add: same_node_def)

lemma live_usage_cong: "list_all2 same_node ps qs \<Longrightarrow> map usage_id (live qs) = map usage_id (live ps)"
  by (induction rule: list_all2_induct) (auto simp: live_def same_node_def)

lemma auth_ok_cong:
  assumes "auth_ok m" "list_all2 same_node (permissions m) qs"
  shows "auth_ok (m\<lparr> permissions := qs \<rparr>)"
proof -
  have "usages_ok (m\<lparr> permissions := qs \<rparr>)"
  proof (rule usages_okI)
    fix p assume "p \<in> set (live (permissions (m\<lparr> permissions := qs \<rparr>)))"
    then have "usage_id p \<in> set (map usage_id (live qs))" by simp
    then obtain q where "q \<in> set (live (permissions m))" "usage_id q = usage_id p"
      unfolding live_usage_cong [OF assms(2)] by auto
    then show "db_find (permission_usages (m\<lparr> permissions := qs \<rparr>)) (usage_id p) \<noteq> None"
      using usages_okD(2) [OF auth_okD(2) [OF assms(1)], of q] by simp
  qed (use usages_okD [OF auth_okD(2) [OF assms(1)]] live_usage_cong [OF assms(2)] in simp_all)
  then show ?thesis using assms perms_ok_cong [OF assms(2)] by (simp add: auth_ok_def)
qed

lemma auth_ok_modify:
  assumes "auth_ok m" "p \<in> set (permissions m)" "modify_permission ctl p auth m = Inr m'"
  shows "auth_ok m'"
  unfolding modify_permission_Inr [OF assms(3)]
  by (rule auth_ok_cong [OF assms(1)],
      rule modify_by_same_node [OF auth_okD(1) [OF assms(1)] assms(2) same_node_refl_update])

lemma remove_permission_Inr:
  assumes "remove_permission p m = Inr m'"
  shows "m' = m\<lparr> permission_usages := db_remove (permission_usages m) (usage_id p),
                 permissions := remove_by perm_id (permissions m) (perm_id p) \<rparr>"
    "perm_id p \<notin> parent_id ` set (permissions m)"
  using assms by (auto simp: remove_permission_def find_by_None)

lemma perms_ok_remove:
  assumes ok: "perms_ok ps n" and p: "p \<in> set ps" "perm_id p \<noteq> 0" and leaf: "perm_id p \<notin> parent_id ` set ps"
  shows "perms_ok (remove_by perm_id ps (perm_id p)) n"
proof -
  let ?qs = "remove_by perm_id ps (perm_id p)"
  have "perm_ok ?qs q" if q: "q \<in> set ps" for q
  proof -
    have "parent_id q \<noteq> perm_id p" using leaf q by (metis imageI)
    then show ?thesis
      using perms_okD(5) [OF ok q] by (auto simp: perm_ok_def set_remove_by split: if_splits)
  qed
  moreover have "\<exists>r \<in> set ?qs. perm_id r = 0"
    using perms_okD(3) [OF ok] p(2) by (auto simp: set_remove_by)
  ultimately show ?thesis
    using ok by (auto simp: perms_ok_def distinct_remove_by set_remove_by)
qed

lemma auth_ok_remove:
  assumes ok: "auth_ok m" and p: "p \<in> set (permissions m)" "perm_id p \<noteq> 0" and r: "remove_permission p m = Inr m'"
  shows "auth_ok m'"
proof -
  note r' = remove_permission_Inr [OF r]
  have live: "live (remove_by perm_id ps i) = remove_by perm_id (live ps) i" for ps i
    by (auto simp: live_def remove_by_def intro: filter_cong)
  have "usages_ok m'"
  proof (rule usages_okI)
    fix q assume "q \<in> set (live (permissions m'))"
    then have q: "q \<in> set (live (permissions m))" "perm_id q \<noteq> perm_id p"
      by (auto simp: r'(1) live set_remove_by)
    have "p \<in> set (live (permissions m))" using p by (simp add: live_def)
    then have "usage_id q \<noteq> usage_id p"
      using q usages_okD(3) [OF auth_okD(2) [OF ok]] by (auto simp: distinct_map inj_on_def)
    then show "db_find (permission_usages m') (usage_id q) \<noteq> None"
      using usages_okD(2) [OF auth_okD(2) [OF ok] q(1)] by (simp add: r'(1))
  qed (use usages_okD [OF auth_okD(2) [OF ok]] in
      \<open>auto simp: r'(1) live distinct_remove_by split: if_splits\<close>)
  then show ?thesis
    using perms_ok_remove [OF auth_okD(1) [OF ok] p r'(2)] r'(1) by (simp add: auth_ok_def)
qed

section \<open>Lookups\<close>

lemma get_permission_Inr:
  "get_permission l m = Inr p \<longleftrightarrow>
     \<not> name_empty (actor l) \<and> \<not> name_empty (permission l) \<and>
     find_by perm_key (permissions m) (actor l, permission l) = Some p"
  by (auto simp: get_permission_def split: option.splits)

lemma get_permission_memD:
  assumes "get_permission l m = Inr p"
  shows "p \<in> set (permissions m)" "perm_owner p = actor l" "perm_name p = permission l"
  using find_by_SomeD [of perm_key] assms by (auto simp: get_permission_Inr perm_key_def)

lemma get_permission_mem:
  assumes "auth_ok m" "p \<in> set (permissions m)" "perm_id p \<noteq> 0" "perm_owner p = actor l" "perm_name p = permission l"
  shows "get_permission l m = Inr p"
proof -
  note ok = auth_okD(1) [OF assms(1)]
  have "perm_owner p \<noteq> Name 0" "perm_name p \<noteq> Name 0"
    using perms_okD(5) [OF ok assms(2)] assms(3) by (simp_all add: perm_ok_def)
  then show ?thesis
    using find_by_Some_iff [OF perms_okD(2) [OF ok]] assms
    by (simp add: get_permission_Inr name_empty_def perm_key_def name.expand)
      (metis name.collapse)
qed

lemma assert_satisfies_iff:
  assumes ok: "auth_ok m" and q: "q \<in> set (permissions m)"
  shows "assert_satisfies l q m = Inr () \<longleftrightarrow>
    (\<exists>p. get_permission l m = Inr p \<and> perm_owner p = perm_owner q \<and>
       (perm_id p, perm_id q) \<in> (parent_rel (permissions m))\<^sup>*)"
proof -
  have "perm_satisfies p q (permissions m) =
      Inr (perm_owner p = perm_owner q \<and> (perm_id p, perm_id q) \<in> (parent_rel (permissions m))\<^sup>*)"
    if "get_permission l m = Inr p" for p
    using perm_satisfies_ok [OF auth_okD(1) [OF ok] get_permission_memD(1) [OF that] q] .
  then show ?thesis by (auto simp: assert_satisfies_def)
qed

section \<open>Checking a transaction\<close>

lemma make_auth_checker_no_wildcard: "no_wildcard_authority ((make_auth_checker ctl m keys perms d)\<lparr> provided_delay := d' \<rparr>)"
  by (simp add: no_wildcard_authority_def make_auth_checker_def authority_of_def find_permission_def name_empty_def)

lemma make_auth_checker_delay: "(make_auth_checker ctl m keys perms d)\<lparr> provided_delay := d' \<rparr> = make_auth_checker ctl m keys perms d'"
  by (simp add: make_auth_checker_def)

lemma check_permissions_granted:
  assumes "check_permissions (make_auth_checker ctl m keys perms d) False ps marks = Inr marks'" "(p, d') \<in> set ps"
  shows "granted (make_auth_checker ctl m keys perms d') p"
  using assms
proof (induction ps arbitrary: marks)
  case (Cons x ps)
  obtain q e where x: "x = (q, e)" by (cases x)
  let ?c = "make_auth_checker ctl m keys perms d"
  have "fst (satisfied_permission_delay ?c q e None marks)"
    using Cons.prems(1) by (auto simp: check_permissions_def x case_prod_unfold Let_def)
  then have "granted (make_auth_checker ctl m keys perms e) q"
    using satisfied_permission_granted [OF make_auth_checker_no_wildcard]
    by (simp add: satisfied_permission_delay_def make_auth_checker_delay)
  moreover have "\<exists>marks. check_permissions ?c False ps marks = Inr marks'"
    using Cons.prems(1) by (auto simp: check_permissions_def x case_prod_unfold Let_def)
  ultimately show ?case using Cons.IH Cons.prems(2) x by auto
qed (simp add: check_permissions_def)

text \<open>The map of permissions to satisfy only gains entries and only lowers delays.\<close>

definition tightens :: "delay_map \<Rightarrow> delay_map \<Rightarrow> bool" where
  "tightens a b \<longleftrightarrow> (\<forall>p d. fmlookup a p = Some d \<longrightarrow> (\<exists>d'. fmlookup b p = Some d' \<and> sint d' \<le> sint d))"

lemma tightens_refl: "tightens a a"
  by (simp add: tightens_def)

lemma tightens_trans: "tightens a b \<Longrightarrow> tightens b c \<Longrightarrow> tightens a c"
  unfolding tightens_def by (meson order_trans)

lemma require_with_delay_tightens: "tightens a (require_with_delay p d a)"
  by (auto simp: tightens_def require_with_delay_def split: option.splits)

lemma require_with_delay_lookup: "\<exists>d'. fmlookup (require_with_delay p d a) p = Some d' \<and> sint d' \<le> sint d"
  by (auto simp: require_with_delay_def split: option.splits)

lemma declare_auths_sound:
  assumes "rfold (check_declared_auth special d sat act m) auths a = Inr b"
  shows "tightens a b \<and> (\<forall>l \<in> set auths. (special \<or> check_minimum act m l = Inr ()) \<and>
    (l \<in> set sat \<or> (\<exists>d'. fmlookup b l = Some d' \<and> sint d' \<le> sint d)))"
  using assms
proof (induction auths arbitrary: a)
  case (Cons l auths)
  then obtain a' where a': "check_declared_auth special d sat act m l a = Inr a'" "rfold (check_declared_auth special d sat act m) auths a' = Inr b"
    by auto
  have step: "tightens a a'" "special \<or> check_minimum act m l = Inr ()"
    "l \<in> set sat \<or> (\<exists>d'. fmlookup a' l = Some d' \<and> sint d' \<le> sint d)"
    using a'(1) require_with_delay_tightens require_with_delay_lookup
    by (auto simp: check_declared_auth_def tightens_refl split: if_splits)
  have rest: "tightens a' b" using Cons.IH [OF a'(2)] by blast
  have "l \<in> set sat \<or> (\<exists>d'. fmlookup b l = Some d' \<and> sint d' \<le> sint d)"
    using step(3) rest unfolding tightens_def by (meson order_trans)
  with Cons.IH [OF a'(2)] step(1,2) tightens_trans [OF step(1) rest] show ?case by auto
qed (simp add: tightens_refl)

text \<open>What checking an action establishes, relative to a map of permissions to satisfy.\<close>

definition action_checked :: "control_state \<Rightarrow> i64 \<Rightarrow> permission_level list \<Rightarrow> authorization_manager \<Rightarrow> delay_map \<Rightarrow> action \<Rightarrow> bool" where
  "action_checked ctl delay sat m b act \<longleftrightarrow>
     (\<exists>special d. check_special ctl delay act m = Inr (special, d) \<and>
       (\<forall>l \<in> set (act_authorization act). (special \<or> check_minimum act m l = Inr ()) \<and>
          (l \<in> set sat \<or> (\<exists>d'. fmlookup b l = Some d' \<and> sint d' \<le> sint d))))"

lemma action_checked_tightens:
  assumes "action_checked ctl delay sat m a act" "tightens a b"
  shows "action_checked ctl delay sat m b act"
proof -
  have "\<exists>d'. fmlookup b l = Some d' \<and> sint d' \<le> sint d" if "\<exists>d'. fmlookup a l = Some d' \<and> sint d' \<le> sint d" for l d
    using that assms(2) unfolding tightens_def by (meson order_trans)
  then show ?thesis using assms(1) unfolding action_checked_def by blast
qed

lemma check_actions_sound:
  assumes "rfold (check_action ctl delay sat m) acts a = Inr b"
  shows "tightens a b \<and> (\<forall>act \<in> set acts. action_checked ctl delay sat m b act)"
  using assms
proof (induction acts arbitrary: a)
  case (Cons act acts)
  then obtain a' where a': "check_action ctl delay sat m act a = Inr a'" "rfold (check_action ctl delay sat m) acts a' = Inr b"
    by auto
  obtain special d where s: "check_special ctl delay act m = Inr (special, d)"
    "rfold (check_declared_auth special d sat act m) (act_authorization act) a = Inr a'"
    using a'(1) by (auto simp: check_action_def)
  note d = declare_auths_sound [OF s(2)]
  have "action_checked ctl delay sat m a' act" using s(1) d by (auto simp: action_checked_def)
  then show ?case
    using Cons.IH [OF a'(2)] d action_checked_tightens tightens_trans by (metis set_ConsD)
qed (simp add: tightens_refl)

lemma delay_list_mem: "fmlookup b p = Some d \<Longrightarrow> (p, d) \<in> set (delay_list b)"
  by (force simp: delay_list_def intro: fmdomI)

lemma granted_checker_mono:
  assumes "granted (make_auth_checker ctl m keys perms d) p" "sint d \<le> sint d'"
  shows "granted (make_auth_checker ctl m keys perms d') p"
  using granted_delay_mono(1) [OF assms(2), of "make_auth_checker ctl m keys perms d" p] assms(1)
  by (simp add: make_auth_checker_delay)

lemma check_minimum_ok:
  assumes "auth_ok m" "check_minimum act m l = Inr ()"
    "lookup_minimum_permission (actor l) (act_account act) (act_name act) m = Inr (Some n)"
  shows "\<exists>p q. get_permission l m = Inr p \<and> get_permission (Permission_Level (actor l) n) m = Inr q \<and>
    (perm_id p, perm_id q) \<in> (parent_rel (permissions m))\<^sup>*"
proof -
  obtain q where q: "get_permission (Permission_Level (actor l) n) m = Inr q" "assert_satisfies l q m = Inr ()"
    using assms(2,3) by (auto simp: check_minimum_def)
  then show ?thesis using assert_satisfies_iff [OF assms(1) get_permission_memD(1) [OF q(1)]] by blast
qed

section \<open>Properties\<close>

text \<open>An account with an owner and an active permission, for the witnesses.\<close>

definition sample_account :: name where
  "sample_account = Name 6"

definition sample_permission :: "nat \<Rightarrow> nat \<Rightarrow> nat \<Rightarrow> name \<Rightarrow> authority \<Rightarrow> permission_object" where
  "sample_permission i u parent n auth =
     \<lparr> perm_id = i, usage_id = u, parent_id = parent, perm_owner = sample_account, perm_name = n,
       last_updated = 1, perm_auth = auth \<rparr>"

definition sample_manager :: authorization_manager where
  "sample_manager = auth_initialize_database\<lparr>
     permissions := permissions auth_initialize_database @
       [sample_permission 1 0 0 owner_name (authority_of_key (sample_key 1) 0),
        sample_permission 2 1 1 active_name (authority_of_key (sample_key 2) 0)],
     next_permission_id := 3, permission_usages := fmap_of_list [(0, 1), (1, 1)], next_usage_id := 2 \<rparr>"

definition sample_control :: control_state where
  "sample_control = \<lparr> max_authority_depth = 6, max_transaction_delay = 3888000, num_supported_key_types = 2,
     pending_block_time = 1000, fix_linkauth_restriction = True, only_link_to_existing_permission = True \<rparr>"

definition sample_action :: "permission_level list \<Rightarrow> action" where
  "sample_action auths = \<lparr> act_account = Name 7, act_name = Name 8, act_authorization = auths,
     act_data = Packed_Data [] \<rparr>"

lemma sample_names: "sample_account \<noteq> Name 0" "owner_name \<noteq> Name 0" "active_name \<noteq> Name 0" "active_name \<noteq> owner_name"
  by (simp_all add: name_values sample_account_def)

lemma sample_manager_ok: "auth_ok sample_manager"
  unfolding auth_ok_def
proof
  show "perms_ok (permissions sample_manager) (next_permission_id sample_manager)"
    using sample_names
    by (auto simp: perms_ok_def perm_ok_def sample_manager_def sample_permission_def auth_initialize_database_def perm_key_def)
  show "usages_ok sample_manager"
    by (rule usages_okI)
      (auto simp: live_def sample_manager_def sample_permission_def auth_initialize_database_def
        db_find_def fmlookup_of_list split: if_splits)
qed

text \<open>C13: deciding whether a permission is equal to or above another always ends in a well-formed
  table, without touching an object that is not there, and the answer is the ancestor relation: same
  account, and the first is reached from the second by following parents.\<close>

theorem perm_satisfies_iff:
  assumes "perms_ok idx n" "this \<in> set idx" "other \<in> set idx"
  shows "perm_satisfies this other idx =
    Inr (perm_owner this = perm_owner other \<and> (perm_id this, perm_id other) \<in> (parent_rel idx)\<^sup>*)"
  using perm_satisfies_ok [OF assms] .

theorem perm_satisfies_iff_witness:
  "let idx = permissions sample_manager in
   perm_satisfies (idx ! 1) (idx ! 2) idx = Inr True \<and> perm_satisfies (idx ! 2) (idx ! 1) idx = Inr False \<and>
   (perm_id (idx ! 2), perm_id (idx ! 1)) \<notin> (parent_rel idx)\<^sup>*"
proof -
  define idx where "idx = permissions sample_manager"
  have mem: "idx ! 1 \<in> set idx" "idx ! 2 \<in> set idx"
    by (simp_all add: idx_def sample_manager_def auth_initialize_database_def)
  have "perm_satisfies (idx ! 2) (idx ! 1) idx = Inr False" "perm_satisfies (idx ! 1) (idx ! 2) idx = Inr True"
    by (simp_all add: idx_def sample_manager_def auth_initialize_database_def sample_permission_def
        perm_satisfies_def find_by_def numeral_eq_Suc)
  moreover have "perm_owner (idx ! 2) = perm_owner (idx ! 1)"
    by (simp add: idx_def sample_manager_def auth_initialize_database_def sample_permission_def)
  ultimately show ?thesis
    using perm_satisfies_iff [OF auth_okD(1) [OF sample_manager_ok], folded idx_def, OF mem(2,1)]
    by (simp add: idx_def [symmetric] Let_def)
qed

text \<open>C1: a transaction whose authorizations are accepted really has them. For every action and
  every permission it declares: the permission is granted by the signing keys, the provided permissions
  and the delay that holds for the action (unless the caller vouched for it), and unless the action is one of the
  five native actions with rules of their own, the permission is equal to or above the minimum
  permission linked to the action.\<close>

theorem check_authorization_sound:
  assumes "auth_ok m"
    and "check_authorization ctl actions keys perms delay allow_unused_keys False satisfied_authorizations m = Inr ()"
    and "act \<in> set actions" and "auth \<in> set (act_authorization act)"
  shows "\<exists>special d. check_special ctl (effective_delay ctl delay) act m = Inr (special, d) \<and>
    (auth \<notin> set satisfied_authorizations \<longrightarrow> granted (make_auth_checker ctl m keys perms d) auth) \<and>
    (special \<or> (\<forall>n. lookup_minimum_permission (actor auth) (act_account act) (act_name act) m = Inr (Some n) \<longrightarrow>
       (\<exists>p q. get_permission auth m = Inr p \<and> get_permission (Permission_Level (actor auth) n) m = Inr q \<and>
          (perm_id p, perm_id q) \<in> (parent_rel (permissions m))\<^sup>*)))"
proof -
  obtain b marks where b: "rfold (check_action ctl (effective_delay ctl delay) satisfied_authorizations m) actions fmempty = Inr b"
    "check_permissions (make_auth_checker ctl m keys perms (effective_delay ctl delay)) False (delay_list b)
       (initial_marks (make_auth_checker ctl m keys perms (effective_delay ctl delay))) = Inr marks"
    using assms(2) by (auto simp: check_authorization_def Let_def)
  obtain special d where s: "check_special ctl (effective_delay ctl delay) act m = Inr (special, d)"
    "special \<or> check_minimum act m auth = Inr ()"
    "auth \<in> set satisfied_authorizations \<or> (\<exists>d'. fmlookup b auth = Some d' \<and> sint d' \<le> sint d)"
    using check_actions_sound [OF b(1)] assms(3,4) unfolding action_checked_def by blast
  have "granted (make_auth_checker ctl m keys perms d) auth" if "auth \<notin> set satisfied_authorizations"
    using s(3) that check_permissions_granted [OF b(2)] delay_list_mem granted_checker_mono by blast
  then show ?thesis using s check_minimum_ok [OF assms(1)] by blast
qed

theorem check_authorization_sound_witness:
  "check_authorization sample_control [sample_action [Permission_Level (sample_account) owner_name]] [sample_key 1] [] 0
     False False [] sample_manager = Inr () \<and>
   granted (make_auth_checker sample_control sample_manager [sample_key 1] [] 0) (Permission_Level (sample_account) owner_name)"
proof -
  let ?l = "Permission_Level (sample_account) owner_name"
  have c: "check_authorization sample_control [sample_action [?l]] [sample_key 1] [] 0 False False [] sample_manager = Inr ()"
    by code_simp
  have "check_special sample_control (effective_delay sample_control 0) (sample_action [?l]) sample_manager = Inr (False, 0)"
    by code_simp
  with check_authorization_sound [OF sample_manager_ok c, of "sample_action [?l]" ?l] c show ?thesis
    by (auto simp: sample_action_def)
qed

text \<open>C14: who may change a permission. \<^verbatim>\<open>updateauth\<close> passes its authorization check exactly when it
  declares one permission of the affected account, and that permission is equal to or above the one
  being changed, or, when a new permission is created, its future parent.\<close>

theorem check_updateauth_authorization_iff:
  assumes "auth_ok m"
  shows "check_updateauth_authorization u auths m = Inr () \<longleftrightarrow>
    (\<exists>l p q. auths = [l] \<and> actor l = ua_account u \<and> \<not> name_empty (ua_permission u) \<and> get_permission l m = Inr p \<and>
       (get_permission (Permission_Level (ua_account u) (ua_permission u)) m = Inr q \<or>
        (\<forall>r. get_permission (Permission_Level (ua_account u) (ua_permission u)) m \<noteq> Inr r) \<and>
          get_permission (Permission_Level (ua_account u) (ua_parent u)) m = Inr q) \<and>
       (perm_id p, perm_id q) \<in> (parent_rel (permissions m))\<^sup>*)"
  (is "?check \<longleftrightarrow> ?rule")
proof
  let ?l = "Permission_Level (ua_account u) (ua_permission u)" and ?par = "Permission_Level (ua_account u) (ua_parent u)"
  have found: "find_permission ?l m = Inr r \<longleftrightarrow> \<not> name_empty (ua_account u) \<and> \<not> name_empty (ua_permission u) \<and>
      r = find_by perm_key (permissions m) (ua_account u, ua_permission u)" for r
    by (auto simp: find_permission_def)
  have min_ok: "assert_satisfies l q m = Inr () \<longleftrightarrow>
      (\<exists>p. get_permission l m = Inr p \<and> (perm_id p, perm_id q) \<in> (parent_rel (permissions m))\<^sup>*)"
    if "actor l = ua_account u" "get_permission ?l m = Inr q \<or> get_permission ?par m = Inr q" for l q
  proof -
    have "q \<in> set (permissions m)" "perm_owner q = actor l" using that get_permission_memD by auto
    then show ?thesis
      using assert_satisfies_iff [OF assms] get_permission_memD(2) by metis
  qed
  {
    assume ?check
    then obtain l f q where l: "auths = [l]" "actor l = ua_account u" "find_permission ?l m = Inr f"
      "(case f of Some p \<Rightarrow> Inr p | None \<Rightarrow> get_permission ?par m) = Inr q" "assert_satisfies l q m = Inr ()"
      by (auto simp: check_updateauth_authorization_def single_auth_def split: list.splits)
    then have q: "get_permission ?l m = Inr q \<or> (\<forall>r. get_permission ?l m \<noteq> Inr r) \<and> get_permission ?par m = Inr q"
      by (auto simp: found get_permission_Inr split: option.splits)
    with l min_ok [of l q] found show ?rule by (metis (no_types, lifting))
  next
    assume ?rule
    then obtain l p q where l: "auths = [l]" "actor l = ua_account u" "\<not> name_empty (ua_permission u)" "get_permission l m = Inr p"
      "get_permission ?l m = Inr q \<or> (\<forall>r. get_permission ?l m \<noteq> Inr r) \<and> get_permission ?par m = Inr q"
      "(perm_id p, perm_id q) \<in> (parent_rel (permissions m))\<^sup>*" by blast
    define f where "f = find_by perm_key (permissions m) (ua_account u, ua_permission u)"
    have "\<not> name_empty (ua_account u)" using l(2,4) by (auto simp: get_permission_Inr)
    then have "find_permission ?l m = Inr f" "(case f of Some p \<Rightarrow> Inr p | None \<Rightarrow> get_permission ?par m) = Inr q"
      using l(3,5) by (auto simp: found f_def get_permission_Inr split: option.splits)
    with l min_ok [of l q] show ?check
      by (auto simp: check_updateauth_authorization_def single_auth_def)
  }
qed

theorem check_updateauth_authorization_iff_witness:
  "let u = \<lparr> ua_account = sample_account, ua_permission = active_name, ua_parent = owner_name, ua_auth = authority_of_key (sample_key 3) 0 \<rparr> in
   check_updateauth_authorization u [Permission_Level sample_account owner_name] sample_manager = Inr () \<and>
   (\<exists>p q. get_permission (Permission_Level sample_account owner_name) sample_manager = Inr p \<and>
     get_permission (Permission_Level sample_account active_name) sample_manager = Inr q \<and>
     (perm_id p, perm_id q) \<in> (parent_rel (permissions sample_manager))\<^sup>*)"
proof -
  let ?u = "\<lparr> ua_account = sample_account, ua_permission = active_name, ua_parent = owner_name, ua_auth = authority_of_key (sample_key 3) 0 \<rparr>"
  have c: "check_updateauth_authorization ?u [Permission_Level sample_account owner_name] sample_manager = Inr ()"
    by code_simp
  have "(case get_permission (Permission_Level sample_account active_name) sample_manager of Inl _ \<Rightarrow> False | Inr _ \<Rightarrow> True)"
    by code_simp
  then have "\<exists>r. get_permission (Permission_Level sample_account active_name) sample_manager = Inr r"
    by (simp split: sum.splits)
  with c check_updateauth_authorization_iff [OF sample_manager_ok, of ?u "[Permission_Level sample_account owner_name]"]
  show ?thesis unfolding Let_def by auto
qed

end
