(* ===== verification/System_Contract_Facts.thy ===== *)
theory System_Contract_Facts
  imports System_Contract Authorization_Facts
begin

text \<open>
  What each native action does to the tables, and the invariant of accounts, permissions and links
  that all of them keep.
\<close>

lemma name_empty_iff: "name_empty n \<longleftrightarrow> n = Name 0"
  by (cases n) (simp add: name_empty_def)

section \<open>RAM charged\<close>

definition ram_of :: "system_state \<Rightarrow> name \<Rightarrow> u64" where
  "ram_of s a = (case db_find (usages (rlm s)) a of None \<Rightarrow> 0 | Some u \<Rightarrow> ram_usage u)"

lemma add_pending_ram_usage_Inr:
  assumes "add_pending_ram_usage a d m = Inr m'"
  shows "d = 0 \<and> m' = m \<or> (\<exists>u. db_find (usages m) a = Some u \<and>
    m' = m\<lparr> usages := db_modify (usages m) a (u\<lparr> ram_usage := ram_usage u + d \<rparr>) \<rparr>)"
proof (cases "d = 0")
  case False
  then show ?thesis using assms unfolding add_pending_ram_usage_def by auto
qed (use assms in \<open>simp add: add_pending_ram_usage_def\<close>)

lemma add_ram_usage_Inr:
  assumes "add_ram_usage a d s = Inr s'"
  shows "accounts s' = accounts s" "account_metadata s' = account_metadata s" "codes s' = codes s" "authz s' = authz s"
    "ram_of s' b = (if b = a then ram_of s b + d else ram_of s b)"
    "db_find (usages (rlm s')) b = None \<longleftrightarrow> db_find (usages (rlm s)) b = None"
proof -
  obtain rl v ds where rl: "add_pending_ram_usage a d (rlm s) = Inr rl"
    and s': "s' = s\<lparr> rlm := rl, validate_ram_usage := v, account_ram_deltas := ds \<rparr>"
    using assms unfolding add_ram_usage_def rbind_eq_Inr by blast
  show "accounts s' = accounts s" "account_metadata s' = account_metadata s" "codes s' = codes s" "authz s' = authz s"
    by (simp_all add: s')
  from add_pending_ram_usage_Inr [OF rl] show "ram_of s' b = (if b = a then ram_of s b + d else ram_of s b)"
    "db_find (usages (rlm s')) b = None \<longleftrightarrow> db_find (usages (rlm s)) b = None"
    by (auto simp: s' ram_of_def split: if_splits)
qed

lemma initialize_account_Inr:
  assumes "initialize_account a m = Inr m'"
  shows "db_find (usages m) a = None"
    "db_find (usages m') b = (if b = a then Some \<lparr> ruo_owner = a, net_usage = usage_accumulator_init, cpu_usage = usage_accumulator_init,
       ram_usage = 0 \<rparr> else db_find (usages m) b)"
  using assms by (auto simp: initialize_account_def)

section \<open>What each action does\<close>

lemma newaccount_effect:
  assumes "apply_eosio_newaccount env act s = Inr s'"
  obtains create :: newaccount and op ap az where
    "na_name create \<noteq> Name 0" "db_find (accounts s) (na_name create) = None" "db_find (account_metadata s) (na_name create) = None"
    "accounts s' = db_modify (accounts s) (na_name create)
       \<lparr> creation_date = set_time_point (pending_block_time (env_control env)), acc_abi = [] \<rparr>"
    "account_metadata s' = db_modify (account_metadata s) (na_name create) new_account_metadata" "codes s' = codes s"
    "create_permission (env_control env) (na_name create) owner_name 0 (na_owner create) 0 (authz s) = Inr (op, az)"
    "create_permission (env_control env) (na_name create) active_name (perm_id op) (na_active create) 0 az = Inr (ap, authz s')"
    "db_find (usages (rlm s)) (na_name create) = None"
    "\<And>b. ram_of s' b = (if b = na_name create then overhead_per_account_ram_bytes + 2 * billable_size_permission_object
           + get_billable_size (env_key_size env) (na_owner create)
           + get_billable_size (env_key_size env) (na_active create) else ram_of s b)"
    "\<And>b. db_find (usages (rlm s')) b = None \<longleftrightarrow> b \<noteq> na_name create \<and> db_find (usages (rlm s)) b = None"
proof -
  obtain create :: newaccount and op az ap az' rl where c:
    "\<not> name_empty (na_name create)" "db_find (accounts s) (na_name create) = None" "db_find (account_metadata s) (na_name create) = None"
    "create_permission (env_control env) (na_name create) owner_name 0 (na_owner create) 0 (authz s) = Inr (op, az)"
    "create_permission (env_control env) (na_name create) active_name (perm_id op) (na_active create) 0 az = Inr (ap, az')"
    "initialize_account (na_name create) (rlm s) = Inr rl"
    "add_ram_usage (na_name create) (overhead_per_account_ram_bytes + 2 * billable_size_permission_object
       + get_billable_size (env_key_size env) (perm_auth op) + get_billable_size (env_key_size env) (perm_auth ap))
       (s\<lparr> accounts := db_modify (accounts s) (na_name create)
             \<lparr> creation_date = set_time_point (pending_block_time (env_control env)), acc_abi = [] \<rparr>,
           account_metadata := db_modify (account_metadata s) (na_name create) new_account_metadata,
           authz := az', rlm := rl \<rparr>) = Inr s'"
    using assms unfolding apply_eosio_newaccount_def Let_def rbind_eq_Inr eos_assert_eq_Inr db_create_eq_Inr
      split_paired_Ex prod.case
    by (elim exE conjE) (rule that; simp)
  note r = add_ram_usage_Inr [OF c(7)] and i = initialize_account_Inr [OF c(6)]
  have auths: "perm_auth op = na_owner create" "perm_auth ap = na_active create"
    using create_permission_Inr(6) [OF c(4)] create_permission_Inr(6) [OF c(5)] .
  show thesis
  proof (rule that [of create op az ap])
    show "ram_of s' b = (if b = na_name create then overhead_per_account_ram_bytes + 2 * billable_size_permission_object
           + get_billable_size (env_key_size env) (na_owner create)
           + get_billable_size (env_key_size env) (na_active create) else ram_of s b)" for b
      using r(5) [of b] i auths by (simp add: ram_of_def)
  qed (use c r i in \<open>auto simp: name_empty_iff\<close>)
qed

lemma charge_size_change_Inr:
  assumes "charge_size_change a new old s = Inr s'"
  shows "accounts s' = accounts s" "account_metadata s' = account_metadata s" "codes s' = codes s" "authz s' = authz s"
    "ram_of s' b = (if b = a then ram_of s b + (new - old) else ram_of s b)"
    "db_find (usages (rlm s')) b = None \<longleftrightarrow> db_find (usages (rlm s)) b = None"
  using assms add_ram_usage_Inr [of a "new - old" s s'] by (auto simp: charge_size_change_def split: if_splits)

lemma setcode_effect:
  assumes "apply_eosio_setcode env act s = Inr s'"
  obtains sc :: setcode and md old_size where "act_data act = Setcode_Data sc" "sc_vmtype sc = 0" "sc_vmversion sc = 0"
    "db_find (account_metadata s) (sc_account sc) = Some md"
    "setcode_tables env sc md (codes s) = Inr (old_size, codes s')"
    "account_metadata s' = db_modify (account_metadata s) (sc_account sc)
       (md\<lparr> code_sequence := code_sequence md + 1, md_code_hash := setcode_hash env sc, md_vm_type := 0, md_vm_version := 0,
           last_code_update := pending_block_time (env_control env) \<rparr>)"
    "accounts s' = accounts s" "authz s' = authz s"
    "\<And>b. ram_of s' b = (if b = sc_account sc
        then ram_of s b + (of_nat (length (sc_code sc)) * setcode_ram_bytes_multiplier - old_size) else ram_of s b)"
    "\<And>b. db_find (usages (rlm s')) b = None \<longleftrightarrow> db_find (usages (rlm s)) b = None"
proof -
  have data: "act_data act = Setcode_Data sc" if "as_setcode act = Inr sc" for sc
    using that by (auto simp: as_setcode_def split: action_data.splits)
  obtain sc :: setcode and md old_size t where c: "sc_vmtype sc = 0" "sc_vmversion sc = 0"
    "db_find (account_metadata s) (sc_account sc) = Some md"
    "setcode_tables env sc md (codes s) = Inr (old_size, t)"
    "charge_size_change (sc_account sc) (of_nat (length (sc_code sc)) * setcode_ram_bytes_multiplier) old_size
        (s\<lparr> codes := t, account_metadata := db_modify (account_metadata s) (sc_account sc)
       (md\<lparr> code_sequence := code_sequence md + 1, md_code_hash := setcode_hash env sc, md_vm_type := 0, md_vm_version := 0,
           last_code_update := pending_block_time (env_control env) \<rparr>) \<rparr>) = Inr s'"
    "act_data act = Setcode_Data sc"
    using assms data by (auto simp: apply_eosio_setcode_def)
  note r = charge_size_change_Inr [OF c(5)]
  show thesis
    by (rule that [of sc md old_size]) (use c r in \<open>simp_all add: ram_of_def\<close>)
qed

lemma setabi_effect:
  assumes "apply_eosio_setabi env act s = Inr s'"
  obtains sa :: setabi and account md where
    "db_find (accounts s) (sa_account sa) = Some account" "db_find (account_metadata s) (sa_account sa) = Some md"
    "accounts s' = db_modify (accounts s) (sa_account sa) (account\<lparr> acc_abi := sa_abi sa \<rparr>)"
    "account_metadata s' = db_modify (account_metadata s) (sa_account sa) (md\<lparr> abi_sequence := abi_sequence md + 1 \<rparr>)"
    "codes s' = codes s" "authz s' = authz s"
    "\<And>b. ram_of s' b = (if b = sa_account sa
        then ram_of s b + (of_nat (length (sa_abi sa)) - of_nat (length (acc_abi account))) else ram_of s b)"
    "\<And>b. db_find (usages (rlm s')) b = None \<longleftrightarrow> db_find (usages (rlm s)) b = None"
proof -
  obtain sa :: setabi and account md where c:
    "db_find (accounts s) (sa_account sa) = Some account" "db_find (account_metadata s) (sa_account sa) = Some md"
    "charge_size_change (sa_account sa) (of_nat (length (sa_abi sa))) (of_nat (length (acc_abi account)))
        (s\<lparr> accounts := db_modify (accounts s) (sa_account sa) (account\<lparr> acc_abi := sa_abi sa \<rparr>),
            account_metadata := db_modify (account_metadata s) (sa_account sa) (md\<lparr> abi_sequence := abi_sequence md + 1 \<rparr>) \<rparr>) = Inr s'"
    using assms by (auto simp: apply_eosio_setabi_def)
  note r = charge_size_change_Inr [OF c(3)]
  show thesis by (rule that [of sa account md]) (use c r in \<open>simp_all add: ram_of_def\<close>)
qed

lemma updateauth_effect:
  assumes "apply_eosio_updateauth env act s = Inr s'"
  obtains (modify) u :: updateauth and p where
    "get_permission (Permission_Level (ua_account u) (ua_permission u)) (authz s) = Inr p"
    "modify_permission (env_control env) p (ua_auth u) (authz s) = Inr (authz s')"
    "accounts s' = accounts s" "account_metadata s' = account_metadata s" "codes s' = codes s"
    "\<And>b. ram_of s' b = (if b = perm_owner p then ram_of s b + (permission_size env (ua_auth u) - permission_size env (perm_auth p)) else ram_of s b)"
    "\<And>b. db_find (usages (rlm s')) b = None \<longleftrightarrow> db_find (usages (rlm s)) b = None"
  | (create) u :: updateauth and p parent where
    "ua_permission u \<noteq> Name 0" "ua_permission u = owner_name \<Longrightarrow> parent = 0"
    "ua_permission u \<noteq> owner_name \<Longrightarrow>
       \<exists>q. get_permission (Permission_Level (ua_account u) (ua_parent u)) (authz s) = Inr q \<and> parent = perm_id q"
    "ua_permission u = active_name \<Longrightarrow> ua_parent u = owner_name"
    "db_find (accounts s) (ua_account u) \<noteq> None" "\<not> name_empty (ua_account u)"
    "create_permission (env_control env) (ua_account u) (ua_permission u) parent (ua_auth u) 0 (authz s) = Inr (p, authz s')"
    "accounts s' = accounts s" "account_metadata s' = account_metadata s" "codes s' = codes s"
    "\<And>b. ram_of s' b = (if b = ua_account u then ram_of s b + permission_size env (ua_auth u) else ram_of s b)"
    "\<And>b. db_find (usages (rlm s')) b = None \<longleftrightarrow> db_find (usages (rlm s)) b = None"
proof -
  obtain u :: updateauth and found parent where c: "\<not> name_empty (ua_permission u)" "db_find (accounts s) (ua_account u) \<noteq> None"
    "check_updateauth_names u = Inr ()"
    "find_permission (Permission_Level (ua_account u) (ua_permission u)) (authz s) = Inr found"
    "(if ua_permission u = owner_name then Inr 0
      else rbind (get_permission (Permission_Level (ua_account u) (ua_parent u)) (authz s)) (\<lambda>parent. Inr (perm_id parent))) = Inr parent"
    "(case found of Some perm \<Rightarrow>
         rbind (eos_assert (parent = parent_id perm) Action_Validate_Exception) (\<lambda>_.
         let old_size = permission_size env (perm_auth perm) in
         rbind (modify_permission (env_control env) perm (ua_auth u) (authz s)) (\<lambda>az.
         add_ram_usage (perm_owner perm) (permission_size env (ua_auth u) - old_size) (s\<lparr> authz := az \<rparr>)))
     | None \<Rightarrow>
         rbind (create_permission (env_control env) (ua_account u) (ua_permission u) parent (ua_auth u) 0 (authz s)) (\<lambda>(p, az).
         add_ram_usage (ua_account u) (permission_size env (perm_auth p)) (s\<lparr> authz := az \<rparr>))) = Inr s'"
    using assms unfolding apply_eosio_updateauth_def rbind_eq_Inr db_get_eq_Inr eos_assert_eq_Inr
    by (elim exE conjE) (rule that; simp?)
  show thesis
  proof (cases found)
    case (Some p)
    then obtain az where az: "modify_permission (env_control env) p (ua_auth u) (authz s) = Inr az"
      "add_ram_usage (perm_owner p) (permission_size env (ua_auth u) - permission_size env (perm_auth p)) (s\<lparr> authz := az \<rparr>) = Inr s'"
      using c(6) by (auto simp: Let_def)
    note r = add_ram_usage_Inr [OF az(2)]
    show ?thesis
      by (rule modify [of u p]) (use Some c(4) az(1) r in \<open>auto simp: find_permission_def get_permission_Inr ram_of_def\<close>)
  next
    case None
    then obtain p az where az: "create_permission (env_control env) (ua_account u) (ua_permission u) parent (ua_auth u) 0 (authz s) = Inr (p, az)"
      "add_ram_usage (ua_account u) (permission_size env (perm_auth p)) (s\<lparr> authz := az \<rparr>) = Inr s'"
      using c(6) by auto
    note r = add_ram_usage_Inr [OF az(2)] and p = create_permission_Inr(6) [OF az(1)]
    show ?thesis
      by (rule create [of u parent p])
        (use c(1-5) az(1) r p in \<open>auto simp: find_permission_def name_empty_iff check_updateauth_names_def ram_of_def split: if_splits\<close>)
  qed
qed

lemma deleteauth_effect:
  assumes "apply_eosio_deleteauth env act s = Inr s'"
  obtains d :: deleteauth and p where
    "da_permission d \<noteq> active_name" "da_permission d \<noteq> owner_name"
    "\<And>c t. db_find (permission_links (authz s)) (da_account d, c, t) \<noteq> Some (da_permission d)"
    "get_permission (Permission_Level (da_account d) (da_permission d)) (authz s) = Inr p"
    "remove_permission p (authz s) = Inr (authz s')"
    "accounts s' = accounts s" "account_metadata s' = account_metadata s" "codes s' = codes s"
    "\<And>b. ram_of s' b = (if b = da_account d then ram_of s b - permission_size env (perm_auth p) else ram_of s b)"
    "\<And>b. db_find (usages (rlm s')) b = None \<longleftrightarrow> db_find (usages (rlm s)) b = None"
proof -
  obtain d :: deleteauth and p az where c: "da_permission d \<noteq> active_name" "da_permission d \<noteq> owner_name"
    "\<not> fBex (fmdom (permission_links (authz s)))
       (\<lambda>k. fst k = da_account d \<and> fmlookup (permission_links (authz s)) k = Some (da_permission d))"
    "get_permission (Permission_Level (da_account d) (da_permission d)) (authz s) = Inr p"
    "remove_permission p (authz s) = Inr az"
    "add_ram_usage (da_account d) (- permission_size env (perm_auth p)) (s\<lparr> authz := az \<rparr>) = Inr s'"
    using assms unfolding apply_eosio_deleteauth_def Let_def rbind_eq_Inr eos_assert_eq_Inr
    by (elim exE conjE) (rule that; assumption)
  note r = add_ram_usage_Inr [OF c(6)]
  have "db_find (permission_links (authz s)) (da_account d, x, t) \<noteq> Some (da_permission d)" for x t
    using c(3) unfolding db_find_def by (metis fmdomI fst_conv)
  then show thesis
    by (intro that [of d p]) (use c r in \<open>simp_all add: ram_of_def\<close>)
qed

lemma linkauth_effect:
  assumes "apply_eosio_linkauth env act s = Inr s'"
  obtains req :: linkauth where
    "la_requirement req = eosio_any_name \<or> link_target_exists (env_control env) req (authz s)"
    "db_find (accounts s) (la_account req) \<noteq> None"
    "authz s' = (authz s)\<lparr> permission_links :=
       db_modify (permission_links (authz s)) (la_account req, la_code req, la_type req) (la_requirement req) \<rparr>"
    "accounts s' = accounts s" "account_metadata s' = account_metadata s" "codes s' = codes s"
    "\<And>b. ram_of s' b = (if b = la_account req \<and> db_find (permission_links (authz s)) (la_account req, la_code req, la_type req) = None
       then ram_of s b + billable_size_permission_link_object else ram_of s b)"
    "\<And>b. db_find (usages (rlm s')) b = None \<longleftrightarrow> db_find (usages (rlm s)) b = None"
proof -
  obtain req :: linkauth where c: "db_find (accounts s) (la_account req) \<noteq> None"
    "(if la_requirement req = eosio_any_name then Inr ()
      else eos_assert (link_target_exists (env_control env) req (authz s)) Permission_Query_Exception) = Inr ()"
    "(case db_find (permission_links (authz s)) (la_account req, la_code req, la_type req) of
       Some required_permission \<Rightarrow>
         rbind (eos_assert (required_permission \<noteq> la_requirement req) Action_Validate_Exception) (\<lambda>_.
         Inr (s\<lparr> authz := (authz s)\<lparr> permission_links := db_modify (permission_links (authz s)) (la_account req, la_code req, la_type req) (la_requirement req) \<rparr> \<rparr>))
     | None \<Rightarrow>
         rbind (db_create (permission_links (authz s)) (la_account req, la_code req, la_type req) (la_requirement req)) (\<lambda>links.
         add_ram_usage (la_account req) billable_size_permission_link_object
           (s\<lparr> authz := (authz s)\<lparr> permission_links := links \<rparr> \<rparr>))) = Inr s'"
    using assms unfolding apply_eosio_linkauth_def Let_def rbind_eq_Inr eos_assert_eq_Inr
    by (elim exE conjE) (rule that; simp)
  show thesis
  proof (cases "db_find (permission_links (authz s)) (la_account req, la_code req, la_type req)")
    case None
    then have a: "add_ram_usage (la_account req) billable_size_permission_link_object
        (s\<lparr> authz := (authz s)\<lparr> permission_links := db_modify (permission_links (authz s)) (la_account req, la_code req, la_type req) (la_requirement req) \<rparr> \<rparr>) = Inr s'"
      using c(3) by simp
    note r = add_ram_usage_Inr [OF a]
    show ?thesis by (rule that [of req]) (use c(1,2) r None in \<open>simp_all add: ram_of_def split: if_splits\<close>)
  next
    case (Some required)
    then show ?thesis by (intro that [of req]) (use c in \<open>auto simp: ram_of_def split: if_splits\<close>)
  qed
qed

lemma unlinkauth_effect:
  assumes "apply_eosio_unlinkauth env act s = Inr s'"
  obtains u :: unlinkauth where
    "db_find (permission_links (authz s)) (ula_account u, ula_code u, ula_type u) \<noteq> None"
    "authz s' = (authz s)\<lparr> permission_links := db_remove (permission_links (authz s)) (ula_account u, ula_code u, ula_type u) \<rparr>"
    "accounts s' = accounts s" "account_metadata s' = account_metadata s" "codes s' = codes s"
    "\<And>b. ram_of s' b = (if b = ula_account u then ram_of s b - billable_size_permission_link_object else ram_of s b)"
    "\<And>b. db_find (usages (rlm s')) b = None \<longleftrightarrow> db_find (usages (rlm s)) b = None"
proof -
  obtain u :: unlinkauth and s1 where c:
    "db_find (permission_links (authz s)) (ula_account u, ula_code u, ula_type u) \<noteq> None"
    "add_ram_usage (ula_account u) (- billable_size_permission_link_object) s = Inr s1"
    "s1\<lparr> authz := (authz s1)\<lparr> permission_links := db_remove (permission_links (authz s1)) (ula_account u, ula_code u, ula_type u) \<rparr> \<rparr> = s'"
    using assms by (auto simp: apply_eosio_unlinkauth_def Let_def)
  note r = add_ram_usage_Inr [OF c(2)]
  show thesis by (rule that [of u]) (use c(1) c(3) [symmetric] r in \<open>simp_all add: ram_of_def\<close>)
qed

lemma canceldelay_effect:
  assumes "apply_eosio_canceldelay env act s = Inr s'"
  obtains (none) "s' = s" | (cancelled) g where
    "find_by (\<lambda>g. (gt_sender g, gt_sender_id g)) (generated_transactions (authz s)) (gt_sender g, gt_sender_id g) = Some g"
    "authz s' = (authz s)\<lparr> generated_transactions :=
       remove_by (\<lambda>g. (gt_sender g, gt_sender_id g)) (generated_transactions (authz s)) (gt_sender g, gt_sender_id g) \<rparr>"
    "accounts s' = accounts s" "account_metadata s' = account_metadata s" "codes s' = codes s"
    "\<And>b. ram_of s' b = (if b = gt_payer g
       then ram_of s b - (billable_size_generated_transaction_object + of_nat (gt_packed_size g)) else ram_of s b)"
    "\<And>b. db_find (usages (rlm s')) b = None \<longleftrightarrow> db_find (usages (rlm s)) b = None"
proof -
  obtain i b where c: "cancel_deferred_transaction env i (Name 0) s = Inr (b, s')"
    using assms by (auto simp: apply_eosio_canceldelay_def)
  show thesis
  proof (cases "env_disable_deferred env \<or> find_by (\<lambda>g. (gt_sender g, gt_sender_id g)) (generated_transactions (authz s)) (Name 0, i) = None")
    case True
    then show ?thesis using c none by (auto simp: cancel_deferred_transaction_def split: if_splits)
  next
    case False
    then obtain g where g: "find_by (\<lambda>g. (gt_sender g, gt_sender_id g)) (generated_transactions (authz s)) (Name 0, i) = Some g"
      by blast
    then have key: "gt_sender g = Name 0" "gt_sender_id g = i" using find_by_SomeD by fastforce+
    obtain s1 where s1: "add_ram_usage (gt_payer g) (- (billable_size_generated_transaction_object + of_nat (gt_packed_size g))) s = Inr s1"
      "s' = s1\<lparr> authz := (authz s1)\<lparr> generated_transactions :=
         remove_by (\<lambda>g. (gt_sender g, gt_sender_id g)) (generated_transactions (authz s1)) (Name 0, i) \<rparr> \<rparr>"
      using c False g by (auto simp: cancel_deferred_transaction_def)
    note r = add_ram_usage_Inr [OF s1(1)]
    show ?thesis by (rule cancelled [of g]) (use g key r in \<open>simp_all add: s1(2) ram_of_def\<close>)
  qed
qed

section \<open>The invariant of accounts and permissions\<close>

definition has_perm :: "authorization_manager \<Rightarrow> name \<Rightarrow> name \<Rightarrow> bool" where
  "has_perm m a n \<longleftrightarrow> (\<exists>p \<in> set (permissions m). perm_key p = (a, n))"

definition active_below_owner :: "permission_object list \<Rightarrow> bool" where
  "active_below_owner ps \<longleftrightarrow> (\<forall>p \<in> set (live ps). perm_name p = active_name \<longrightarrow>
     (\<exists>q \<in> set ps. perm_id q = parent_id p \<and> perm_name q = owner_name))"

text \<open>
  Every account has an owner and an active permission, every permission belongs to an account, the active
  permissions are directly below the owner permissions, and the account tables agree on the accounts.
\<close>

definition accounts_ok :: "system_state \<Rightarrow> bool" where
  "accounts_ok s \<longleftrightarrow>
     (\<forall>a. db_find (accounts s) a \<noteq> None \<longrightarrow> a \<noteq> Name 0 \<and> has_perm (authz s) a owner_name \<and> has_perm (authz s) a active_name) \<and>
     (\<forall>p \<in> set (live (permissions (authz s))). db_find (accounts s) (perm_owner p) \<noteq> None) \<and>
     (\<forall>a. db_find (account_metadata s) a = None \<longleftrightarrow> db_find (accounts s) a = None) \<and>
     (\<forall>a. db_find (usages (rlm s)) a = None \<longleftrightarrow> db_find (accounts s) a = None)"

definition sys_ok :: "system_state \<Rightarrow> bool" where
  "sys_ok s \<longleftrightarrow> auth_ok (authz s) \<and> active_below_owner (permissions (authz s)) \<and> accounts_ok s"

lemma sys_okD:
  assumes "sys_ok s"
  shows "auth_ok (authz s)" "active_below_owner (permissions (authz s))" "accounts_ok s"
  using assms by (simp_all add: sys_ok_def)

lemma accounts_okD:
  assumes "accounts_ok s"
  shows "db_find (accounts s) a \<noteq> None \<Longrightarrow> a \<noteq> Name 0"
    "db_find (accounts s) a \<noteq> None \<Longrightarrow> has_perm (authz s) a owner_name"
    "db_find (accounts s) a \<noteq> None \<Longrightarrow> has_perm (authz s) a active_name"
    "p \<in> set (live (permissions (authz s))) \<Longrightarrow> db_find (accounts s) (perm_owner p) \<noteq> None"
    "db_find (account_metadata s) a = None \<longleftrightarrow> db_find (accounts s) a = None"
    "db_find (usages (rlm s)) a = None \<longleftrightarrow> db_find (accounts s) a = None"
  using assms unfolding accounts_ok_def by blast+

lemma accounts_okI:
  assumes "\<And>a. db_find (accounts s) a \<noteq> None \<Longrightarrow> a \<noteq> Name 0 \<and> has_perm (authz s) a owner_name \<and> has_perm (authz s) a active_name"
    and "\<And>p. p \<in> set (live (permissions (authz s))) \<Longrightarrow> db_find (accounts s) (perm_owner p) \<noteq> None"
    and "\<And>a. db_find (account_metadata s) a = None \<longleftrightarrow> db_find (accounts s) a = None"
    and "\<And>a. db_find (usages (rlm s)) a = None \<longleftrightarrow> db_find (accounts s) a = None"
  shows "accounts_ok s"
  using assms unfolding accounts_ok_def by blast

lemma live_mem [simp]: "p \<in> set (live ps) \<longleftrightarrow> p \<in> set ps \<and> perm_id p \<noteq> 0"
  by (simp add: live_def)

lemma name_facts [simp]:
  "owner_name \<noteq> Name 0" "active_name \<noteq> Name 0" "active_name \<noteq> owner_name" "owner_name \<noteq> active_name"
  by (simp_all add: name_values)

lemma has_perm_create:
  assumes "create_permission ctl account name parent auth t m = Inr (p, m')"
  shows "has_perm m' a n \<longleftrightarrow> has_perm m a n \<or> a = account \<and> n = name"
  using create_permission_Inr [OF assms] by (auto simp: has_perm_def perm_key_def)

lemma has_perm_same_nodes:
  assumes "list_all2 same_node (permissions m) (permissions m')"
  shows "has_perm m' a n \<longleftrightarrow> has_perm m a n"
proof -
  have "map perm_key (permissions m') = map perm_key (permissions m)"
    using assms by (induction rule: list_all2_induct) (simp_all add: same_node_iff)
  then have "perm_key ` set (permissions m') = perm_key ` set (permissions m)" by (metis list.set_map)
  then show ?thesis unfolding has_perm_def by (metis (no_types, opaque_lifting) imageE imageI)
qed

lemma active_below_owner_create:
  assumes "active_below_owner (permissions m)" "create_permission ctl account name parent auth t m = Inr (p, m')"
    and "name = active_name \<Longrightarrow> \<exists>q \<in> set (permissions m). perm_id q = parent \<and> perm_name q = owner_name"
  shows "active_below_owner (permissions m')"
  unfolding active_below_owner_def
proof (intro ballI impI)
  note c = create_permission_Inr(3,5,7) [OF assms(2)]
  fix q assume q: "q \<in> set (live (permissions m'))" "perm_name q = active_name"
  have "\<exists>r \<in> set (permissions m). perm_id r = parent_id q \<and> perm_name r = owner_name"
  proof (cases "q \<in> set (permissions m)")
    case True
    then show ?thesis using assms(1) q by (simp add: active_below_owner_def)
  next
    case False
    then show ?thesis using assms(3) q c by simp
  qed
  then show "\<exists>r \<in> set (permissions m'). perm_id r = parent_id q \<and> perm_name r = owner_name"
    by (auto simp: c(3))
qed

lemma active_below_owner_same_nodes:
  assumes "list_all2 same_node ps qs" "active_below_owner ps"
  shows "active_below_owner qs"
  unfolding active_below_owner_def
proof (intro ballI impI)
  fix q assume q: "q \<in> set (live qs)" "perm_name q = active_name"
  then obtain p where p: "p \<in> set ps" "same_node p q"
    using assms(1) by (metis in_set_conv_nth list_all2_conv_all_nth live_mem)
  then obtain r where r: "r \<in> set ps" "perm_id r = parent_id p" "perm_name r = owner_name"
    using assms(2) q by (auto simp: active_below_owner_def same_node_def)
  then obtain r' where "r' \<in> set qs" "same_node r r'"
    using assms(1) by (metis in_set_conv_nth list_all2_conv_all_nth)
  then show "\<exists>r \<in> set qs. perm_id r = parent_id q \<and> perm_name r = owner_name"
    using p r by (auto simp: same_node_def)
qed

lemma active_below_owner_remove:
  assumes "active_below_owner (permissions m)" "remove_permission p m = Inr m'"
  shows "active_below_owner (permissions m')"
proof -
  note r = remove_permission_Inr [OF assms(2)]
  show ?thesis unfolding active_below_owner_def
  proof (intro ballI impI)
    fix q assume "q \<in> set (live (permissions m'))" "perm_name q = active_name"
    then have q: "q \<in> set (live (permissions m))" "perm_name q = active_name" by (simp_all add: r(1) set_remove_by)
    obtain o' where o': "o' \<in> set (permissions m)" "perm_id o' = parent_id q" "perm_name o' = owner_name"
      using assms(1) q by (auto simp: active_below_owner_def)
    have "parent_id q \<noteq> perm_id p" using r(2) q(1) by (metis imageI live_mem)
    with o' show "\<exists>o' \<in> set (permissions m'). perm_id o' = parent_id q \<and> perm_name o' = owner_name"
      by (auto simp: r(1) set_remove_by)
  qed
qed

lemma get_permission_live: "auth_ok m \<Longrightarrow> get_permission l m = Inr p \<Longrightarrow> p \<in> set (live (permissions m))"
proof -
  assume a: "auth_ok m" "get_permission l m = Inr p"
  then have "p \<in> set (permissions m)" "perm_owner p \<noteq> Name 0"
    using get_permission_memD [OF a(2)] by (auto simp: get_permission_Inr name_empty_iff)
  then show ?thesis
    using perms_okD(5) [OF auth_okD(1) [OF a(1)], of p] by (auto simp: perm_ok_def perm_key_def split: if_splits)
qed

section \<open>Every action keeps it\<close>

text \<open>An action that touches neither permissions nor accounts keeps the invariant.\<close>

lemma sys_ok_frame:
  assumes "sys_ok s" "permissions (authz s') = permissions (authz s)" "next_permission_id (authz s') = next_permission_id (authz s)"
    "permission_usages (authz s') = permission_usages (authz s)" "next_usage_id (authz s') = next_usage_id (authz s)"
    and dom: "\<And>a. db_find (accounts s') a = None \<longleftrightarrow> db_find (accounts s) a = None"
    "\<And>a. db_find (account_metadata s') a = None \<longleftrightarrow> db_find (account_metadata s) a = None"
    "\<And>a. db_find (usages (rlm s')) a = None \<longleftrightarrow> db_find (usages (rlm s)) a = None"
  shows "sys_ok s'"
proof -
  have "auth_ok (authz s')" using sys_okD(1) [OF assms(1)] assms(2-5) by (simp add: auth_ok_def usages_ok_def)
  moreover have "accounts_ok s'"
    using sys_okD(3) [OF assms(1)] unfolding accounts_ok_def has_perm_def assms(2) dom .
  ultimately show ?thesis using sys_okD(2) [OF assms(1)] by (simp add: sys_ok_def assms(2))
qed

lemma sys_ok_add_account:
  assumes ok: "sys_ok s" and a: "a \<noteq> Name 0"
    and accs: "accounts s' = db_modify (accounts s) a ao" "account_metadata s' = db_modify (account_metadata s) a md"
    and c1: "create_permission ctl a owner_name 0 owner t (authz s) = Inr (op, az)"
    and c2: "create_permission ctl a active_name (perm_id op) active t az = Inr (ap, authz s')"
    and us: "\<And>b. db_find (usages (rlm s')) b = None \<longleftrightarrow> b \<noteq> a \<and> db_find (usages (rlm s)) b = None"
  shows "sys_ok s'"
proof -
  note p1 = create_permission_Inr [OF c1] and p2 = create_permission_Inr [OF c2]
  have az: "auth_ok az"
    by (rule auth_ok_create [OF sys_okD(1) [OF ok] _ c1]) (use a in \<open>simp add: may_create_def\<close>)
  have op: "op \<in> set (permissions az)" by (simp add: p1(7))
  have "perm_id op \<noteq> 0" using perms_okD(3,4) [OF auth_okD(1) [OF sys_okD(1) [OF ok]]] p1(1) by fastforce
  then have "auth_ok (authz s')"
    by (intro auth_ok_create [OF az _ c2]) (use a op p1(4) in \<open>auto simp: may_create_def\<close>)
  moreover have "active_below_owner (permissions (authz s'))"
    by (rule active_below_owner_create [OF active_below_owner_create [OF sys_okD(2) [OF ok] c1] c2])
      (use op p1(5) in auto)
  moreover have "accounts_ok s'"
  proof (rule accounts_okI)
    fix b assume "db_find (accounts s') b \<noteq> None"
    then show "b \<noteq> Name 0 \<and> has_perm (authz s') b owner_name \<and> has_perm (authz s') b active_name"
      using accounts_okD(1-3) [OF sys_okD(3) [OF ok], of b] a
      by (auto simp: accs has_perm_create [OF c1] has_perm_create [OF c2] split: if_splits)
  next
    fix p assume "p \<in> set (live (permissions (authz s')))"
    then show "db_find (accounts s') (perm_owner p) \<noteq> None"
      using accounts_okD(4) [OF sys_okD(3) [OF ok], of p] p1(4) p2(4) by (auto simp: accs p2(7) p1(7))
  qed (use accounts_okD(5,6) [OF sys_okD(3) [OF ok]] us accs in auto)
  ultimately show ?thesis by (simp add: sys_ok_def)
qed

lemma sys_ok_newaccount:
  assumes ok: "sys_ok s" and act: "apply_eosio_newaccount env act s = Inr s'"
  shows "sys_ok s'"
  using act
proof (cases rule: newaccount_effect)
  case (1 create op ap az)
  show ?thesis by (rule sys_ok_add_account [OF ok 1(1,4,5,7,8,11)])
qed

lemma sys_ok_updateauth:
  assumes ok: "sys_ok s" and act: "apply_eosio_updateauth env act s = Inr s'"
  shows "sys_ok s'"
  using act
proof (cases rule: updateauth_effect)
  case (modify u p)
  have p: "p \<in> set (permissions (authz s))" using get_permission_memD(1) [OF modify(1)] .
  have same: "list_all2 same_node (permissions (authz s)) (permissions (authz s'))"
    unfolding modify_permission_Inr [OF modify(2)]
    using modify_by_same_node [OF auth_okD(1) [OF sys_okD(1) [OF ok]] p same_node_refl_update] by simp
  have "auth_ok (authz s')" using auth_ok_modify [OF sys_okD(1) [OF ok] p modify(2)] .
  moreover have "accounts_ok s'"
  proof (rule accounts_okI)
    fix q assume "q \<in> set (live (permissions (authz s')))"
    then obtain q' where "q' \<in> set (live (permissions (authz s)))" "perm_owner q' = perm_owner q"
      using same by (metis in_set_conv_nth list_all2_conv_all_nth live_mem same_node_def)
    then show "db_find (accounts s') (perm_owner q) \<noteq> None"
      using accounts_okD(4) [OF sys_okD(3) [OF ok], of q'] modify(3) by simp
  qed (use accounts_okD [OF sys_okD(3) [OF ok]] modify(3,4,7) has_perm_same_nodes [OF same] in auto)
  ultimately show ?thesis
    using active_below_owner_same_nodes [OF same sys_okD(2) [OF ok]] by (simp add: sys_ok_def)
next
  case (create u p parent)
  note c = create(7) and c' = create_permission_Inr [OF create(7)]
  have parent: "parent = 0 \<longleftrightarrow> ua_permission u = owner_name"
    "ua_permission u \<noteq> owner_name \<Longrightarrow> \<exists>q \<in> set (permissions (authz s)). perm_id q = parent \<and> perm_owner q = ua_account u \<and> perm_name q = ua_parent u"
    using create(2,3) get_permission_live [OF sys_okD(1) [OF ok]] get_permission_memD by fastforce+
  then have "auth_ok (authz s')"
    by (intro auth_ok_create [OF sys_okD(1) [OF ok] _ c]) (use create(1,6) in \<open>auto simp: may_create_def name_empty_iff\<close>)
  moreover have "active_below_owner (permissions (authz s'))"
    by (rule active_below_owner_create [OF sys_okD(2) [OF ok] c]) (use parent(2) create(4) in auto)
  moreover have "accounts_ok s'"
  proof (rule accounts_okI)
    fix q assume "q \<in> set (live (permissions (authz s')))"
    then show "db_find (accounts s') (perm_owner q) \<noteq> None"
      using accounts_okD(4) [OF sys_okD(3) [OF ok], of q] create(5,8) c'(4,7) by auto
  qed (use accounts_okD [OF sys_okD(3) [OF ok]] create(8,9,12) has_perm_create [OF c] in auto)
  ultimately show ?thesis by (simp add: sys_ok_def)
qed

lemma sys_ok_deleteauth:
  assumes ok: "sys_ok s" and act: "apply_eosio_deleteauth env act s = Inr s'"
  shows "sys_ok s'"
  using act
proof (cases rule: deleteauth_effect)
  case (1 d p)
  note e = 1(1,2,4-7) and us = 1(10)
  note r = remove_permission_Inr [OF e(4)]
  have p: "p \<in> set (permissions (authz s))" "perm_id p \<noteq> 0"
    using get_permission_live [OF sys_okD(1) [OF ok] e(3)] by simp_all
  have keep: "has_perm (authz s') a n" if "has_perm (authz s) a n" "n \<noteq> da_permission d" for a n
    using that get_permission_memD(3) [OF e(3)] perm_id_inject [OF auth_okD(1) [OF sys_okD(1) [OF ok]] _ p(1)]
    by (auto simp: has_perm_def r(1) set_remove_by perm_key_def)
  have "accounts_ok s'"
  proof (rule accounts_okI)
    fix a assume "db_find (accounts s') a \<noteq> None"
    then show "a \<noteq> Name 0 \<and> has_perm (authz s') a owner_name \<and> has_perm (authz s') a active_name"
      using accounts_okD(1-3) [OF sys_okD(3) [OF ok], of a] keep e(1,2,5) by auto
  next
    fix q assume "q \<in> set (live (permissions (authz s')))"
    then show "db_find (accounts s') (perm_owner q) \<noteq> None"
      using accounts_okD(4) [OF sys_okD(3) [OF ok], of q] e(5) by (auto simp: r(1) set_remove_by)
  qed (use accounts_okD(5,6) [OF sys_okD(3) [OF ok]] us e(5,6) in auto)
  then show ?thesis
    using auth_ok_remove [OF sys_okD(1) [OF ok] p e(4)] active_below_owner_remove [OF sys_okD(2) [OF ok] e(4)]
    by (simp add: sys_ok_def)
qed

lemma sys_ok_setcode: "sys_ok s \<Longrightarrow> apply_eosio_setcode env act s = Inr s' \<Longrightarrow> sys_ok s'"
  by (erule setcode_effect, erule sys_ok_frame) auto

lemma sys_ok_setabi: "sys_ok s \<Longrightarrow> apply_eosio_setabi env act s = Inr s' \<Longrightarrow> sys_ok s'"
  by (erule setabi_effect, erule sys_ok_frame) auto

lemma sys_ok_linkauth: "sys_ok s \<Longrightarrow> apply_eosio_linkauth env act s = Inr s' \<Longrightarrow> sys_ok s'"
  by (erule linkauth_effect, erule sys_ok_frame) auto

lemma sys_ok_unlinkauth: "sys_ok s \<Longrightarrow> apply_eosio_unlinkauth env act s = Inr s' \<Longrightarrow> sys_ok s'"
  by (erule unlinkauth_effect, erule sys_ok_frame) auto

lemma sys_ok_canceldelay: "sys_ok s \<Longrightarrow> apply_eosio_canceldelay env act s = Inr s' \<Longrightarrow> sys_ok s'"
  by (erule canceldelay_effect, simp, erule sys_ok_frame) auto

lemmas sys_ok_handlers = sys_ok_newaccount sys_ok_setcode sys_ok_setabi sys_ok_updateauth sys_ok_deleteauth
  sys_ok_linkauth sys_ok_unlinkauth sys_ok_canceldelay

text \<open>The handlers that \<open>apply_native\<close> may run.\<close>

lemma apply_native_cases:
  assumes "apply_native env act s = Inr s'"
  obtains (none) "s' = s"
  | (newaccount) "apply_eosio_newaccount env act s = Inr s'"
  | (setcode) "apply_eosio_setcode env act s = Inr s'"
  | (setabi) "apply_eosio_setabi env act s = Inr s'"
  | (updateauth) "apply_eosio_updateauth env act s = Inr s'"
  | (deleteauth) "apply_eosio_deleteauth env act s = Inr s'"
  | (linkauth) "apply_eosio_linkauth env act s = Inr s'"
  | (unlinkauth) "apply_eosio_unlinkauth env act s = Inr s'"
  | (canceldelay) "apply_eosio_canceldelay env act s = Inr s'"
  using assms by (auto simp: apply_native_def find_apply_handler_def split: if_splits)

lemma sys_ok_apply_native:
  assumes "sys_ok s" "apply_native env act s = Inr s'"
  shows "sys_ok s'"
  using assms(2) by (cases rule: apply_native_cases) (simp add: assms(1) | erule sys_ok_handlers [OF assms(1)])+

lemma create_native_account_effect:
  assumes "create_native_account env abi t a owner active privileged s = Inr s'"
  obtains op az ap where
    "db_find (accounts s) a = None" "db_find (account_metadata s) a = None"
    "accounts s' = db_modify (accounts s) a \<lparr> creation_date = set_time_point t, acc_abi = (if a = system_account_name then abi else []) \<rparr>"
    "account_metadata s' = db_modify (account_metadata s) a (set_privileged privileged new_account_metadata)" "codes s' = codes s"
    "create_permission (env_control env) a owner_name 0 owner t (authz s) = Inr (op, az)"
    "create_permission (env_control env) a active_name (perm_id op) active t az = Inr (ap, authz s')"
    "\<And>b. db_find (usages (rlm s')) b = None \<longleftrightarrow> b \<noteq> a \<and> db_find (usages (rlm s)) b = None"
proof -
  obtain op az ap az' rl rl' d where c: "db_find (accounts s) a = None" "db_find (account_metadata s) a = None"
    "create_permission (env_control env) a owner_name 0 owner t (authz s) = Inr (op, az)"
    "create_permission (env_control env) a active_name (perm_id op) active t az = Inr (ap, az')"
    "initialize_account a (rlm s) = Inr rl" "add_pending_ram_usage a d rl = Inr rl'"
    "s' = s\<lparr> accounts := db_modify (accounts s) a \<lparr> creation_date = set_time_point t, acc_abi = (if a = system_account_name then abi else []) \<rparr>,
      account_metadata := db_modify (account_metadata s) a (set_privileged privileged new_account_metadata), authz := az', rlm := rl' \<rparr>"
    using assms unfolding create_native_account_def Let_def rbind_eq_Inr db_create_eq_Inr split_paired_Ex prod.case sum.inject
    by (elim exE conjE) (rule that, assumption+, simp)
  note i = initialize_account_Inr [OF c(5)] and p = add_pending_ram_usage_Inr [OF c(6)]
  have "db_find (usages rl') b = None \<longleftrightarrow> b \<noteq> a \<and> db_find (usages (rlm s)) b = None" for b
    using i(2) [of b] p by (auto split: if_splits)
  then show thesis by (intro that [of op az ap]) (use c in simp_all)
qed

lemma sys_ok_empty: "sys_ok empty_system_state"
  using auth_ok_initialize
  by (simp add: sys_ok_def empty_system_state_def active_below_owner_def accounts_ok_def live_def db_find_def
      auth_initialize_database_def initialize_database_def)

lemma sys_ok_create_native_account:
  assumes "sys_ok s" "create_native_account env abi t a owner active privileged s = Inr s'" "a \<noteq> Name 0"
  shows "sys_ok s'"
  using assms(2)
proof (cases rule: create_native_account_effect)
  case (1 op az ap)
  show ?thesis by (rule sys_ok_add_account [OF assms(1,3) 1(3,4,6,7,8)])
qed

lemma sys_ok_create_permission:
  assumes ok: "sys_ok s" and parent: "q \<in> set (live (permissions (authz s)))"
    and n: "n \<noteq> Name 0" "n \<noteq> owner_name" "n \<noteq> active_name"
    and c: "create_permission ctl (perm_owner q) n (perm_id q) auth t (authz s) = Inr (p, az)"
  shows "sys_ok (s\<lparr> authz := az \<rparr>)"
proof -
  note c' = create_permission_Inr [OF c]
  have owner: "db_find (accounts s) (perm_owner q) \<noteq> None" using accounts_okD(4) [OF sys_okD(3) [OF ok] parent] .
  then have "perm_owner q \<noteq> Name 0" using accounts_okD(1) [OF sys_okD(3) [OF ok]] by blast
  then have "auth_ok az"
    by (intro auth_ok_create [OF sys_okD(1) [OF ok] _ c]) (use parent n in \<open>auto simp: may_create_def\<close>)
  moreover have "active_below_owner (permissions az)"
    by (rule active_below_owner_create [OF sys_okD(2) [OF ok] c]) (use n in simp)
  moreover have "accounts_ok (s\<lparr> authz := az \<rparr>)"
  proof (rule accounts_okI)
    fix p' assume "p' \<in> set (live (permissions (authz (s\<lparr> authz := az \<rparr>))))"
    then show "db_find (accounts (s\<lparr> authz := az \<rparr>)) (perm_owner p') \<noteq> None"
      using accounts_okD(4) [OF sys_okD(3) [OF ok], of p'] owner c'(4,7) by auto
  qed (use accounts_okD [OF sys_okD(3) [OF ok]] has_perm_create [OF c] in auto)
  ultimately show ?thesis by (simp add: sys_ok_def)
qed

lemma initialize_effect:
  assumes "initialize_native_accounts env abi t key = Inr s"
  obtains s1 s2 s3 e ap prods maj az mi az' where
    "create_native_account env abi t system_account_name (authority_of_key key 0) (authority_of_key key 0) True empty_system_state = Inr s1"
    "create_native_account env abi t null_account_name e e False s1 = Inr s2"
    "create_native_account env abi t producers_account_name e prods False s2 = Inr s3"
    "get_permission (Permission_Level producers_account_name active_name) (authz s3) = Inr ap"
    "create_permission (env_control env) producers_account_name majority_producers_permission_name (perm_id ap) prods t (authz s3) = Inr (maj, az)"
    "create_permission (env_control env) producers_account_name minority_producers_permission_name (perm_id maj) prods t az = Inr (mi, az')"
    "s = s3\<lparr> authz := az' \<rparr>"
  using assms unfolding initialize_native_accounts_def Let_def rbind_eq_Inr split_paired_Ex prod.case sum.inject
  by (elim exE conjE) (rule that, assumption+, rule sym, assumption)

lemma sys_ok_initialize:
  assumes "initialize_native_accounts env abi t key = Inr s"
  shows "sys_ok s"
  using assms
proof (cases rule: initialize_effect)
  case c: (1 s1 s2 s3 e ap prods maj az mi az')
  have n: "system_account_name \<noteq> Name 0" "null_account_name \<noteq> Name 0" "producers_account_name \<noteq> Name 0"
    "majority_producers_permission_name \<notin> {Name 0, owner_name, active_name}"
    "minority_producers_permission_name \<notin> {Name 0, owner_name, active_name}"
    by (simp_all add: name_values system_name_values)
  have s3: "sys_ok s3"
    using sys_ok_create_native_account [OF sys_ok_create_native_account [OF sys_ok_create_native_account
        [OF sys_ok_empty c(1) n(1)] c(2) n(2)] c(3) n(3)] .
  have ap: "ap \<in> set (live (permissions (authz s3)))" "perm_owner ap = producers_account_name"
    using get_permission_live [OF sys_okD(1) [OF s3] c(4)] get_permission_memD(2) [OF c(4)] by simp_all
  have s4: "sys_ok (s3\<lparr> authz := az \<rparr>)"
    by (rule sys_ok_create_permission [OF s3 ap(1) _ _ _ c(5) [folded ap(2)]]) (use n(4) in auto)
  have maj: "maj \<in> set (live (permissions az))" "perm_owner maj = producers_account_name"
    using create_permission_Inr(1,4,7) [OF c(5)] perms_okD(3,4) [OF auth_okD(1) [OF sys_okD(1) [OF s3]]] by fastforce+
  have "sys_ok (s3\<lparr> authz := az, authz := az' \<rparr>)"
    by (rule sys_ok_create_permission [OF s4, of maj]) (use maj c(6) n(5) in auto)
  then show ?thesis by (simp add: c(7))
qed

section \<open>Links\<close>

text \<open>Every link points to a permission of its account, or to the wildcard.\<close>

definition links_ok :: "system_state \<Rightarrow> bool" where
  "links_ok s \<longleftrightarrow> (\<forall>a c t r. db_find (permission_links (authz s)) (a, c, t) = Some r \<longrightarrow>
     r = eosio_any_name \<or> has_perm (authz s) a r)"

lemma links_ok_mono:
  assumes "links_ok s" "permission_links (authz s') = permission_links (authz s)"
    "\<And>a n. has_perm (authz s) a n \<Longrightarrow> has_perm (authz s') a n"
  shows "links_ok s'"
  using assms unfolding links_ok_def by metis

lemma links_ok_updateauth:
  assumes ok: "sys_ok s" and l: "links_ok s" and act: "apply_eosio_updateauth env act s = Inr s'"
  shows "links_ok s'"
  using act
proof (cases rule: updateauth_effect)
  case (modify u p)
  have p: "p \<in> set (permissions (authz s))" using get_permission_memD(1) [OF modify(1)] .
  have "list_all2 same_node (permissions (authz s)) (permissions (authz s'))"
    unfolding modify_permission_Inr [OF modify(2)]
    using modify_by_same_node [OF auth_okD(1) [OF sys_okD(1) [OF ok]] p same_node_refl_update] by simp
  from has_perm_same_nodes [OF this] show ?thesis
    by (intro links_ok_mono [OF l]) (simp_all add: modify_permission_Inr [OF modify(2)])
next
  case (create u p parent)
  show ?thesis
    by (rule links_ok_mono [OF l]) (simp_all add: create_permission_Inr(10) [OF create(7)] has_perm_create [OF create(7)])
qed

lemma links_ok_newaccount:
  assumes l: "links_ok s" and act: "apply_eosio_newaccount env act s = Inr s'"
  shows "links_ok s'"
  using act
proof (cases rule: newaccount_effect)
  case (1 create op ap az)
  show ?thesis
    by (rule links_ok_mono [OF l])
      (simp_all add: create_permission_Inr(10) [OF 1(7)] create_permission_Inr(10) [OF 1(8)] has_perm_create [OF 1(7)] has_perm_create [OF 1(8)])
qed

lemma links_ok_deleteauth:
  assumes ok: "sys_ok s" and l: "links_ok s" and act: "apply_eosio_deleteauth env act s = Inr s'"
  shows "links_ok s'"
  using act
proof (cases rule: deleteauth_effect)
  case (1 d p)
  note r = remove_permission_Inr [OF 1(5)]
  have p: "p \<in> set (permissions (authz s))" "perm_key p = (da_account d, da_permission d)"
    using get_permission_memD [OF 1(4)] by (simp_all add: perm_key_def)
  have keep: "has_perm (authz s') a n" if "has_perm (authz s) a n" "(a, n) \<noteq> (da_account d, da_permission d)" for a n
    using that p perm_id_inject [OF auth_okD(1) [OF sys_okD(1) [OF ok]] _ p(1)]
    by (auto simp: has_perm_def r(1) set_remove_by)
  show ?thesis unfolding links_ok_def
  proof (intro allI impI)
    fix a c t n assume "db_find (permission_links (authz s')) (a, c, t) = Some n"
    then have f: "db_find (permission_links (authz s)) (a, c, t) = Some n" by (simp add: r(1))
    then have "(a, n) \<noteq> (da_account d, da_permission d)" using 1(3) by auto
    then show "n = eosio_any_name \<or> has_perm (authz s') a n" using l f keep unfolding links_ok_def by blast
  qed
qed

lemma links_ok_linkauth:
  assumes l: "links_ok s" and act: "apply_eosio_linkauth env act s = Inr s'"
    and feature: "only_link_to_existing_permission (env_control env)"
  shows "links_ok s'"
  using act
proof (cases rule: linkauth_effect)
  case (1 req)
  have "la_requirement req = eosio_any_name \<or> has_perm (authz s) (la_account req) (la_requirement req)"
    using 1(1) feature find_by_SomeD by (fastforce simp: link_target_exists_def has_perm_def)
  then show ?thesis using l by (auto simp: links_ok_def 1(3) has_perm_def)
qed

lemma links_ok_unlinkauth:
  assumes l: "links_ok s" and act: "apply_eosio_unlinkauth env act s = Inr s'"
  shows "links_ok s'"
  using act
proof (cases rule: unlinkauth_effect)
  case (1 u)
  then show ?thesis using l by (auto simp: links_ok_def has_perm_def)
qed

lemma links_ok_canceldelay:
  assumes l: "links_ok s" and act: "apply_eosio_canceldelay env act s = Inr s'"
  shows "links_ok s'"
  using act
proof (cases rule: canceldelay_effect)
  case (cancelled g)
  then show ?thesis using l by (auto simp: links_ok_def has_perm_def)
qed (use l in simp)

lemma links_ok_setcode: "links_ok s \<Longrightarrow> apply_eosio_setcode env act s = Inr s' \<Longrightarrow> links_ok s'"
  by (erule setcode_effect, erule links_ok_mono) simp_all

lemma links_ok_setabi: "links_ok s \<Longrightarrow> apply_eosio_setabi env act s = Inr s' \<Longrightarrow> links_ok s'"
  by (erule setabi_effect, erule links_ok_mono) simp_all

lemma links_ok_apply_native:
  assumes "sys_ok s" "links_ok s" "only_link_to_existing_permission (env_control env)" "apply_native env act s = Inr s'"
  shows "links_ok s'"
  using assms(4)
  by (cases rule: apply_native_cases)
    (simp add: assms(2) | erule links_ok_newaccount [OF assms(2)] links_ok_setcode [OF assms(2)] links_ok_setabi [OF assms(2)]
      links_ok_updateauth [OF assms(1,2)] links_ok_deleteauth [OF assms(1,2)] links_ok_linkauth [OF assms(2) _ assms(3)]
      links_ok_unlinkauth [OF assms(2)] links_ok_canceldelay [OF assms(2)])+

lemma links_ok_initialize:
  assumes "initialize_native_accounts env abi t key = Inr s"
  shows "permission_links (authz s) = fmempty"
proof -
  have keep: "permission_links (authz s') = permission_links (authz s)"
    if "create_native_account env abi t a owner active privileged s = Inr s'" for a owner active privileged s s'
    using that
  proof (cases rule: create_native_account_effect)
    case (1 op az ap)
    show ?thesis by (simp add: create_permission_Inr(10) [OF 1(6)] create_permission_Inr(10) [OF 1(7)])
  qed
  show ?thesis
    using assms
  proof (cases rule: initialize_effect)
    case (1 s1 s2 s3 e ap prods maj az mi az')
    show ?thesis
      by (simp add: 1(7) create_permission_Inr(10) [OF 1(6)] create_permission_Inr(10) [OF 1(5)] keep [OF 1(3)] keep [OF 1(2)] keep [OF 1(1)])
        (simp add: empty_system_state_def auth_initialize_database_def)
  qed
qed

end
