(* ===== verification/System_Accounting.thy ===== *)
theory System_Accounting
  imports System_Contract_Facts
begin

text \<open>
  Reference counts of the stored codes, and the RAM that the native actions charge compared with the
  size of what they store.
\<close>

section \<open>Code references\<close>

definition code_key :: "account_metadata_object \<Rightarrow> digest \<times> u8 \<times> u8" where
  "code_key md = (md_code_hash md, md_vm_type md, md_vm_version md)"

definition code_users :: "(name, account_metadata_object) fmap \<Rightarrow> digest \<times> u8 \<times> u8 \<Rightarrow> name set" where
  "code_users mds k = {a. \<exists>md. db_find mds a = Some md \<and> md_code_hash md \<noteq> digest_default \<and> code_key md = k}"

text \<open>The count of a stored code is the number of accounts that run it, and no code is stored unused.\<close>

definition code_ok :: "(name, account_metadata_object) fmap \<Rightarrow> (digest \<times> u8 \<times> u8, code_object) fmap \<Rightarrow> digest \<times> u8 \<times> u8 \<Rightarrow> bool" where
  "code_ok mds t k \<longleftrightarrow> (case db_find t k of None \<Rightarrow> code_users mds k = {}
     | Some c \<Rightarrow> code_users mds k \<noteq> {} \<and> unat (code_ref_count c) = card (code_users mds k))"

definition codes_ok :: "system_state \<Rightarrow> bool" where
  "codes_ok s \<longleftrightarrow> (\<forall>k. code_ok (account_metadata s) (codes s) k)"

lemma finite_code_users: "finite (code_users mds k)"
  by (rule finite_subset [OF _ db.finite_keys [of mds]]) (auto simp: code_users_def)

lemma code_users_modify:
  "code_users (db_modify mds a md) k =
     (if md_code_hash md \<noteq> digest_default \<and> code_key md = k then insert a (code_users mds k - {a}) else code_users mds k - {a})"
  by (auto simp: code_users_def split: if_splits)

text \<open>There are fewer accounts than values of the counter.\<close>

lemma card_names_less: "finite A \<Longrightarrow> Name 0 \<notin> A \<Longrightarrow> card A < 2 ^ 64"
proof -
  assume A: "finite A" "Name 0 \<notin> A"
  have "inj_on name_value A" by (rule inj_onI) (metis name.expand)
  then have "card A = card (name_value ` A)" by (simp add: card_image)
  also have "\<dots> \<le> card (UNIV - {0 :: u64})"
    using A(2) by (intro card_mono) (auto, metis name.collapse)
  also have "\<dots> < card (UNIV :: u64 set)" by (rule psubset_card_mono) auto
  finally show ?thesis by (simp add: card_word)
qed

lemma code_okI:
  assumes "\<And>c. db_find t k = Some c \<Longrightarrow> users \<noteq> {} \<and> unat (code_ref_count c) = card users"
    and "db_find t k = None \<Longrightarrow> users = {}" and "code_users mds k = users"
  shows "code_ok mds t k"
  using assms by (auto simp: code_ok_def split: option.split)

lemma code_okD:
  assumes "code_ok mds t k"
  shows "db_find t k = Some c \<Longrightarrow> code_users mds k \<noteq> {} \<and> unat (code_ref_count c) = card (code_users mds k)"
    and "db_find t k = None \<Longrightarrow> code_users mds k = {}"
  using assms by (auto simp: code_ok_def)

text \<open>Taking an account off the code it runs.\<close>

lemma release_code_ok:
  assumes ok: "\<And>k. code_ok mds t k" and md: "db_find mds a = Some md" "md_code_hash md \<noteq> digest_default"
    and r: "release_code (code_key md) h t = Inr (old, t')" and md': "md_code_hash md' = digest_default"
  shows "code_ok (db_modify mds a md') t' k"
    and "\<exists>c. db_find t (code_key md) = Some c \<and> old = of_nat (length (code_bytes c)) * setcode_ram_bytes_multiplier"
    and "md_code_hash md \<noteq> h"
    and "\<exists>d. db_find t' k = Some d \<and> code_users (db_modify mds a md') k \<noteq> {} \<Longrightarrow>
      \<exists>c. db_find t k = Some c \<and> code_bytes (the (db_find t' k)) = code_bytes c"
proof -
  let ?k = "code_key md"
  obtain c where c: "db_find t ?k = Some c" "fst ?k \<noteq> h" "old = of_nat (length (code_bytes c)) * setcode_ram_bytes_multiplier"
    "t' = (if code_ref_count c = 1 then db_remove t ?k else db_modify t ?k (c\<lparr> code_ref_count := code_ref_count c - 1 \<rparr>))"
    using r by (auto simp: release_code_def Let_def split: if_splits)
  then show "\<exists>c. db_find t ?k = Some c \<and> old = of_nat (length (code_bytes c)) * setcode_ram_bytes_multiplier" "md_code_hash md \<noteq> h"
    by (auto simp: code_key_def)
  have users: "code_users (db_modify mds a md') k = code_users mds k - {a}" for k
    by (simp add: code_users_modify md')
  have a: "a \<in> code_users mds ?k" "k \<noteq> ?k \<Longrightarrow> a \<notin> code_users mds k" for k
    using md by (auto simp: code_users_def)
  have count: "unat (code_ref_count c) = card (code_users mds ?k)" using code_okD(1) [OF ok c(1)] by simp
  have one: "code_ref_count c = 1 \<longleftrightarrow> code_users mds ?k = {a}"
  proof -
    have "code_ref_count c = 1 \<longleftrightarrow> card (code_users mds ?k) = 1"
      using count by (metis unat_1 unsigned_word_eqI)
    then show ?thesis using a(1) by (metis card_1_singletonE is_singletonI is_singleton_altdef singletonD)
  qed
  show "code_ok (db_modify mds a md') t' k"
  proof (cases "k = ?k")
    case False
    then have "code_users mds k - {a} = code_users mds k" using a(2) by blast
    with False code_okD [OF ok, of k] show ?thesis
      by (intro code_okI [OF _ _ users]) (auto simp: c(4) split: if_splits)
  next
    case True
    show ?thesis
    proof (cases "code_ref_count c = 1")
      case one': True
      then show ?thesis
        using True one by (intro code_okI [OF _ _ users]) (simp_all add: c(4))
    next
      case False
      have "unat (code_ref_count c - 1) = card (code_users mds ?k) - 1"
      proof -
        have "1 \<le> code_ref_count c"
          using count a(1) finite_code_users [of mds ?k] by (auto simp: word_le_nat_alt card_gt_0_iff Suc_le_eq)
        then show ?thesis by (simp add: unat_sub count)
      qed
      then show ?thesis
        using True False one a(1) finite_code_users [of mds ?k]
        by (intro code_okI [OF _ _ users]) (auto simp: c(4) split: if_splits)
    qed
  qed
  show "\<exists>c. db_find t k = Some c \<and> code_bytes (the (db_find t' k)) = code_bytes c"
    if "\<exists>d. db_find t' k = Some d \<and> code_users (db_modify mds a md') k \<noteq> {}"
    using that c(1) by (auto simp: c(4) split: if_splits)
qed

text \<open>Putting an account that runs no code on a code.\<close>

lemma reference_code_ok:
  assumes ok: "\<And>k. code_ok mds t k" and free: "\<And>k. a \<notin> code_users mds k" and named: "\<And>k. Name 0 \<notin> insert a (code_users mds k)"
    and r: "reference_code env (code_key md') code t = Inr t'" and md': "md_code_hash md' \<noteq> digest_default"
  shows "code_ok (db_modify mds a md') t' k"
    and "\<exists>c. db_find t' (code_key md') = Some c \<and> (db_find t (code_key md') = None \<and> code_bytes c = code \<or>
      (\<exists>b. db_find t (code_key md') = Some b \<and> code_bytes c = code_bytes b))"
    and "k \<noteq> code_key md' \<Longrightarrow> db_find t' k = db_find t k"
    and "db_find t k = Some c \<Longrightarrow> \<exists>c'. db_find t' k = Some c' \<and> code_bytes c' = code_bytes c"
proof -
  let ?k = "code_key md'"
  have t': "t' = db_modify t ?k (case db_find t ?k of Some c \<Rightarrow> c\<lparr> code_ref_count := code_ref_count c + 1 \<rparr>
      | None \<Rightarrow> \<lparr> code_bytes = code, code_ref_count = 1, first_block_used = env_head_block_num env + 1 \<rparr>)"
    using r by (auto simp: reference_code_def split: option.splits)
  then show "\<exists>c. db_find t' ?k = Some c \<and> (db_find t ?k = None \<and> code_bytes c = code \<or>
      (\<exists>b. db_find t ?k = Some b \<and> code_bytes c = code_bytes b))"
    "k \<noteq> ?k \<Longrightarrow> db_find t' k = db_find t k"
    "db_find t k = Some c \<Longrightarrow> \<exists>c'. db_find t' k = Some c' \<and> code_bytes c' = code_bytes c"
    by (auto split: option.splits)
  have users: "code_users (db_modify mds a md') k = (if k = ?k then insert a (code_users mds k) else code_users mds k)" for k
    using md' free [of k] by (auto simp: code_users_modify)
  show "code_ok (db_modify mds a md') t' k"
  proof (cases "k = ?k")
    case False
    then show ?thesis using code_okD [OF ok, of k] by (intro code_okI [OF _ _ users]) (auto simp: t')
  next
    case True
    have new: "card (insert a (code_users mds k)) = card (code_users mds k) + 1"
      using free finite_code_users by simp
    have "card (insert a (code_users mds k)) < 2 ^ 64"
      by (rule card_names_less) (use named finite_code_users in auto)
    then have "unat (code_ref_count c + 1) = card (code_users mds k) + 1" if "db_find t k = Some c" for c
      using code_okD(1) [OF ok that] new by (subst unat_add_small) simp_all
    then show ?thesis
      using True new code_okD(2) [OF ok, of k]
      by (intro code_okI [OF _ _ users]) (auto simp: t' split: option.splits)
  qed
qed

text \<open>
  What is assumed of SHA-256 for a \<^verbatim>\<open>setcode\<close>: the hash of the new code is not zero, and a stored
  code with the same hash is the same code.
\<close>

definition hash_ok :: "apply_env \<Rightarrow> action \<Rightarrow> system_state \<Rightarrow> bool" where
  "hash_ok env act s \<longleftrightarrow> (\<forall>sc. act_data act = Setcode_Data sc \<longrightarrow>
     env_sha256 env (sc_code sc) \<noteq> digest_default \<and>
     (\<forall>c. db_find (codes s) (env_sha256 env (sc_code sc), 0, 0) = Some c \<longrightarrow> code_bytes c = sc_code sc))"

definition code_size :: "(name, account_metadata_object) fmap \<Rightarrow> (digest \<times> u8 \<times> u8, code_object) fmap \<Rightarrow> name \<Rightarrow> u64" where
  "code_size mds t a = (case db_find mds a of None \<Rightarrow> 0 | Some md \<Rightarrow>
     if md_code_hash md = digest_default then 0
     else case db_find t (code_key md) of None \<Rightarrow> 0
       | Some c \<Rightarrow> of_nat (length (code_bytes c)) * setcode_ram_bytes_multiplier)"

text \<open>A table that keeps the code of every user keeps its size.\<close>

definition keeps_code :: "(name, account_metadata_object) fmap \<Rightarrow> name \<Rightarrow> (digest \<times> u8 \<times> u8, code_object) fmap \<Rightarrow>
    (digest \<times> u8 \<times> u8, code_object) fmap \<Rightarrow> bool" where
  "keeps_code mds a t t' \<longleftrightarrow> (\<forall>k. code_users mds k - {a} \<noteq> {} \<longrightarrow>
     (\<exists>c c'. db_find t k = Some c \<and> db_find t' k = Some c' \<and> code_bytes c' = code_bytes c))"

lemma keeps_code_size:
  assumes "keeps_code mds a t t'" "b \<noteq> a"
  shows "code_size (db_modify mds a md') t' b = code_size mds t b"
proof (cases "db_find mds b")
  case (Some md)
  show ?thesis
  proof (cases "md_code_hash md = digest_default")
    case False
    then have "b \<in> code_users mds (code_key md) - {a}" using Some assms(2) by (auto simp: code_users_def)
    then obtain c c' where "db_find t (code_key md) = Some c" "db_find t' (code_key md) = Some c'" "code_bytes c' = code_bytes c"
      using assms(1) unfolding keeps_code_def by blast
    then show ?thesis using Some assms(2) False by (simp add: code_size_def)
  qed (use Some assms(2) in \<open>simp add: code_size_def\<close>)
qed (use assms(2) in \<open>simp add: code_size_def\<close>)

lemma code_ok_cong: "code_users mds' k = code_users mds k \<Longrightarrow> code_ok mds' t k = code_ok mds t k"
  by (simp add: code_ok_def split: option.split)

text \<open>The first half of \<open>setcode_tables\<close>: the account is taken off its old code, if it has one.\<close>

lemma setcode_release:
  assumes ok: "\<And>k. code_ok mds t k" and md: "db_find mds a = Some md"
    and r: "(if md_code_hash md \<noteq> digest_default then release_code (code_key md) h t else Inr (0, t)) = Inr (old, t')"
    and md0: "md_code_hash md0 = digest_default"
  shows "code_ok (db_modify mds a md0) t' k" "keeps_code mds a t t'" "old = code_size mds t a"
    "h \<noteq> digest_default \<Longrightarrow> md_code_hash md \<noteq> h"
proof -
  have users: "code_users (db_modify mds a md0) k = code_users mds k - {a}" for k
    by (simp add: code_users_modify md0)
  have all: "code_ok (db_modify mds a md0) t' k \<and> keeps_code mds a t t' \<and> old = code_size mds t a \<and> (h \<noteq> digest_default \<longrightarrow> md_code_hash md \<noteq> h)"
  proof (cases "md_code_hash md = digest_default")
    case True
    then have same: "code_users mds k - {a} = code_users mds k" for k using md by (auto simp: code_users_def)
    have "keeps_code mds a t t"
      unfolding keeps_code_def same by (metis code_okD(2) ok option.exhaust_sel)
    then show ?thesis
      using True r md ok code_ok_cong [of "db_modify mds a md0" k mds t] users same by (simp add: code_size_def)
  next
    case False
    then have r': "release_code (code_key md) h t = Inr (old, t')" using r by simp
    note rel = release_code_ok [OF ok md False r' md0]
    have "keeps_code mds a t t'" unfolding keeps_code_def
    proof (intro allI impI)
      fix k assume ne: "code_users mds k - {a} \<noteq> {}"
      then obtain d where d: "db_find t' k = Some d"
        using code_okD(2) [OF rel(1) [of k]] users by fastforce
      with rel(4) [of k] ne users obtain c where "db_find t k = Some c" "code_bytes (the (db_find t' k)) = code_bytes c" by auto
      with d show "\<exists>c c'. db_find t k = Some c \<and> db_find t' k = Some c' \<and> code_bytes c' = code_bytes c" by auto
    qed
    then show ?thesis using rel(1-3) False md by (auto simp: code_size_def)
  qed
  then show "code_ok (db_modify mds a md0) t' k" "keeps_code mds a t t'" "old = code_size mds t a"
    "h \<noteq> digest_default \<Longrightarrow> md_code_hash md \<noteq> h" by simp_all
qed

lemma db_modify_modify [simp]: "db_modify (db_modify t k v) k w = db_modify t k w"
  by (simp add: db_modify_def fmap_ext)

lemma setcode_tables_ok:
  assumes ok: "\<And>k. code_ok mds t k" and md: "db_find mds a = Some md" and named: "db_find mds (Name 0) = None"
    and hash: "sc_code sc \<noteq> [] \<Longrightarrow> env_sha256 env (sc_code sc) \<noteq> digest_default"
    "\<And>c. db_find t (env_sha256 env (sc_code sc), 0, 0) = Some c \<Longrightarrow> code_bytes c = sc_code sc"
    and r: "setcode_tables env sc md t = Inr (old, t')" and vm: "sc_vmtype sc = 0" "sc_vmversion sc = 0"
    and md': "md_code_hash md' = setcode_hash env sc" "md_vm_type md' = 0" "md_vm_version md' = 0"
  shows "\<And>k. code_ok (db_modify mds a md') t' k" "old = code_size mds t a"
    "code_size (db_modify mds a md') t' b = (if b = a then of_nat (length (sc_code sc)) * setcode_ram_bytes_multiplier else code_size mds t b)"
proof -
  define md0 where "md0 = md\<lparr> md_code_hash := digest_default \<rparr>"
  obtain t1 where t1: "(if md_code_hash md \<noteq> digest_default then release_code (code_key md) (setcode_hash env sc) t else Inr (0, t)) = Inr (old, t1)"
    and t': "(if length (sc_code sc) > 0 then reference_code env (setcode_hash env sc, 0, 0) (sc_code sc) t1 else Inr t1) = Inr t'"
    using r unfolding setcode_tables_def Let_def vm code_key_def [symmetric] by auto
  have "md_code_hash md0 = digest_default" by (simp add: md0_def)
  note rel = setcode_release [OF ok md t1 this]
  show "old = code_size mds t a" by (rule rel(3))
  have named': "a \<noteq> Name 0" "Name 0 \<notin> code_users mds k" for k using md named by (auto simp: code_users_def)
  have free: "a \<notin> code_users (db_modify mds a md0) k" "Name 0 \<notin> insert a (code_users (db_modify mds a md0) k)" for k
    using named' by (auto simp: code_users_modify md0_def)
  have all: "(\<forall>k. code_ok (db_modify mds a md') t' k) \<and> keeps_code mds a t t' \<and>
      code_size (db_modify mds a md') t' a = of_nat (length (sc_code sc)) * setcode_ram_bytes_multiplier"
  proof (cases "sc_code sc = []")
    case True
    then have "md_code_hash md' = digest_default" "t' = t1" using md'(1) t' by (simp_all add: setcode_hash_def)
    then show ?thesis
      using rel(1,2) True code_ok_cong [of "db_modify mds a md'" _ "db_modify mds a md0"]
      by (simp add: code_users_modify md0_def code_size_def)
  next
    case False
    let ?k = "(env_sha256 env (sc_code sc), 0, 0)"
    have h: "setcode_hash env sc = env_sha256 env (sc_code sc)" using False by (simp add: setcode_hash_def)
    have key: "code_key md' = ?k" "md_code_hash md' \<noteq> digest_default"
      using hash(1) [OF False] md' h by (simp_all add: code_key_def)
    have r': "reference_code env (code_key md') (sc_code sc) t1 = Inr t'" using t' False h key(1) by simp
    note ref = reference_code_ok [OF rel(1) free(1,2) r' key(2)]
    have keeps: "keeps_code mds a t t'"
      using rel(2) ref(4) unfolding keeps_code_def by metis
    have bytes: "code_bytes c = sc_code sc" if c: "db_find t1 ?k = Some c" for c
    proof -
      have "code_users (db_modify mds a md0) ?k \<noteq> {}" using code_okD(1) [OF rel(1) c] by simp
      then have "code_users mds ?k - {a} \<noteq> {}" by (simp add: code_users_modify md0_def)
      then show ?thesis using rel(2) c hash(2) unfolding keeps_code_def by fastforce
    qed
    have "code_size (db_modify mds a md') t' a = of_nat (length (sc_code sc)) * setcode_ram_bytes_multiplier"
      using ref(2) bytes key by (auto simp: code_size_def)
    then show ?thesis using ref(1) keeps by simp
  qed
  then show "\<And>k. code_ok (db_modify mds a md') t' k"
    "code_size (db_modify mds a md') t' b = (if b = a then of_nat (length (sc_code sc)) * setcode_ram_bytes_multiplier else code_size mds t b)"
    using keeps_code_size [of mds a t t' b md'] by auto
qed

lemma codes_okD: "codes_ok s \<Longrightarrow> code_ok (account_metadata s) (codes s) k"
  unfolding codes_ok_def by blast

lemma code_users_same:
  assumes "db_find mds a = Some md" "md_code_hash md' = md_code_hash md" "code_key md' = code_key md"
  shows "code_users (db_modify mds a md') k = code_users mds k"
  using assms by (auto simp: code_users_def)

lemma code_users_new:
  assumes "db_find mds a = None" "md_code_hash md' = digest_default"
  shows "code_users (db_modify mds a md') k = code_users mds k"
  using assms by (auto simp: code_users_def)

lemma codes_ok_cong:
  assumes "codes_ok s" "codes s' = codes s" "\<And>k. code_users (account_metadata s') k = code_users (account_metadata s) k"
  shows "codes_ok s'"
  using assms code_ok_cong unfolding codes_ok_def by metis

lemma hash_ok_setcode:
  assumes "hash_ok env act s" "act_data act = Setcode_Data sc"
  shows "env_sha256 env (sc_code sc) \<noteq> digest_default"
    "db_find (codes s) (env_sha256 env (sc_code sc), 0, 0) = Some c \<Longrightarrow> code_bytes c = sc_code sc"
  using assms by (simp_all add: hash_ok_def)

lemma no_metadata_unnamed: "sys_ok s \<Longrightarrow> db_find (account_metadata s) (Name 0) = None"
  using accounts_okD(1,5) [OF sys_okD(3)] by blast

lemma codes_ok_apply_native:
  assumes ok: "sys_ok s" "codes_ok s" and hash: "hash_ok env act s" and act: "apply_native env act s = Inr s'"
  shows "codes_ok s'"
  using act
proof (cases rule: apply_native_cases)
  case newaccount
  then show ?thesis
    by (rule newaccount_effect) (rule codes_ok_cong [OF ok(2)], simp_all add: code_users_new new_account_metadata_def)
next
  case setcode
  then show ?thesis
  proof (cases rule: setcode_effect)
    case (1 sc md old_size)
    note t = setcode_tables_ok(1) [OF codes_okD [OF ok(2)] 1(4) no_metadata_unnamed [OF ok(1)]
        hash_ok_setcode [OF hash 1(1)] 1(5,2,3)]
    show ?thesis unfolding codes_ok_def 1(6) by (intro allI t) simp_all
  qed
next
  case setabi
  then show ?thesis
    by (rule setabi_effect) (rule codes_ok_cong [OF ok(2)], simp_all add: code_users_same code_key_def)
next
  case updateauth
  then show ?thesis by (rule updateauth_effect; intro codes_ok_cong [OF ok(2)]; simp)
next
  case deleteauth
  then show ?thesis by (rule deleteauth_effect; intro codes_ok_cong [OF ok(2)]; simp)
next
  case linkauth
  then show ?thesis by (rule linkauth_effect; intro codes_ok_cong [OF ok(2)]; simp)
next
  case unlinkauth
  then show ?thesis by (rule unlinkauth_effect; intro codes_ok_cong [OF ok(2)]; simp)
next
  case canceldelay
  then show ?thesis by (rule canceldelay_effect; intro codes_ok_cong [OF ok(2)]; simp)
qed (use ok in simp)

section \<open>What an account is charged for\<close>

definition perms_size :: "apply_env \<Rightarrow> permission_object list \<Rightarrow> name \<Rightarrow> u64" where
  "perms_size env ps a = sum_list (map (\<lambda>p. if perm_owner p = a then permission_size env (perm_auth p) else 0) ps)"

definition links_size :: "(name \<times> name \<times> name, name) fmap \<Rightarrow> name \<Rightarrow> u64" where
  "links_size links a = of_nat (db.total (\<lambda>k _. if fst k = a then 1 else 0) links) * billable_size_permission_link_object"

definition deferred_size :: "generated_transaction_object list \<Rightarrow> name \<Rightarrow> u64" where
  "deferred_size gts a = sum_list (map (\<lambda>g. if gt_payer g = a
     then billable_size_generated_transaction_object + of_nat (gt_packed_size g) else 0) gts)"

definition abi_size :: "(name, account_object) fmap \<Rightarrow> name \<Rightarrow> u64" where
  "abi_size accs a = (case db_find accs a of None \<Rightarrow> 0 | Some acc \<Rightarrow> overhead_per_account_ram_bytes + of_nat (length (acc_abi acc)))"

definition stored_size :: "apply_env \<Rightarrow> system_state \<Rightarrow> name \<Rightarrow> u64" where
  "stored_size env s a = abi_size (accounts s) a + code_size (account_metadata s) (codes s) a +
     perms_size env (permissions (authz s)) a + links_size (permission_links (authz s)) a +
     deferred_size (generated_transactions (authz s)) a"

lemma sum_list_modify_by:
  fixes f :: "'v \<Rightarrow> 'a::ab_group_add"
  assumes "distinct (map key t)" "v \<in> set t" "key v' = key v"
  shows "sum_list (map f (modify_by key t v')) = sum_list (map f t) - f v + f v'"
  using assms
proof (induction t)
  case (Cons u t)
  show ?case
  proof (cases "u = v")
    case True
    have "key w \<noteq> key v" if "w \<in> set t" for w using Cons.prems(1) True that by (auto simp: rev_image_eqI)
    then have "modify_by key t v' = t" using Cons.prems(3) by (simp add: modify_by_def map_idI)
    then show ?thesis using True Cons.prems(3) by (simp add: modify_by_def)
  next
    case False
    then have "key u \<noteq> key v'" "v \<in> set t" using Cons.prems by auto
    then show ?thesis using Cons by (simp add: modify_by_def)
  qed
qed simp

lemma sum_list_remove_by:
  fixes f :: "'v \<Rightarrow> 'a::ab_group_add"
  assumes "distinct (map key t)" "v \<in> set t"
  shows "sum_list (map f (remove_by key t (key v))) = sum_list (map f t) - f v"
  using assms
proof (induction t)
  case (Cons u t)
  show ?case
  proof (cases "u = v")
    case True
    have "key w \<noteq> key v" if "w \<in> set t" for w using Cons.prems(1) True that by (auto simp: rev_image_eqI)
    then have "remove_by key t (key v) = t" by (simp add: remove_by_def)
    then show ?thesis using True by (simp add: remove_by_def)
  next
    case False
    then have "key u \<noteq> key v" "v \<in> set t" using Cons.prems by auto
    then show ?thesis using Cons by (simp add: remove_by_def)
  qed
qed simp

lemma perms_size_create:
  assumes "create_permission ctl account name parent auth t m = Inr (p, m')"
  shows "perms_size env (permissions m') a = perms_size env (permissions m) a + (if a = account then permission_size env auth else 0)"
  using create_permission_Inr [OF assms] by (auto simp: perms_size_def)

lemma perms_size_modify:
  assumes "perms_ok (permissions m) n" "p \<in> set (permissions m)" "modify_permission ctl p auth m = Inr m'"
  shows "perms_size env (permissions m') a = perms_size env (permissions m) a +
    (if a = perm_owner p then permission_size env auth - permission_size env (perm_auth p) else 0)"
  using sum_list_modify_by [OF perms_okD(1) [OF assms(1)] assms(2),
      where v' = "p\<lparr> perm_auth := auth, last_updated := pending_block_time ctl \<rparr>"
        and f = "\<lambda>p. if perm_owner p = a then permission_size env (perm_auth p) else 0"]
  by (simp add: perms_size_def modify_permission_Inr [OF assms(3)])

lemma perms_size_remove:
  assumes "perms_ok (permissions m) n" "p \<in> set (permissions m)" "remove_permission p m = Inr m'"
  shows "perms_size env (permissions m') a = perms_size env (permissions m) a -
    (if a = perm_owner p then permission_size env (perm_auth p) else 0)"
  using sum_list_remove_by [OF perms_okD(1) [OF assms(1)] assms(2),
      where f = "\<lambda>p. if perm_owner p = a then permission_size env (perm_auth p) else 0"]
  by (simp add: perms_size_def remove_permission_Inr(1) [OF assms(3)])

lemma links_size_modify:
  "links_size (db_modify links k r) a =
     links_size links a + (if fst k = a \<and> db_find links k = None then billable_size_permission_link_object else 0)"
proof (cases "db_find links k")
  case None
  show ?thesis by (auto simp: links_size_def db.total_create [OF None] None algebra_simps)
next
  case (Some v)
  show ?thesis
    using db.total_modify [OF Some, of "\<lambda>k _. if fst k = a then 1 else 0" r] by (simp add: links_size_def Some)
qed

lemma links_size_remove:
  assumes "db_find links k \<noteq> None"
  shows "links_size (db_remove links k) a = links_size links a - (if fst k = a then billable_size_permission_link_object else 0)"
proof -
  obtain v where "db_find links k = Some v" using assms by blast
  define f where "f = (\<lambda>(k :: name \<times> name \<times> name) (_ :: name). if fst k = a then 1 else 0 :: nat)"
  have "db.total f links = db.total f (db_remove links k) + f k v"
    using db.total_remove [OF \<open>db_find links k = Some v\<close>, of f] by (rule sym)
  then have "of_nat (db.total f links) = (of_nat (db.total f (db_remove links k)) + of_nat (f k v) :: u64)"
    by (simp only: of_nat_add)
  moreover have "(of_nat (f k v) :: u64) = (if fst k = a then 1 else 0)" by (simp add: f_def)
  ultimately show ?thesis by (simp add: links_size_def f_def [symmetric] distrib_right)
qed

lemma deferred_size_remove:
  assumes "distinct (map (\<lambda>g. (gt_sender g, gt_sender_id g)) gts)"
    "find_by (\<lambda>g. (gt_sender g, gt_sender_id g)) gts (gt_sender g, gt_sender_id g) = Some g"
  shows "deferred_size (remove_by (\<lambda>g. (gt_sender g, gt_sender_id g)) gts (gt_sender g, gt_sender_id g)) a =
    deferred_size gts a - (if a = gt_payer g then billable_size_generated_transaction_object + of_nat (gt_packed_size g) else 0)"
proof -
  have "g \<in> set gts" using find_by_SomeD [OF assms(2)] by simp
  from sum_list_remove_by [OF assms(1) this, where f = "\<lambda>g. if gt_payer g = a
     then billable_size_generated_transaction_object + of_nat (gt_packed_size g) else 0"] show ?thesis by (simp add: deferred_size_def)
qed

text \<open>The RAM of an account moves with the size of what is stored for it.\<close>

definition charged_exactly :: "apply_env \<Rightarrow> system_state \<Rightarrow> system_state \<Rightarrow> name \<Rightarrow> bool" where
  "charged_exactly env s s' a \<longleftrightarrow> ram_of s' a - ram_of s a = stored_size env s' a - stored_size env s a"

lemma charged_exactlyI:
  assumes "ram_of s' a = ram_of s a + d" "stored_size env s' a = stored_size env s a + d"
  shows "charged_exactly env s s' a"
  using assms by (simp add: charged_exactly_def)

lemma charged_newaccount:
  assumes "apply_eosio_newaccount env act s = Inr s'"
  shows "charged_exactly env s s' a"
  using assms
proof (cases rule: newaccount_effect)
  case (1 create op ap az)
  note l = create_permission_Inr(10,11) [OF 1(7)] create_permission_Inr(10,11) [OF 1(8)]
  let ?d = "if a = na_name create then overhead_per_account_ram_bytes + permission_size env (na_owner create) +
      permission_size env (na_active create) else 0"
  have "ram_of s' a = ram_of s a + ?d"
    using 1(9) 1(10) [of a] by (auto simp: permission_size_def ram_of_def)
  moreover have "stored_size env s' a = stored_size env s a + ?d"
    using 1(2,3)
    by (auto simp: stored_size_def l perms_size_create [OF 1(7)] perms_size_create [OF 1(8)] 1(4-6) abi_size_def
        code_size_def new_account_metadata_def)
  ultimately show ?thesis by (rule charged_exactlyI)
qed

lemma charged_setcode:
  assumes ok: "sys_ok s" "codes_ok s" and hash: "hash_ok env act s" and act: "apply_eosio_setcode env act s = Inr s'"
  shows "charged_exactly env s s' a"
  using act
proof (cases rule: setcode_effect)
  case (1 sc md old_size)
  note t = setcode_tables_ok [OF codes_okD [OF ok(2)] 1(4) no_metadata_unnamed [OF ok(1)]
      hash_ok_setcode [OF hash 1(1)] 1(5,2,3)]
  have "code_size (account_metadata s') (codes s') a =
      (if a = sc_account sc then of_nat (length (sc_code sc)) * setcode_ram_bytes_multiplier else code_size (account_metadata s) (codes s) a)"
    unfolding 1(6) by (rule t(3)) simp_all
  moreover have "old_size = code_size (account_metadata s) (codes s) (sc_account sc)"
    by (rule t(2) [where md' = "md\<lparr> md_code_hash := setcode_hash env sc, md_vm_type := 0, md_vm_version := 0 \<rparr>"]) simp_all
  ultimately show ?thesis
    using 1(9) [of a] by (auto simp: charged_exactly_def stored_size_def 1(7,8))
qed

lemma charged_setabi:
  assumes "apply_eosio_setabi env act s = Inr s'"
  shows "charged_exactly env s s' a"
  using assms
proof (cases rule: setabi_effect)
  case (1 sa account md)
  have "code_size (account_metadata s') (codes s') a = code_size (account_metadata s) (codes s) a"
    using 1(2) by (auto simp: code_size_def 1(4,5) code_key_def)
  then show ?thesis
    using 1(1) 1(7) [of a] by (auto simp: charged_exactly_def stored_size_def 1(3,6) abi_size_def)
qed

lemma charged_updateauth:
  assumes ok: "sys_ok s" and act: "apply_eosio_updateauth env act s = Inr s'"
  shows "charged_exactly env s s' a"
  using act
proof (cases rule: updateauth_effect)
  case (modify u p)
  note m = perms_size_modify [OF auth_okD(1) [OF sys_okD(1) [OF ok]] get_permission_memD(1) [OF modify(1)] modify(2)]
  have "permission_links (authz s') = permission_links (authz s)" "generated_transactions (authz s') = generated_transactions (authz s)"
    by (simp_all add: modify_permission_Inr [OF modify(2)])
  then show ?thesis
    using modify(6) [of a] by (auto simp: charged_exactly_def stored_size_def m modify(3-5))
next
  case (create u p parent)
  show ?thesis
    using create(11) [of a]
    by (auto simp: charged_exactly_def stored_size_def perms_size_create [OF create(7)] create_permission_Inr(10,11) [OF create(7)] create(8-10))
qed

lemma charged_deleteauth:
  assumes ok: "sys_ok s" and act: "apply_eosio_deleteauth env act s = Inr s'"
  shows "charged_exactly env s s' a"
  using act
proof (cases rule: deleteauth_effect)
  case (1 d p)
  note m = perms_size_remove [OF auth_okD(1) [OF sys_okD(1) [OF ok]] get_permission_memD(1) [OF 1(4)] 1(5)]
  have "permission_links (authz s') = permission_links (authz s)" "generated_transactions (authz s') = generated_transactions (authz s)"
    by (simp_all add: remove_permission_Inr(1) [OF 1(5)])
  then show ?thesis
    using 1(9) [of a] get_permission_memD(2) [OF 1(4)] by (auto simp: charged_exactly_def stored_size_def m 1(6-8))
qed

lemma charged_linkauth: "apply_eosio_linkauth env act s = Inr s' \<Longrightarrow> charged_exactly env s s' a"
  by (erule linkauth_effect) (auto simp: charged_exactly_def stored_size_def links_size_modify)

lemma charged_unlinkauth: "apply_eosio_unlinkauth env act s = Inr s' \<Longrightarrow> charged_exactly env s s' a"
  by (erule unlinkauth_effect) (auto simp: charged_exactly_def stored_size_def links_size_remove)

lemma charged_canceldelay:
  assumes "distinct (map (\<lambda>g. (gt_sender g, gt_sender_id g)) (generated_transactions (authz s)))"
    and "apply_eosio_canceldelay env act s = Inr s'"
  shows "charged_exactly env s s' a"
  using assms(2)
proof (cases rule: canceldelay_effect)
  case (cancelled g)
  show ?thesis
    using cancelled(6) [of a] deferred_size_remove [OF assms(1) cancelled(1), of a]
    by (auto simp: charged_exactly_def stored_size_def cancelled(2-5))
qed (simp add: charged_exactly_def)

lemma charged_apply_native:
  assumes ok: "sys_ok s" "codes_ok s" and hash: "hash_ok env act s"
    and d: "distinct (map (\<lambda>g. (gt_sender g, gt_sender_id g)) (generated_transactions (authz s)))"
    and act: "apply_native env act s = Inr s'"
  shows "charged_exactly env s s' a"
  using act
proof (cases rule: apply_native_cases)
  case setcode
  then show ?thesis by (rule charged_setcode [OF ok hash])
next
  case updateauth
  then show ?thesis by (rule charged_updateauth [OF ok(1)])
next
  case deleteauth
  then show ?thesis by (rule charged_deleteauth [OF ok(1)])
next
  case canceldelay
  then show ?thesis by (rule charged_canceldelay [OF d])
next
  case none
  then show ?thesis by (simp add: charged_exactly_def)
qed (rule charged_newaccount charged_setabi charged_linkauth charged_unlinkauth, assumption)+

end
