(* ===== verification/System_Properties.thy ===== *)
theory System_Properties
  imports System_Accounting
begin

text \<open>
  The states that the native actions reach, and what holds in all of them: the ownership of accounts,
  the accounting of RAM and of codes, and the authority of the owner key.
\<close>

section \<open>Reachable states\<close>

text \<open>
  The states that the native actions can reach from the first accounts. The flag says that the protocol
  feature that forbids links to missing permissions is active in every block.
\<close>

inductive sys_reachable :: "bool \<Rightarrow> system_state \<Rightarrow> bool" for only_link :: bool where
  genesis: "initialize_native_accounts env abi t key = Inr s \<Longrightarrow> sys_reachable only_link s"
| native_action: "sys_reachable only_link s \<Longrightarrow> apply_native env act s = Inr s' \<Longrightarrow> hash_ok env act s \<Longrightarrow>
    (only_link \<Longrightarrow> only_link_to_existing_permission (env_control env)) \<Longrightarrow> sys_reachable only_link s'"

lemma create_native_account_codes:
  assumes "create_native_account env abi t a owner active privileged s = Inr s'" "codes_ok s"
  shows "codes_ok s'"
  using assms(1)
proof (cases rule: create_native_account_effect)
  case (1 op az ap)
  show ?thesis
    by (rule codes_ok_cong [OF assms(2)])
      (simp_all add: 1(4,5) code_users_new [OF 1(2)] set_privileged_def new_account_metadata_def)
qed

lemma codes_ok_initialize:
  assumes "initialize_native_accounts env abi t key = Inr s"
  shows "codes_ok s"
  using assms
proof (cases rule: initialize_effect)
  case (1 s1 s2 s3 e ap prods maj az mi az')
  have "codes_ok empty_system_state"
    by (simp add: codes_ok_def code_ok_def empty_system_state_def db_find_def code_users_def)
  then have "codes_ok s3"
    using create_native_account_codes [OF 1(1)] create_native_account_codes [OF 1(2)]
      create_native_account_codes [OF 1(3)] by blast
  then show ?thesis by (rule codes_ok_cong) (simp_all add: 1(7))
qed

lemma sys_reachable_ok:
  assumes "sys_reachable only_link s"
  shows "sys_ok s \<and> codes_ok s \<and> (only_link \<longrightarrow> links_ok s)"
  using assms
proof induction
  case (genesis env abi t key s)
  have "links_ok s" by (simp add: links_ok_def links_ok_initialize [OF genesis] db_find_def)
  then show ?case using sys_ok_initialize [OF genesis] codes_ok_initialize [OF genesis] by simp
next
  case (native_action s env act s')
  then show ?case
    using sys_ok_apply_native codes_ok_apply_native links_ok_apply_native by blast
qed

section \<open>The owner permission\<close>

lemma owner_permission:
  assumes ok: "sys_ok s" and p: "p \<in> set (permissions (authz s))" "perm_id p \<noteq> 0"
  obtains q where "q \<in> set (permissions (authz s))" "perm_id q \<noteq> 0" "perm_key q = (perm_owner p, owner_name)"
    "(perm_id q, perm_id p) \<in> (parent_rel (permissions (authz s)))\<^sup>*"
proof -
  note po = auth_okD(1) [OF sys_okD(1) [OF ok]]
  obtain r where r: "r \<in> set (permissions (authz s))" "perm_id r \<noteq> 0" "parent_id r = 0" "perm_owner r = perm_owner p"
    "(perm_id r, perm_id p) \<in> (parent_rel (permissions (authz s)))\<^sup>*"
    using root_reaches [OF po p] by blast
  moreover have "perm_name r = owner_name" using perms_okD(5) [OF po r(1)] r(2,3) by (simp add: perm_ok_def)
  ultimately show thesis using that [of r] by (simp add: perm_key_def)
qed

lemma account_permission:
  assumes ok: "sys_ok s" and a: "db_find (accounts s) a \<noteq> None" and n: "has_perm (authz s) a n" "n \<noteq> Name 0"
  obtains p where "p \<in> set (permissions (authz s))" "perm_id p \<noteq> 0" "perm_owner p = a" "perm_name p = n"
    "get_permission (Permission_Level a n) (authz s) = Inr p"
proof -
  obtain p where p: "p \<in> set (permissions (authz s))" "perm_owner p = a" "perm_name p = n"
    using n(1) by (auto simp: has_perm_def perm_key_def)
  then have "perm_id p \<noteq> 0"
    using perms_okD(5) [OF auth_okD(1) [OF sys_okD(1) [OF ok]] p(1)] n(2) by (auto simp: perm_ok_def perm_key_def split: if_splits)
  then show thesis
    using that [of p] p get_permission_mem [OF sys_okD(1) [OF ok] p(1), of "Permission_Level a n"] by simp
qed

lemma owner_satisfies_all:
  assumes ok: "sys_ok s" and a: "db_find (accounts s) a \<noteq> None"
    and p: "p \<in> set (permissions (authz s))" "perm_owner p = a"
  shows "assert_satisfies (Permission_Level a owner_name) p (authz s) = Inr ()"
proof -
  have nz: "perm_id p \<noteq> 0"
    using perms_okD(5) [OF auth_okD(1) [OF sys_okD(1) [OF ok]] p(1)] accounts_okD(1) [OF sys_okD(3) [OF ok] a] p(2)
    by (auto simp: perm_ok_def perm_key_def split: if_splits)
  obtain q where q: "q \<in> set (permissions (authz s))" "perm_id q \<noteq> 0" "perm_key q = (a, owner_name)"
    "(perm_id q, perm_id p) \<in> (parent_rel (permissions (authz s)))\<^sup>*"
    using owner_permission [OF ok p(1) nz] p(2) by metis
  then have "get_permission (Permission_Level a owner_name) (authz s) = Inr q"
    using get_permission_mem [OF sys_okD(1) [OF ok] q(1), of "Permission_Level a owner_name"] by (simp add: perm_key_def)
  then show ?thesis
    using assert_satisfies_iff [OF sys_okD(1) [OF ok] p(1)] q p(2) by (auto simp: perm_key_def)
qed

section \<open>The owner key always suffices\<close>

lemma meta_permissions_key: "meta_permissions (authority_of_key k 0) = [Key_Factor \<lparr> kw_key = k, kw_weight = 1 \<rparr>]"
  by (simp add: meta_permissions_def factors_def authority_of_key_def)

lemma single_key_satisfied:
  assumes "permission_to_authority c l = Some (authority_of_key k 0)" "provided_keys c = [k]" "provided_permissions c = []"
    "0 < recursion_depth_limit c"
  shows "fst (satisfied_permission c l None [False]) \<and> used_marks (snd (satisfied_permission c l None [False])) = [True]"
proof -
  have "threshold (authority_of_key k 0) = 1" by (simp add: authority_of_key_def)
  then show ?thesis
    using assms
    by (simp add: satisfied_permission_def visit.simps tally.simps meta_permissions_key permission_status_in_cache_def
        initialize_permission_cache_def Let_def)
qed

lemma delay_list_single: "delay_list (fmupd l d fmempty) = [(l, d)]"
proof -
  have "fmdom (fmupd l d fmempty) = {|l|}" by simp
  moreover have "sorted_list_of_fset {|l|} = [l]"
    by (simp add: sorted_list_of_fset.rep_eq)
  ultimately show ?thesis by (simp add: delay_list_def)
qed

lemma check_authorization_single_key:
  assumes auth: "authority_of m l = Some (authority_of_key k 0)" and depth: "0 < max_authority_depth ctl"
    and act: "act_authorization act = [l]" "check_special ctl (effective_delay ctl d) act m = Inr (special, d')"
      "special \<or> check_minimum act m l = Inr ()"
  shows "check_authorization ctl [act] [k] [] d False False [] m = Inr ()"
proof -
  define c where "c = make_auth_checker ctl m [k] [] (effective_delay ctl d)"
  have acts: "rfold (check_action ctl (effective_delay ctl d) [] m) [act] fmempty = Inr (fmupd l d' fmempty)"
    using act by (auto simp: check_action_def check_declared_auth_def require_with_delay_def)
  have sat: "fst (satisfied_permission_delay c l d' None [False])"
    "used_marks (snd (satisfied_permission_delay c l d' None [False])) = [True]"
    using single_key_satisfied [of "c\<lparr> provided_delay := d' \<rparr>" l k] auth depth
    by (simp_all add: satisfied_permission_delay_def c_def make_auth_checker_def)
  have "check_permissions c False [(l, d')] [False] = Inr [True]"
    using sat by (simp add: check_permissions_def case_prod_unfold Let_def)
  moreover have "initial_marks c = [False]" by (simp add: initial_marks_def c_def make_auth_checker_def)
  ultimately show ?thesis
    using acts by (simp add: check_authorization_def c_def [symmetric] Let_def delay_list_single all_keys_used_def)
qed

lemma owner_meets_minimum:
  assumes ok: "sys_ok s" "links_ok s" and a: "db_find (accounts s) a \<noteq> None"
    and act: "\<not> (act_account act = system_account_name \<and> native_auth_action (act_name act))"
  shows "check_minimum act (authz s) (Permission_Level a owner_name) = Inr ()"
proof -
  have named: "n \<noteq> Name 0" if n: "has_perm (authz s) a n" for n
  proof -
    obtain p where p: "p \<in> set (permissions (authz s))" "perm_key p = (a, n)" using n by (auto simp: has_perm_def)
    show ?thesis
      using perms_okD(5) [OF auth_okD(1) [OF sys_okD(1) [OF ok(1)]] p(1)] accounts_okD(1) [OF sys_okD(3) [OF ok(1)] a] p(2)
      by (auto simp: perm_ok_def perm_key_def split: if_splits)
  qed
  have fine: "rbind (get_permission (Permission_Level a n) (authz s)) (\<lambda>q. assert_satisfies (Permission_Level a owner_name) q (authz s)) = Inr ()"
    if n: "has_perm (authz s) a n" for n
  proof -
    obtain p where "p \<in> set (permissions (authz s))" "perm_owner p = a" "get_permission (Permission_Level a n) (authz s) = Inr p"
      using account_permission [OF ok(1) a n named [OF n]] by metis
    then show ?thesis using owner_satisfies_all [OF ok(1) a] by simp
  qed
  let ?l = "lookup_linked_permission a (act_account act) (act_name act) (authz s)"
  have linked: "r = eosio_any_name \<or> has_perm (authz s) a r" if "?l = Some r" for r
    using ok(2) that by (auto simp: lookup_linked_permission_def links_ok_def split: option.splits)
  have active: "has_perm (authz s) a active_name" using accounts_okD(3) [OF sys_okD(3) [OF ok(1)] a] .
  show ?thesis
    using act fine [OF active] linked fine
    by (cases ?l) (auto simp: check_minimum_def lookup_minimum_permission_def)
qed

section \<open>Properties\<close>

definition sample_env :: apply_env where
  "sample_env = \<lparr> env_control = sample_control, env_read_only = False, env_enforce_key_list = False, env_key_blacklist = [],
     env_sha256 = (\<lambda>c. Digest 1 0 0 (of_nat (length c))), env_wasm_validate = (\<lambda>c. Inr ()), env_key_size = (\<lambda>k. 34),
     env_head_block_num = 1, env_disable_deferred = True \<rparr>"

definition sample_genesis :: "system_state res" where
  "sample_genesis = initialize_native_accounts sample_env [0, 1] 1 (sample_key 1)"

definition sample_state :: system_state where
  "sample_state = (case sample_genesis of Inl _ \<Rightarrow> empty_system_state | Inr s \<Rightarrow> s)"

lemma sample_genesis_ok: "sample_genesis = Inr sample_state"
proof -
  have "(case sample_genesis of Inl _ \<Rightarrow> False | Inr _ \<Rightarrow> True)" by code_simp
  then obtain s where "sample_genesis = Inr s" by (auto split: sum.splits)
  then show ?thesis unfolding sample_state_def by - (erule ssubst, simp)
qed

lemma sample_state_reachable: "sys_reachable b sample_state"
  by (rule sys_reachable.genesis) (rule sample_genesis_ok [unfolded sample_genesis_def])

text \<open>C2: in every state that the native actions can reach, every account has an owner permission
  without a parent and an active permission directly below it, and its owner permission satisfies
  every permission of the account: no sequence of \<^verbatim>\<open>updateauth\<close> and \<^verbatim>\<open>deleteauth\<close> can detach one.\<close>

theorem reachable_accounts_owned:
  assumes "sys_reachable only_link s" and "db_find (accounts s) a \<noteq> None"
  shows "(\<exists>ow ac. get_permission (Permission_Level a owner_name) (authz s) = Inr ow \<and> parent_id ow = 0 \<and>
      get_permission (Permission_Level a active_name) (authz s) = Inr ac \<and> parent_id ac = perm_id ow) \<and>
    (\<forall>p \<in> set (permissions (authz s)). perm_owner p = a \<longrightarrow>
      assert_satisfies (Permission_Level a owner_name) p (authz s) = Inr ())"
proof -
  have ok: "sys_ok s" using sys_reachable_ok [OF assms(1)] by simp
  note po = auth_okD(1) [OF sys_okD(1) [OF ok]] and acc = accounts_okD(2,3) [OF sys_okD(3) [OF ok] assms(2)]
  obtain ow where ow: "ow \<in> set (permissions (authz s))" "perm_id ow \<noteq> 0" "perm_name ow = owner_name" "perm_owner ow = a"
    "get_permission (Permission_Level a owner_name) (authz s) = Inr ow"
    using account_permission [OF ok assms(2) acc(1)] name_facts(1) by metis
  obtain ac where ac: "ac \<in> set (permissions (authz s))" "perm_id ac \<noteq> 0" "perm_name ac = active_name" "perm_owner ac = a"
    "get_permission (Permission_Level a active_name) (authz s) = Inr ac"
    using account_permission [OF ok assms(2) acc(2)] name_facts(2) by metis
  have "parent_id ow = 0" using perms_okD(5) [OF po ow(1)] ow(2,3) by (simp add: perm_ok_def)
  moreover obtain q where q: "q \<in> set (permissions (authz s))" "perm_id q = parent_id ac" "perm_name q = owner_name"
    using sys_okD(2) [OF ok] ac by (auto simp: active_below_owner_def)
  moreover have "perm_owner q = a"
  proof -
    obtain r where r: "r \<in> set (permissions (authz s))" "perm_id r = parent_id ac" "parent_id ac \<noteq> 0 \<longrightarrow> perm_owner r = a"
      using perms_okD(5) [OF po ac(1)] ac(2,4) by (auto simp: perm_ok_def)
    then have "r = q" using perm_id_inject [OF po r(1) q(1)] q(2) by simp
    moreover have "parent_id ac \<noteq> 0" using perms_okD(5) [OF po ac(1)] ac(2,3) by (simp add: perm_ok_def)
    ultimately show ?thesis using r(3) by simp
  qed
  then have "q = ow" using perm_key_inject [OF po q(1) ow(1)] q(3) ow(3,4) by (simp add: perm_key_def)
  ultimately show ?thesis using ow(5) ac(5) owner_satisfies_all [OF ok assms(2)] by auto
qed

theorem reachable_accounts_owned_witness:
  "\<exists>ow ac. get_permission (Permission_Level producers_account_name owner_name) (authz sample_state) = Inr ow \<and>
     get_permission (Permission_Level producers_account_name active_name) (authz sample_state) = Inr ac \<and> parent_id ac = perm_id ow"
proof -
  have "db_find (accounts sample_state) producers_account_name \<noteq> None" by code_simp
  with reachable_accounts_owned [OF sample_state_reachable] show ?thesis by blast
qed

text \<open>C3: an account is charged exactly for what is stored for it. Whatever native action succeeds,
  the RAM usage of every account changes by the change of the billable size of its account record, ABI,
  code, permissions, links and deferred transactions, in 64-bit arithmetic.\<close>

theorem ram_charged_exactly:
  assumes "sys_ok s" "codes_ok s" "hash_ok env act s"
    and "distinct (map (\<lambda>g. (gt_sender g, gt_sender_id g)) (generated_transactions (authz s)))"
    and "apply_native env act s = Inr s'"
  shows "ram_of s' a - ram_of s a = stored_size env s' a - stored_size env s a"
  using charged_apply_native [OF assms] by (simp add: charged_exactly_def)

definition sample_setcode :: action where
  "sample_setcode = \<lparr> act_account = system_account_name, act_name = setcode_name,
     act_authorization = [Permission_Level system_account_name active_name],
     act_data = Setcode_Data \<lparr> sc_account = system_account_name, sc_vmtype = 0, sc_vmversion = 0, sc_code = [1, 2, 3] \<rparr> \<rparr>"

definition sample_next :: system_state where
  "sample_next = (case apply_native sample_env sample_setcode sample_state of Inl _ \<Rightarrow> empty_system_state | Inr s \<Rightarrow> s)"

lemma sample_next_ok: "apply_native sample_env sample_setcode sample_state = Inr sample_next"
proof -
  have "(case apply_native sample_env sample_setcode sample_state of Inl _ \<Rightarrow> False | Inr _ \<Rightarrow> True)" by code_simp
  then obtain s where "apply_native sample_env sample_setcode sample_state = Inr s" by (auto split: sum.splits)
  then show ?thesis unfolding sample_next_def by - (erule ssubst, simp)
qed

lemma sample_hash_ok: "hash_ok sample_env sample_setcode sample_state"
proof -
  have "codes sample_state = fmempty" by code_simp
  then show ?thesis by (simp add: hash_ok_def sample_setcode_def sample_env_def db_find_def digest_default_def)
qed

theorem ram_charged_exactly_witness:
  "ram_of sample_next system_account_name - ram_of sample_state system_account_name = 30 \<and>
   stored_size sample_env sample_next system_account_name - stored_size sample_env sample_state system_account_name = 30"
proof -
  have ok: "sys_ok sample_state" "codes_ok sample_state" using sys_reachable_ok [OF sample_state_reachable] by simp_all
  have "generated_transactions (authz sample_state) = []" by code_simp
  moreover have "ram_of sample_next system_account_name - ram_of sample_state system_account_name = 30" by code_simp
  ultimately show ?thesis
    using ram_charged_exactly [OF ok sample_hash_ok _ sample_next_ok, of system_account_name] by simp
qed

text \<open>C5: contract codes are reference counted correctly: in every reachable state the code of every
  account that runs one is stored, its count is the number of accounts that run it, without
  overflow, and no code is stored that no account runs.\<close>

theorem reachable_code_references:
  assumes "sys_reachable only_link s"
  shows "case db_find (codes s) k of
      None \<Rightarrow> code_users (account_metadata s) k = {}
    | Some c \<Rightarrow> code_users (account_metadata s) k \<noteq> {} \<and> unat (code_ref_count c) = card (code_users (account_metadata s) k)"
  using sys_reachable_ok [OF assms] codes_okD [of s k] by (simp add: code_ok_def)

theorem reachable_code_references_witness:
  "\<exists>c. db_find (codes sample_next) (Digest 1 0 0 3, 0, 0) = Some c \<and>
     unat (code_ref_count c) = card (code_users (account_metadata sample_next) (Digest 1 0 0 3, 0, 0))"
proof -
  have "db_find (codes sample_next) (Digest 1 0 0 3, 0, 0) \<noteq> None" by code_simp
  moreover have "sys_reachable True sample_next"
    by (rule sys_reachable.native_action [OF sample_state_reachable sample_next_ok sample_hash_ok])
      (simp add: sample_env_def sample_control_def)
  ultimately show ?thesis using reachable_code_references [of True sample_next "(Digest 1 0 0 3, 0, 0)"] by (auto split: option.splits)
qed



end
