(* ===== verification/Producer_Schedule.thy ===== *)
theory Producer_Schedule
  imports Authority
begin

text \<open>
  Producer schedules (\<^verbatim>\<open>producer_schedule.hpp\<close>): the legacy schedules with one key per producer, the
  schedules with a weighted block signing authority per producer, and the test of a set of keys
  against such an authority. The shared-memory copies of these types hold the same data and are
  not distinguished from them.
\<close>

section \<open>Definitions\<close>

record producer_key =
  pk_producer_name :: name
  block_signing_key :: public_key

record producer_schedule_type =
  legacy_version :: u32
  legacy_producers :: "producer_key list"

record block_signing_authority_v0 =
  bsa_threshold :: u32
  bsa_keys :: "key_weight list"

datatype block_signing_authority = Authority_V0 (authority_v0: block_signing_authority_v0)

record producer_authority =
  producer_name :: name
  pa_authority :: block_signing_authority

record producer_authority_schedule =
  schedule_version :: u32
  producers :: "producer_authority list"

definition schedule_default :: producer_authority_schedule where
  "schedule_default = \<lparr> schedule_version = 0, producers = [] \<rparr>"

text \<open>
  The loop of \<^verbatim>\<open>keys_satisfy_and_relevant\<close> over the keys of the authority, with the saturating
  32-bit total and the number of relevant keys. The presented keys are a set without order.
\<close>

definition satisfy_step :: "u32 \<Rightarrow> public_key list \<Rightarrow> key_weight \<Rightarrow> u32 \<times> nat \<Rightarrow> u32 \<times> nat" where
  "satisfy_step thr presented_keys kw = (\<lambda>(total_weight, num_relevant_keys).
     if kw_key kw \<in> set presented_keys then
       (if total_weight < thr
        then total_weight + min (0xffffffff - total_weight) (ucast (kw_weight kw)) else total_weight,
        num_relevant_keys + 1)
     else (total_weight, num_relevant_keys))"

definition keys_satisfy_and_relevant_v0 :: "block_signing_authority_v0 \<Rightarrow> public_key list \<Rightarrow> bool \<times> nat" where
  "keys_satisfy_and_relevant_v0 a presented_keys =
     (let (total_weight, num_relevant_keys) =
            fold (satisfy_step (bsa_threshold a) presented_keys) (bsa_keys a) (0, 0)
      in (total_weight \<ge> bsa_threshold a, num_relevant_keys))"

definition keys_satisfy_and_relevant :: "public_key list \<Rightarrow> block_signing_authority \<Rightarrow> bool \<times> nat" where
  "keys_satisfy_and_relevant ks auth =
     (case auth of Authority_V0 a \<Rightarrow> keys_satisfy_and_relevant_v0 a ks)"

definition for_each_key :: "block_signing_authority \<Rightarrow> (public_key \<Rightarrow> 's \<Rightarrow> 's) \<Rightarrow> 's \<Rightarrow> 's" where
  "for_each_key auth act s = (case auth of Authority_V0 a \<Rightarrow> fold (\<lambda>kw. act (kw_key kw)) (bsa_keys a) s)"

text \<open>The explicit constructor that converts a legacy schedule.\<close>

definition single_key_authority :: "public_key \<Rightarrow> block_signing_authority" where
  "single_key_authority k =
     Authority_V0 \<lparr> bsa_threshold = 1, bsa_keys = [\<lparr> kw_key = k, kw_weight = 1 \<rparr>] \<rparr>"

definition schedule_of_legacy :: "producer_schedule_type \<Rightarrow> producer_authority_schedule" where
  "schedule_of_legacy old =
     \<lparr> schedule_version = legacy_version old,
       producers = map (\<lambda>p. \<lparr> producer_name = pk_producer_name p,
                              pa_authority = single_key_authority (block_signing_key p) \<rparr>)
                     (legacy_producers old) \<rparr>"

section \<open>The weighted threshold\<close>

text \<open>The sum of the weights of the presented keys, without a bound.\<close>

definition presented :: "public_key list \<Rightarrow> key_weight list \<Rightarrow> key_weight list" where
  "presented ks kws = filter (\<lambda>kw. kw_key kw \<in> set ks) kws"

definition presented_weight :: "public_key list \<Rightarrow> key_weight list \<Rightarrow> nat" where
  "presented_weight ks kws = (\<Sum>kw \<leftarrow> presented ks kws. unat (kw_weight kw))"

lemma presented_simps [simp]:
  "presented ks [] = []"
  "presented ks (kw # kws) = (if kw_key kw \<in> set ks then kw # presented ks kws else presented ks kws)"
  by (simp_all add: presented_def)

lemma presented_weight_simps [simp]:
  "presented_weight ks [] = 0"
  "presented_weight ks (kw # kws) =
     (if kw_key kw \<in> set ks then unat (kw_weight kw) else 0) + presented_weight ks kws"
  by (simp_all add: presented_weight_def)

lemma unat_saturating_add:
  "unat (a + min (0xffffffff - a) b) = min 4294967295 (unat a + unat b)" for a b :: u32
proof -
  have rest: "unat (0xffffffff - a) = 4294967295 - unat a"
  proof -
    have "a \<le> 0xffffffff" using unat_lt_32 [of a] by (simp add: word_le_nat_alt)
    then show ?thesis by (simp add: unat_sub)
  qed
  have "unat (min (0xffffffff - a) b) = min (4294967295 - unat a) (unat b)"
    using rest by (simp add: min_def word_le_nat_alt)
  then show ?thesis
    using unat_lt_32 [of a] by (simp add: unat_word_ariths)
qed

definition weigh :: "u32 \<Rightarrow> u32 \<Rightarrow> u16 \<Rightarrow> u32" where
  "weigh thr tw w = (if tw < thr then tw + min (0xffffffff - tw) (ucast w) else tw)"

lemma weigh_reaches:
  "unat thr \<le> unat (weigh thr tw w) + r \<longleftrightarrow> unat thr \<le> unat tw + (unat w + r)"
proof (cases "tw < thr")
  case True
  then have "unat (weigh thr tw w) = min 4294967295 (unat tw + unat w)"
    by (simp add: weigh_def unat_saturating_add)
  then show ?thesis using unat_lt_32 [of thr] by linarith
next
  case False
  then show ?thesis by (simp add: weigh_def word_less_nat_alt)
qed

lemma satisfy_step_eq:
  "satisfy_step thr ks kw (tw, n) =
     (if kw_key kw \<in> set ks then (weigh thr tw (kw_weight kw), Suc n) else (tw, n))"
  by (simp add: satisfy_step_def weigh_def)

lemma fold_satisfy_step_count:
  "snd (fold (satisfy_step thr ks) kws (tw, n)) = n + length (presented ks kws)"
  by (induction kws arbitrary: tw n) (simp_all add: satisfy_step_eq)

lemma fold_satisfy_step_total:
  "unat thr \<le> unat (fst (fold (satisfy_step thr ks) kws (tw, n)))
     \<longleftrightarrow> unat thr \<le> unat tw + presented_weight ks kws"
  by (induction kws arbitrary: tw n) (simp_all add: satisfy_step_eq weigh_reaches)

lemma keys_satisfy_v0_eq:
  "keys_satisfy_and_relevant_v0 a ks =
     (unat (bsa_threshold a) \<le> presented_weight ks (bsa_keys a), length (presented ks (bsa_keys a)))"
  using fold_satisfy_step_total [of "bsa_threshold a" ks "bsa_keys a" 0 0]
    fold_satisfy_step_count [of "bsa_threshold a" ks "bsa_keys a" 0 0]
  by (simp add: keys_satisfy_and_relevant_v0_def case_prod_beta word_le_nat_alt)

text \<open>
  C27: for every block signing authority and every set of presented keys, the loop with the
  saturating 32-bit total decides exactly whether the true sum of the weights of the presented
  keys reaches the threshold, and counts the entries of the authority whose key is presented.
\<close>

theorem keys_satisfy_exact:
  "keys_satisfy_and_relevant ks auth =
     (unat (bsa_threshold (authority_v0 auth)) \<le>
        (\<Sum>kw \<leftarrow> filter (\<lambda>kw. kw_key kw \<in> set ks) (bsa_keys (authority_v0 auth)). unat (kw_weight kw)),
      length (filter (\<lambda>kw. kw_key kw \<in> set ks) (bsa_keys (authority_v0 auth))))"
  by (cases auth)
    (simp add: keys_satisfy_and_relevant_def keys_satisfy_v0_eq presented_weight_def presented_def)

text \<open>A converted legacy schedule is satisfied by the one key of each producer.\<close>

lemma one_key_satisfied:
  "keys_satisfy_and_relevant ks (single_key_authority k) =
     (k \<in> set ks, if k \<in> set ks then 1 else 0)"
  by (simp add: keys_satisfy_and_relevant_def single_key_authority_def keys_satisfy_v0_eq)

end
