(* ===== verification/Block_Header.thy ===== *)
theory Block_Header
  imports Producer_Schedule Block_Timestamp Merkle "HOL-Library.FSet"
begin

text \<open>
  Block headers (\<^verbatim>\<open>block_header.hpp\<close>, \<^verbatim>\<open>block_header.cpp\<close>), the extensions of headers and blocks
  (\<^verbatim>\<open>types.hpp\<close>, \<^verbatim>\<open>block.hpp\<close>, \<^verbatim>\<open>block.cpp\<close>) and the sets of activated protocol features
  (\<^verbatim>\<open>protocol_feature_activation.hpp\<close>, \<^verbatim>\<open>protocol_feature_activation.cpp\<close>). Hashing, key recovery and
  the serialisation of the payload of an extension are parameters, gathered in \<open>chain_env\<close>.
\<close>

section \<open>Types\<close>

type_synonym bytes = "u8 list"

type_synonym extensions_type = "(u16 \<times> bytes) list"

text \<open>A signature is one of the alternatives of its variant together with its data.\<close>

datatype signature = Signature (sig_which: nat) (sig_data: "int list")

record block_header =
  timestamp :: block_timestamp
  producer :: name
  confirmed :: u16
  previous :: digest
  transaction_mroot :: digest
  action_mroot :: digest
  header_schedule_version :: u32
  new_producers :: "producer_schedule_type option"
  header_extensions :: extensions_type

record signed_block_header = block_header +
  producer_signature :: signature

record 't signed_block = signed_block_header +
  transactions :: "'t list"
  block_extensions :: extensions_type

datatype block_header_extension =
    Protocol_Feature_Activation (protocol_features: "digest list")
  | Producer_Schedule_Change (changed_schedule: producer_authority_schedule)

datatype block_extension = Additional_Block_Signatures (additional: "signature list")

text \<open>
  \<^item> \<open>hash_pair\<close>: \<^verbatim>\<open>digest_type::hash\<close> of a pair of digests,
  \<^item> \<open>hash_header\<close>, \<open>hash_legacy_schedule\<close>, \<open>hash_schedule\<close>: \<^verbatim>\<open>digest_type::hash\<close> of the serialised value,
  \<^item> \<open>recover_key\<close>: the public key of a signature of a digest, or an error,
  \<^item> \<open>pack_...\<close>, \<open>unpack_...\<close>: the serialisation of the payloads of extensions,
  \<^item> \<open>wtmsig_digest\<close>: \<^verbatim>\<open>pfs.get_builtin_digest( wtmsig_block_signatures )\<close>,
  \<^item> \<open>validator\<close>: the callback that refuses protocol features that may not be activated.
\<close>

record chain_env =
  hash_pair :: "digest \<times> digest \<Rightarrow> digest"
  hash_header :: "block_header \<Rightarrow> digest"
  hash_legacy_schedule :: "producer_schedule_type \<Rightarrow> digest"
  hash_schedule :: "producer_authority_schedule \<Rightarrow> digest"
  recover_key :: "signature \<Rightarrow> digest \<Rightarrow> public_key res"
  pack_activation :: "digest list \<Rightarrow> bytes"
  unpack_activation :: "bytes \<Rightarrow> digest list res"
  pack_schedule :: "producer_authority_schedule \<Rightarrow> bytes"
  unpack_schedule :: "bytes \<Rightarrow> producer_authority_schedule res"
  pack_signatures :: "signature list \<Rightarrow> bytes"
  unpack_signatures :: "bytes \<Rightarrow> signature list res"
  wtmsig_digest :: "digest option"
  validator :: "block_timestamp \<Rightarrow> digest fset \<Rightarrow> digest list \<Rightarrow> unit res"

section \<open>Block ids\<close>

definition endian_reverse_u32 :: "u32 \<Rightarrow> u32" where
  "endian_reverse_u32 x =
     (drop_bit 0x18 x AND 0xFF)
     OR push_bit 0x08 (drop_bit 0x10 x AND 0xFF)
     OR push_bit 0x10 (drop_bit 0x08 x AND 0xFF)
     OR push_bit 0x18 (x AND 0xFF)"

definition num_from_id :: "digest \<Rightarrow> u32" where
  "num_from_id bid = endian_reverse_u32 (ucast (hash0 bid))"

definition block_num_of :: "'a block_header_scheme \<Rightarrow> u32" where
  "block_num_of h = num_from_id (previous h) + 1"

definition header_digest :: "chain_env \<Rightarrow> 'a block_header_scheme \<Rightarrow> digest" where
  "header_digest env h = hash_header env (block_header.truncate h)"

definition calculate_id :: "chain_env \<Rightarrow> 'a block_header_scheme \<Rightarrow> digest" where
  "calculate_id env h =
     (case header_digest env h of Digest h0 h1 h2 h3 \<Rightarrow>
        Digest ((h0 AND 0xffffffff00000000) + ucast (endian_reverse_u32 (block_num_of h))) h1 h2 h3)"

section \<open>Extensions\<close>

definition protocol_feature_activation_id :: u16 where
  "protocol_feature_activation_id = 0"

definition producer_schedule_change_id :: u16 where
  "producer_schedule_change_id = 1"

definition additional_block_signatures_id :: u16 where
  "additional_block_signatures_id = 2"

text \<open>\<^verbatim>\<open>emplace_extension\<close>: insert after the last extension whose id is not larger.\<close>

definition emplace_extension :: "extensions_type \<Rightarrow> u16 \<Rightarrow> bytes \<Rightarrow> extensions_type" where
  "emplace_extension exts eid data =
     takeWhile (\<lambda>ext. \<not> eid < fst ext) exts @ (eid, data) # dropWhile (\<lambda>ext. \<not> eid < fst ext) exts"

text \<open>The checks after decoding: not empty, no repetition.\<close>

fun all_new :: "chain_error \<Rightarrow> 'a list \<Rightarrow> 'a list \<Rightarrow> unit res" where
  "all_new err seen [] = Inr ()"
| "all_new err seen (d # ds) =
     rbind (eos_assert (d \<notin> set seen) err) (\<lambda>_. all_new err (d # seen) ds)"

definition activation_reflector_init :: "digest list \<Rightarrow> unit res" where
  "activation_reflector_init fs =
     rbind (eos_assert (length fs > 0) Ill_Formed_Protocol_Feature_Activation) (\<lambda>_.
     all_new Ill_Formed_Protocol_Feature_Activation [] fs)"

definition signatures_reflector_init :: "signature list \<Rightarrow> unit res" where
  "signatures_reflector_init sigs =
     rbind (eos_assert (length sigs > 0) Ill_Formed_Additional_Block_Signatures_Extension) (\<lambda>_.
     all_new Ill_Formed_Additional_Block_Signatures_Extension [] sigs)"

text \<open>
  \<^verbatim>\<open>decompose::extract\<close> for the extensions of headers and of blocks: the decoded extension and
  whether it must be unique; \<open>None\<close> when the id is not known.
\<close>

definition extract_header_extension ::
  "chain_env \<Rightarrow> u16 \<Rightarrow> bytes \<Rightarrow> (block_header_extension \<times> bool) option res" where
  "extract_header_extension env eid data =
     (if eid = protocol_feature_activation_id then
        rbind (unpack_activation env data) (\<lambda>fs.
        rbind (activation_reflector_init fs) (\<lambda>_.
        Inr (Some (Protocol_Feature_Activation fs, True))))
      else if eid = producer_schedule_change_id then
        rbind (unpack_schedule env data) (\<lambda>s.
        Inr (Some (Producer_Schedule_Change s, True)))
      else Inr None)"

definition extract_block_extension ::
  "chain_env \<Rightarrow> u16 \<Rightarrow> bytes \<Rightarrow> (block_extension \<times> bool) option res" where
  "extract_block_extension env eid data =
     (if eid = additional_block_signatures_id then
        rbind (unpack_signatures env data) (\<lambda>sigs.
        rbind (signatures_reflector_init sigs) (\<lambda>_.
        Inr (Some (Additional_Block_Signatures sigs, True))))
      else Inr None)"

text \<open>
  The loop of the two extraction routines. The results are a multimap ordered by id, with equal
  ids in the order of insertion; an id that is not smaller than the ones before goes to the end.
\<close>

fun extract_loop ::
  "(u16 \<Rightarrow> bytes \<Rightarrow> ('e \<times> bool) option res) \<Rightarrow> chain_error \<Rightarrow> bool \<Rightarrow> u16 \<Rightarrow> (u16 \<times> 'e) list
     \<Rightarrow> extensions_type \<Rightarrow> (u16 \<times> 'e) list res" where
  "extract_loop extract err first id_type_lower_bound results [] = Inr results"
| "extract_loop extract err first id_type_lower_bound results ((eid, data) # exts) =
     rbind (eos_assert (eid \<ge> id_type_lower_bound) err) (\<lambda>_.
     rbind (extract eid data) (\<lambda>match.
     case match of
       None \<Rightarrow> Inl err
     | Some (e, enforce_unique) \<Rightarrow>
         rbind (if enforce_unique
                then eos_assert (first \<or> eid > id_type_lower_bound) Invalid_Block_Header_Extension
                else Inr ()) (\<lambda>_.
         extract_loop extract err False eid (results @ [(eid, e)]) exts)))"

definition validate_and_extract_header_extensions ::
  "chain_env \<Rightarrow> 'a block_header_scheme \<Rightarrow> (u16 \<times> block_header_extension) list res" where
  "validate_and_extract_header_extensions env h =
     extract_loop (extract_header_extension env) Invalid_Block_Header_Extension True 0 [] (header_extensions h)"

definition validate_and_extract_extensions ::
  "chain_env \<Rightarrow> ('t, 'a) signed_block_scheme \<Rightarrow> (u16 \<times> block_extension) list res" where
  "validate_and_extract_extensions env b =
     extract_loop (extract_block_extension env) Invalid_Block_Extension True 0 [] (block_extensions b)"

text \<open>
  \<^verbatim>\<open>count\<close> and \<^verbatim>\<open>lower_bound\<close> on the multimap, and the \<^verbatim>\<open>std::get\<close> of the extension found:
  dereferencing the end is undefined, another alternative is an error.
\<close>

definition ext_count :: "(u16 \<times> 'e) list \<Rightarrow> u16 \<Rightarrow> nat" where
  "ext_count exts eid = length (filter (\<lambda>e. fst e = eid) exts)"

definition ext_lower_bound :: "(u16 \<times> 'e) list \<Rightarrow> u16 \<Rightarrow> 'e res" where
  "ext_lower_bound exts eid =
     (case dropWhile (\<lambda>e. fst e < eid) exts of [] \<Rightarrow> Inl Undefined_Behaviour | e # _ \<Rightarrow> Inr (snd e))"

definition get_activation :: "block_header_extension \<Rightarrow> digest list res" where
  "get_activation e = (case e of Protocol_Feature_Activation fs \<Rightarrow> Inr fs | _ \<Rightarrow> Inl Bad_Variant_Access)"

definition get_schedule_change :: "block_header_extension \<Rightarrow> producer_authority_schedule res" where
  "get_schedule_change e = (case e of Producer_Schedule_Change s \<Rightarrow> Inr s | _ \<Rightarrow> Inl Bad_Variant_Access)"

section \<open>Activated protocol features\<close>

text \<open>
  The constructor of \<^verbatim>\<open>protocol_feature_activation_set\<close>: the union of a set and a sorted vector is
  inserted into a set; its size is compared with the sum of the sizes.
\<close>

definition protocol_feature_activation_set ::
  "digest fset \<Rightarrow> digest list \<Rightarrow> bool \<Rightarrow> digest fset res" where
  "protocol_feature_activation_set orig additional_features enforce_disjoint =
     (let expected_size = fcard orig + length additional_features;
          features = orig |\<union>| fset_of_list additional_features
      in rbind (eos_assert (\<not> enforce_disjoint \<or> fcard features = expected_size)
                  Invalid_Block_Header_Extension) (\<lambda>_.
         Inr features))"

definition is_builtin_activated :: "digest fset \<Rightarrow> digest option \<Rightarrow> bool" where
  "is_builtin_activated pfa builtin_digest =
     (case builtin_digest of None \<Rightarrow> False | Some d \<Rightarrow> d |\<in>| pfa)"

section \<open>Ids carry the block number\<close>

lemma endian_reverse_u32_involutive [simp]: "endian_reverse_u32 (endian_reverse_u32 x) = x"
proof (rule bit_word_eqI)
  fix n assume "n < LENGTH(32)"
  then have "n < 32" by simp
  then have "n \<in> set [0..<32]" by simp
  then show "bit (endian_reverse_u32 (endian_reverse_u32 x)) n \<longleftrightarrow> bit x n"
    by (simp add: upt_conv_Cons) (elim disjE; simp add: endian_reverse_u32_def bit_simps; simp add: numeral_eq_Suc)
qed

lemma unat_ucast_64_32: "unat (ucast (x :: u64) :: u32) = unat x mod 4294967296"
  by (simp add: unsigned_ucast_eq take_bit_eq_mod)

lemma ucast_add_64_32: "ucast (x + y) = (ucast x + ucast y :: u32)" for x y :: u64
proof -
  have "unat (ucast (x + y) :: u32) = (unat x + unat y) mod 18446744073709551616 mod 4294967296"
    by (simp add: unat_ucast_64_32 unat_word_ariths)
  also have "\<dots> = (unat x + unat y) mod 4294967296"
    by (rule mod_mod_cancel) simp
  also have "\<dots> = unat (ucast x + ucast y :: u32)"
    by (simp add: unat_ucast_64_32 unat_word_ariths mod_add_eq)
  finally show ?thesis by (rule word_unat_eq_iff [THEN iffD2])
qed

lemma ucast_32_64_32 [simp]: "ucast (ucast (r :: u32) :: u64) = r"
  using unat_lt_32 [of r] by (simp add: word_unat_eq_iff unat_ucast_64_32)

lemma low_word_ucast: "ucast ((a AND 0xffffffff00000000) + ucast (r :: u32)) = r" for a :: u64
proof -
  have mask: "(0xffffffff00000000 :: u64) = push_bit 32 0xffffffff"
    by (simp add: push_bit_eq_mult)
  have "\<not> bit (0xffffffff00000000 :: u64) n" if "n < 32" for n
    using that unfolding mask bit_push_bit_iff by linarith
  then have "ucast (a AND 0xffffffff00000000) = (0 :: u32)"
    by (intro bit_word_eqI) (simp add: bit_simps)
  then show ?thesis by (simp add: ucast_add_64_32)
qed

lemma num_from_calculate_id: "num_from_id (calculate_id env h) = block_num_of h"
  by (simp add: calculate_id_def num_from_id_def low_word_ucast split: digest.split)

text \<open>
  The id of a block carries the number of the block, one more than the number in the id of
  its predecessor (in 32 bits), and is otherwise the digest of the header.
\<close>

theorem calculate_id_carries_num:
  "num_from_id (calculate_id env h) = num_from_id (previous h) + 1 \<and>
   hash1 (calculate_id env h) = hash1 (header_digest env h) \<and>
   hash2 (calculate_id env h) = hash2 (header_digest env h) \<and>
   hash3 (calculate_id env h) = hash3 (header_digest env h)"
  unfolding num_from_calculate_id block_num_of_def by (simp add: calculate_id_def split: digest.split)

section \<open>Extraction of extensions\<close>

lemma all_new_iff: "all_new err seen ds = Inr u \<longleftrightarrow> distinct ds \<and> set ds \<inter> set seen = {}"
  by (induction err seen ds rule: all_new.induct) auto

lemma activation_reflector_init_iff:
  "activation_reflector_init fs = Inr u \<longleftrightarrow> fs \<noteq> [] \<and> distinct fs"
  by (simp add: activation_reflector_init_def all_new_iff)

lemma signatures_reflector_init_iff:
  "signatures_reflector_init sigs = Inr u \<longleftrightarrow> sigs \<noteq> [] \<and> distinct sigs"
  by (simp add: signatures_reflector_init_def all_new_iff)

text \<open>An extraction routine all of whose extensions are unique.\<close>

definition unique_extract :: "(u16 \<Rightarrow> bytes \<Rightarrow> ('e \<times> bool) option res) \<Rightarrow> bool" where
  "unique_extract extract \<longleftrightarrow>
     (\<forall>eid data e u. extract eid data = Inr (Some (e, u)) \<longrightarrow> u)"

lemma unique_extract_header: "unique_extract (extract_header_extension env)"
  by (auto simp: unique_extract_def extract_header_extension_def split: if_splits)

lemma unique_extract_block: "unique_extract (extract_block_extension env)"
  by (auto simp: unique_extract_def extract_block_extension_def split: if_splits)

lemma extract_loop_iff:
  assumes "unique_extract extract"
  shows "extract_loop extract err first lb results exts = Inr res \<longleftrightarrow>
    (\<exists>es. res = results @ es \<and>
       list_all2 (\<lambda>(eid, data) (eid', e). eid' = eid \<and> extract eid data = Inr (Some (e, True))) exts es \<and>
       sorted_wrt (<) (map fst exts) \<and>
       (exts \<noteq> [] \<longrightarrow> (if first then lb \<le> fst (hd exts) else lb < fst (hd exts))))"
    (is "?loop first lb results exts \<longleftrightarrow> ?spec first lb results exts")
proof (induction exts arbitrary: first lb results)
  case (Cons ext exts)
  obtain eid data where ext: "ext = (eid, data)" by force
  show ?case
  proof (cases "extract eid data")
    case (Inr match)
    show ?thesis
    proof (cases match)
      case (Some p)
      then obtain e where p: "p = (e, True)" "extract eid data = Inr (Some (e, True))"
        using Inr assms unfolding unique_extract_def by (cases p) metis
      have sorted: "sorted_wrt (<) (eid # map fst exts) \<longleftrightarrow>
          sorted_wrt (<) (map fst exts) \<and> (exts \<noteq> [] \<longrightarrow> eid < fst (hd exts))"
        by (cases exts) (auto dest: less_trans)
      have "?loop first lb results (ext # exts) \<longleftrightarrow>
          (if first then lb \<le> eid else lb < eid) \<and> ?loop False eid (results @ [(eid, e)]) exts"
        by (auto simp: ext p)
      also have "\<dots> \<longleftrightarrow> ?spec first lb results (ext # exts)"
        unfolding Cons.IH ext by (auto simp: p sorted list_all2_Cons1 simp del: sorted_wrt.simps)
      finally show ?thesis .
    qed (auto simp: ext Inr list_all2_Cons1)
  qed (auto simp: ext list_all2_Cons1)
qed auto

end
