(* ===== verification/Flat_Map.thy ===== *)
theory Flat_Map
  imports Chain_Prelude
begin

text \<open>
  \<^verbatim>\<open>boost::container::flat_map\<close> as the node uses it: a vector of pairs sorted strictly by key. The
  contract of a map is stated as a locale and interpreted on the sorted vectors. The second part
  is about \<^verbatim>\<open>std::nth_element\<close>: the element at a position of the sorted vector, read as a statement
  on how many elements are at least as large.
\<close>

section \<open>Sorted vectors as maps\<close>

type_synonym ('k, 'v) flat_map = "('k \<times> 'v) list"

definition flat_find :: "('k, 'v) flat_map \<Rightarrow> 'k \<Rightarrow> 'v option" where
  "flat_find m k = map_of m k"

text \<open>\<^verbatim>\<open>m[k] = v\<close>\<close>

fun flat_set :: "'k::linorder \<Rightarrow> 'v \<Rightarrow> ('k, 'v) flat_map \<Rightarrow> ('k, 'v) flat_map" where
  "flat_set k v [] = [(k, v)]"
| "flat_set k v ((k', v') # m) =
     (if k < k' then (k, v) # (k', v') # m
      else if k = k' then (k, v) # m
      else (k', v') # flat_set k v m)"

definition flat_ok :: "('k::linorder, 'v) flat_map \<Rightarrow> bool" where
  "flat_ok m \<longleftrightarrow> sorted_wrt (<) (map fst m)"

lemma flat_ok_Nil [simp, intro]: "flat_ok []"
  by (simp add: flat_ok_def)

lemma flat_ok_distinct: "flat_ok m \<Longrightarrow> distinct (map fst m)"
  by (simp add: flat_ok_def strict_sorted_iff)

lemma keys_flat_set [simp]: "fst ` set (flat_set k v m) = insert k (fst ` set m)"
  by (induction k v m rule: flat_set.induct) auto

lemma flat_ok_flat_set [intro]: "flat_ok m \<Longrightarrow> flat_ok (flat_set k v m)"
proof (induction k v m rule: flat_set.induct)
  case (2 k v k' v' m)
  have "fst ` set (flat_set k v m) = insert k (fst ` set m)" by simp
  then have "\<forall>x \<in> set (flat_set k v m). fst x = k \<or> (\<exists>y \<in> set m. fst x = fst y)"
    by (metis (no_types, opaque_lifting) image_iff insert_iff)
  with 2 show ?case by (fastforce simp: flat_ok_def)
qed (simp add: flat_ok_def)

lemma flat_find_flat_set:
  "flat_ok m \<Longrightarrow> flat_find (flat_set k v m) k' = (if k' = k then Some v else flat_find m k')"
proof (induction k v m rule: flat_set.induct)
  case (2 k v k'' v' m)
  then have "\<forall>x \<in> set m. k'' < fst x" and "flat_ok m" by (auto simp: flat_ok_def)
  with 2 show ?case by (auto simp: flat_find_def)
qed (simp add: flat_find_def)

lemma flat_find_None: "flat_find m k = None \<longleftrightarrow> k \<notin> fst ` set m"
  by (simp add: flat_find_def map_of_eq_None_iff)

lemma flat_find_SomeD: "flat_find m k = Some v \<Longrightarrow> (k, v) \<in> set m"
  by (simp add: flat_find_def map_of_SomeD)

lemma flat_find_Some_iff: "flat_ok m \<Longrightarrow> flat_find m k = Some v \<longleftrightarrow> (k, v) \<in> set m"
  by (simp add: flat_find_def flat_ok_distinct)

lemma set_flat_set:
  fixes m :: "('k::linorder, 'v) flat_map"
  assumes m: "flat_ok m"
  shows "set (flat_set k v m) = insert (k, v) {e \<in> set m. fst e \<noteq> k}"
proof (rule set_eqI)
  fix e :: "'k \<times> 'v"
  obtain k' v' where e: "e = (k', v')" by force
  have "e \<in> set (flat_set k v m) \<longleftrightarrow> flat_find (flat_set k v m) k' = Some v'"
    using flat_find_Some_iff [OF flat_ok_flat_set [OF m]] e by simp
  also have "\<dots> \<longleftrightarrow> e \<in> insert (k, v) {e \<in> set m. fst e \<noteq> k}"
    using flat_find_Some_iff [OF m] e by (auto simp: flat_find_flat_set [OF m])
  finally show "e \<in> set (flat_set k v m) \<longleftrightarrow> e \<in> insert (k, v) {e \<in> set m. fst e \<noteq> k}" .
qed

lemma flat_set_length:
  "flat_ok m \<Longrightarrow> length (flat_set k v m) = (if k \<in> fst ` set m then length m else Suc (length m))"
proof (induction k v m rule: flat_set.induct)
  case (2 k v k'' v' m)
  then have "\<forall>x \<in> set m. k'' < fst x" and "flat_ok m" by (auto simp: flat_ok_def)
  with 2 show ?case by force
qed simp

section \<open>The contract of a map\<close>

text \<open>
  What the block header states rely on: an assigned key is read back and the others keep their
  values. A loop that assigns a value to each key of a list gives exactly those keys.
\<close>

locale assignable_map =
  fixes find :: "'m \<Rightarrow> 'k \<Rightarrow> 'v option"
    and assign :: "'k \<Rightarrow> 'v \<Rightarrow> 'm \<Rightarrow> 'm"
    and inv :: "'m \<Rightarrow> bool"
    and empty :: 'm
  assumes inv_empty: "inv empty"
    and inv_assign: "inv m \<Longrightarrow> inv (assign k v m)"
    and find_empty: "find empty k = None"
    and find_assign: "inv m \<Longrightarrow> find (assign k v m) k' = (if k' = k then Some v else find m k')"
begin

lemma inv_assign_all: "inv m \<Longrightarrow> inv (fold (\<lambda>k. assign k (f k)) ks m)"
  by (induction ks arbitrary: m) (auto intro: inv_assign)

lemma find_assign_all:
  "inv m \<Longrightarrow> find (fold (\<lambda>k. assign k (f k)) ks m) k = (if k \<in> set ks then Some (f k) else find m k)"
  by (induction ks arbitrary: m) (auto simp: inv_assign find_assign)

lemma find_tabulate:
  "find (fold (\<lambda>k. assign k (f k)) ks empty) k = (if k \<in> set ks then Some (f k) else None)"
  by (simp add: find_assign_all inv_empty find_empty)

end

interpretation fm: assignable_map flat_find flat_set flat_ok "[]"
  by unfold_locales (auto simp: flat_find_flat_set flat_find_None)

section \<open>Order statistics\<close>

text \<open>\<^verbatim>\<open>std::nth_element\<close> leaves at position \<open>i\<close> the element that is there in the sorted vector.\<close>

definition nth_element :: "'a::linorder list \<Rightarrow> nat \<Rightarrow> 'a" where
  "nth_element xs i = sort xs ! i"

lemma count_ge_sorted:
  assumes "sorted xs" "i < length xs"
  shows "x \<le> xs ! i \<longleftrightarrow> length xs - i \<le> length (filter ((\<le>) x) xs)"
proof
  assume x: "x \<le> xs ! i"
  have "x \<le> xs ! (i + j)" if "j < length xs - i" for j
    using x order_trans [OF x sorted_nth_mono [of xs i "i + j"]] assms that by simp
  then have "filter ((\<le>) x) (drop i xs) = drop i xs"
    by (intro filter_True) (auto simp: in_set_conv_nth)
  moreover have "length (filter ((\<le>) x) xs) =
      length (filter ((\<le>) x) (take i xs)) + length (filter ((\<le>) x) (drop i xs))"
    by (metis append_take_drop_id filter_append length_append)
  ultimately show "length xs - i \<le> length (filter ((\<le>) x) xs)" by simp
next
  assume count: "length xs - i \<le> length (filter ((\<le>) x) xs)"
  show "x \<le> xs ! i"
  proof (rule ccontr)
    assume x: "\<not> x \<le> xs ! i"
    have "\<not> x \<le> xs ! j" if "j \<le> i" for j
      using x assms that sorted_nth_mono [of xs j i] by simp
    then have "filter ((\<le>) x) (take (Suc i) xs) = []"
      by (auto simp: filter_empty_conv in_set_conv_nth less_Suc_eq_le)
    moreover have "length (filter ((\<le>) x) xs) =
        length (filter ((\<le>) x) (take (Suc i) xs)) + length (filter ((\<le>) x) (drop (Suc i) xs))"
      by (metis append_take_drop_id filter_append length_append)
    ultimately have "length (filter ((\<le>) x) xs) \<le> length xs - Suc i"
      by (metis add_0 length_drop length_filter_le list.size(3))
    with count assms show False by simp
  qed
qed

lemma nth_element_ge_iff:
  assumes "i < length xs"
  shows "x \<le> nth_element xs i \<longleftrightarrow> length xs - i \<le> length (filter ((\<le>) x) xs)"
proof -
  have "length (filter ((\<le>) x) (sort xs)) = length (filter ((\<le>) x) xs)"
    by (metis mset_filter mset_sort size_mset)
  then show ?thesis
    using count_ge_sorted [of "sort xs" i x] assms by (simp add: nth_element_def)
qed

lemma nth_element_mem: "i < length xs \<Longrightarrow> nth_element xs i \<in> set xs"
  using nth_mem [of i "sort xs"] by (simp add: nth_element_def)

end
