(* ===== verification/Header_State.thy ===== *)
theory Header_State
  imports Block_Header Flat_Map
begin

text \<open>
  Block header states (\<^verbatim>\<open>block_header_state_legacy.hpp\<close>, \<^verbatim>\<open>block_header_state_legacy.cpp\<close>) and block states
  (\<^verbatim>\<open>block_state_legacy.hpp\<close>, \<^verbatim>\<open>block_state_legacy.cpp\<close>): the scheduled producer of a slot, the DPoS
  confirmation counts and the last irreversible block, the promotion of a pending schedule, the
  assembly of a header, its validation against the predecessor, and the check of its signatures.
\<close>

section \<open>States\<close>

record header_state_common =
  block_num :: u32
  dpos_proposed_irreversible_blocknum :: u32
  dpos_irreversible_blocknum :: u32
  active_schedule :: producer_authority_schedule
  blockroot_merkle :: incremental_merkle
  producer_to_last_produced :: "(name, u32) flat_map"
  producer_to_last_implied_irb :: "(name, u32) flat_map"
  valid_block_signing_authority :: block_signing_authority
  confirm_count :: "u8 list"

record schedule_info =
  schedule_lib_num :: u32
  schedule_hash :: digest
  info_schedule :: producer_authority_schedule

record pending_header_state = header_state_common +
  prev_activated_protocol_features :: "digest fset"
  prev_pending_schedule :: schedule_info
  was_pending_promoted :: bool
  pending_previous :: digest
  pending_producer :: name
  pending_timestamp :: block_timestamp
  active_schedule_version :: u32
  pending_confirmed :: u16

record header_state = header_state_common +
  block_id :: digest
  header :: signed_block_header
  pending_schedule :: schedule_info
  activated_protocol_features :: "digest fset"
  additional_signatures :: "signature list"
  header_exts :: "(u16 \<times> block_header_extension) list"

definition signature_default :: signature where
  "signature_default = Signature 0 (replicate 65 0)"

definition producer_repetitions :: nat where
  "producer_repetitions = 12"

definition maximum_tracked_dpos_confirmations :: nat where
  "maximum_tracked_dpos_confirmations = 1024"

section \<open>Scheduled producers and irreversibility\<close>

text \<open>With no producers the remainder is by zero.\<close>

definition get_scheduled_producer :: "'a header_state_scheme \<Rightarrow> block_timestamp \<Rightarrow> producer_authority res" where
  "get_scheduled_producer s t =
     (if producers (active_schedule s) = [] then Inl Undefined_Behaviour
      else
        (let index = unat (slot t) mod (length (producers (active_schedule s)) * producer_repetitions);
             index = index div producer_repetitions
         in Inr (producers (active_schedule s) ! index)))"

definition implied_blocknums :: "'a header_state_scheme \<Rightarrow> name \<Rightarrow> u32 list" where
  "implied_blocknums s producer_of_next_block =
     map (\<lambda>i. if fst i = producer_of_next_block then dpos_proposed_irreversible_blocknum s else snd i)
       (producer_to_last_implied_irb s)"

definition calc_dpos_last_irreversible :: "'a header_state_scheme \<Rightarrow> name \<Rightarrow> u32" where
  "calc_dpos_last_irreversible s producer_of_next_block =
     (let blocknums = implied_blocknums s producer_of_next_block
      in if length blocknums = 0 then 0
         else nth_element blocknums ((length blocknums - 1) div 3))"

section \<open>The next pending header state\<close>

definition next_when :: "'a header_state_scheme \<Rightarrow> block_timestamp \<Rightarrow> block_timestamp res" where
  "next_when s when =
     (if when \<noteq> Block_Timestamp 0
      then rbind (eos_assert (when > timestamp (header s)) Block_Validate_Exception) (\<lambda>_. Inr when)
      else Inr (Block_Timestamp (slot (timestamp (header s)) + 1)))"

definition check_double_confirm :: "'a header_state_scheme \<Rightarrow> name \<Rightarrow> u16 \<Rightarrow> unit res" where
  "check_double_confirm s pname num_prev_blocks_to_confirm =
     (case flat_find (producer_to_last_produced s) pname of
        None \<Rightarrow> Inr ()
      | Some last_produced \<Rightarrow>
          eos_assert (last_produced < (block_num s + 1) - ucast num_prev_blocks_to_confirm)
            Producer_Double_Confirm)"

definition required_confs :: "producer_authority_schedule \<Rightarrow> u32" where
  "required_confs sched = of_nat (length (producers sched) * 2 div 3) + 1"

definition grow_confirm_count :: "'a header_state_scheme \<Rightarrow> u8 list" where
  "grow_confirm_count s =
     (if length (confirm_count s) < maximum_tracked_dpos_confirmations
      then confirm_count s @ [ucast (required_confs (active_schedule s))]
      else tl (confirm_count s) @ [ucast (required_confs (active_schedule s))])"

text \<open>
  The loop that counts confirmations down from the newest tracked block, stopping at the first
  block that has all of them. The first argument is one more than the index \<^verbatim>\<open>i\<close> of the code,
  the result the new proposed block number, if any, and the remaining counts.
\<close>

fun confirm_loop :: "nat \<Rightarrow> u32 \<Rightarrow> u32 \<Rightarrow> u8 list \<Rightarrow> u32 option \<times> u8 list" where
  "confirm_loop 0 blocks_to_confirm num counts = (None, counts)"
| "confirm_loop (Suc i) blocks_to_confirm num counts =
     (if blocks_to_confirm = 0 then (None, counts)
      else
        let counts = counts [i := counts ! i - 1]
        in if counts ! i = 0 then
             (Some (num - of_nat (length counts - 1 - i)),
              if i = length counts - 1 then [] else take (length counts - i - 1) (drop (i + 1) counts))
           else confirm_loop i (blocks_to_confirm - 1) num counts)"

text \<open>The maps of a schedule that has just been promoted: the values for its producers.\<close>

definition promoted_map ::
  "(name, u32) flat_map \<Rightarrow> name \<Rightarrow> u32 \<Rightarrow> u32 \<Rightarrow> producer_authority list \<Rightarrow> (name, u32) flat_map" where
  "promoted_map old pname own fresh pros =
     fold (\<lambda>pro m.
       if producer_name pro = pname then flat_set (producer_name pro) own m
       else case flat_find old (producer_name pro) of
              Some existing \<Rightarrow> flat_set (producer_name pro) existing m
            | None \<Rightarrow> flat_set (producer_name pro) fresh m) pros []"

definition header_next ::
  "chain_env \<Rightarrow> 'a header_state_scheme \<Rightarrow> block_timestamp \<Rightarrow> u16 \<Rightarrow> pending_header_state res" where
  "header_next env s when num_prev_blocks_to_confirm =
     rbind (next_when s when) (\<lambda>when.
     rbind (get_scheduled_producer s when) (\<lambda>proauth.
     rbind (check_double_confirm s (producer_name proauth) num_prev_blocks_to_confirm) (\<lambda>_.
     rbind (incremental_append (hash_pair env) (blockroot_merkle s) (block_id s)) (\<lambda>merkle.
     let new_num = block_num s + 1;
         pname = producer_name proauth;
         counts = grow_confirm_count s;
         (proposed, counts) =
           confirm_loop (length counts) (ucast num_prev_blocks_to_confirm + 1) new_num counts;
         irreversible = calc_dpos_last_irreversible s pname;
         pending = pending_schedule s;
         promote = (producers (info_schedule pending) \<noteq> [] \<and> irreversible \<ge> schedule_lib_num pending)
     in Inr
       \<lparr> block_num = new_num,
         dpos_proposed_irreversible_blocknum =
           (case proposed of None \<Rightarrow> dpos_proposed_irreversible_blocknum s | Some n \<Rightarrow> n),
         dpos_irreversible_blocknum = irreversible,
         active_schedule = (if promote then info_schedule pending else active_schedule s),
         blockroot_merkle = merkle,
         producer_to_last_produced =
           flat_set pname new_num
             (if promote
              then promoted_map (producer_to_last_produced s) pname new_num irreversible
                     (producers (info_schedule pending))
              else producer_to_last_produced s),
         producer_to_last_implied_irb =
           (if promote
            then promoted_map (producer_to_last_implied_irb s) pname
                   (dpos_proposed_irreversible_blocknum s) irreversible (producers (info_schedule pending))
            else flat_set pname (dpos_proposed_irreversible_blocknum s) (producer_to_last_implied_irb s)),
         valid_block_signing_authority = pa_authority proauth,
         confirm_count = counts,
         prev_activated_protocol_features = activated_protocol_features s,
         prev_pending_schedule = pending,
         was_pending_promoted = promote,
         pending_previous = block_id s,
         pending_producer = pname,
         pending_timestamp = when,
         active_schedule_version = schedule_version (active_schedule s),
         pending_confirmed = num_prev_blocks_to_confirm \<rparr>))))"

section \<open>Making a header\<close>

fun downgrade_producers :: "producer_authority list \<Rightarrow> producer_key list res" where
  "downgrade_producers [] = Inr []"
| "downgrade_producers (p # ps) =
     (case pa_authority p of Authority_V0 auth \<Rightarrow>
        rbind (eos_assert (length (bsa_keys auth) = 1 \<and> ucast (kw_weight (hd (bsa_keys auth))) = bsa_threshold auth)
                 Producer_Schedule_Exception) (\<lambda>_.
        rbind (downgrade_producers ps) (\<lambda>ks.
        Inr (\<lparr> pk_producer_name = producer_name p, block_signing_key = kw_key (hd (bsa_keys auth)) \<rparr> # ks))))"

definition make_block_header ::
  "chain_env \<Rightarrow> pending_header_state \<Rightarrow> digest \<Rightarrow> digest \<Rightarrow> producer_authority_schedule option \<Rightarrow> digest list
     \<Rightarrow> signed_block_header res" where
  "make_block_header env p trx_mroot act_mroot new_prods new_protocol_feature_activations =
     (let h = \<lparr> timestamp = pending_timestamp p, producer = pending_producer p,
                confirmed = pending_confirmed p, previous = pending_previous p,
                transaction_mroot = trx_mroot, action_mroot = act_mroot,
                header_schedule_version = active_schedule_version p, new_producers = None,
                header_extensions =
                  (if length new_protocol_feature_activations > 0
                   then emplace_extension [] protocol_feature_activation_id
                          (pack_activation env new_protocol_feature_activations)
                   else []),
                producer_signature = signature_default \<rparr>
      in case new_prods of
           None \<Rightarrow> Inr h
         | Some sched \<Rightarrow>
             if is_builtin_activated (prev_activated_protocol_features p) (wtmsig_digest env) then
               Inr (h \<lparr> header_extensions :=
                 emplace_extension (header_extensions h) producer_schedule_change_id (pack_schedule env sched) \<rparr>)
             else
               rbind (downgrade_producers (producers sched)) (\<lambda>ps.
               Inr (h \<lparr> new_producers :=
                 Some \<lparr> legacy_version = schedule_version sched, legacy_producers = ps \<rparr> \<rparr>)))"

section \<open>Finishing a header state\<close>

definition check_header_matches :: "pending_header_state \<Rightarrow> 'a signed_block_header_scheme \<Rightarrow> unit res" where
  "check_header_matches p h =
     rbind (eos_assert (timestamp h = pending_timestamp p) Block_Validate_Exception) (\<lambda>_.
     rbind (eos_assert (previous h = pending_previous p) Unlinkable_Block_Exception) (\<lambda>_.
     rbind (eos_assert (confirmed h = pending_confirmed p) Block_Validate_Exception) (\<lambda>_.
     rbind (eos_assert (producer h = pending_producer p) Wrong_Producer) (\<lambda>_.
     eos_assert (header_schedule_version h = active_schedule_version p) Producer_Schedule_Exception))))"

text \<open>The checks that both forms of a new schedule go through.\<close>

definition check_may_change :: "pending_header_state \<Rightarrow> bool \<Rightarrow> unit res" where
  "check_may_change p wtmsig_ok =
     rbind (eos_assert wtmsig_ok Producer_Schedule_Exception) (\<lambda>_.
     eos_assert (\<not> was_pending_promoted p) Producer_Schedule_Exception)"

definition check_new_version :: "pending_header_state \<Rightarrow> u32 \<Rightarrow> unit res" where
  "check_new_version p version =
     rbind (eos_assert (version = schedule_version (active_schedule p) + 1) Producer_Schedule_Exception) (\<lambda>_.
     eos_assert (producers (info_schedule (prev_pending_schedule p)) = []) Producer_Schedule_Exception)"

text \<open>\<^verbatim>\<open>maybe_new_producer_schedule\<close> together with its hash.\<close>

definition new_schedule_of_header ::
  "chain_env \<Rightarrow> pending_header_state \<Rightarrow> 'a signed_block_header_scheme \<Rightarrow> (u16 \<times> block_header_extension) list
     \<Rightarrow> (producer_authority_schedule \<times> digest) option res" where
  "new_schedule_of_header env p h exts =
     (let has_ext = ext_count exts producer_schedule_change_id > 0;
          wtmsig_enabled =
            ((new_producers h \<noteq> None \<or> has_ext) \<and>
             is_builtin_activated (prev_activated_protocol_features p) (wtmsig_digest env))
      in rbind
           (case new_producers h of
              None \<Rightarrow> Inr None
            | Some np \<Rightarrow>
                rbind (check_may_change p (\<not> wtmsig_enabled)) (\<lambda>_.
                rbind (check_new_version p (legacy_version np)) (\<lambda>_.
                Inr (Some (schedule_of_legacy np, hash_legacy_schedule env np))))) (\<lambda>legacy.
         if has_ext then
           rbind (check_may_change p wtmsig_enabled) (\<lambda>_.
           rbind (rbind (ext_lower_bound exts producer_schedule_change_id) get_schedule_change) (\<lambda>sched.
           rbind (check_new_version p (schedule_version sched)) (\<lambda>_.
           Inr (Some (sched, hash_schedule env sched)))))
         else Inr legacy))"

text \<open>
  The test of the code is \<^verbatim>\<open>exts.count( extension_id() > 0 )\<close>, with the comparison inside the
  call: the key that is counted is the truth value of \<^verbatim>\<open>0 > 0\<close>, that is \<open>0\<close>.
\<close>

definition new_features_of_header ::
  "chain_env \<Rightarrow> pending_header_state \<Rightarrow> (u16 \<times> block_header_extension) list \<Rightarrow> digest fset res" where
  "new_features_of_header env p exts =
     (if ext_count exts (of_bool (protocol_feature_activation_id > 0)) > 0 then
        rbind (rbind (ext_lower_bound exts protocol_feature_activation_id) get_activation) (\<lambda>features.
        rbind (validator env (pending_timestamp p) (prev_activated_protocol_features p) features) (\<lambda>_.
        protocol_feature_activation_set (prev_activated_protocol_features p) features True))
      else Inr (prev_activated_protocol_features p))"

definition finished_schedule ::
  "pending_header_state \<Rightarrow> (producer_authority_schedule \<times> digest) option \<Rightarrow> schedule_info" where
  "finished_schedule p maybe_new =
     (case maybe_new of
        Some (sched, hash) \<Rightarrow>
          \<lparr> schedule_lib_num = block_num p, schedule_hash = hash, info_schedule = sched \<rparr>
      | None \<Rightarrow>
          \<lparr> schedule_lib_num = schedule_lib_num (prev_pending_schedule p),
            schedule_hash = schedule_hash (prev_pending_schedule p),
            info_schedule =
              (if was_pending_promoted p
               then schedule_default \<lparr> schedule_version :=
                      schedule_version (info_schedule (prev_pending_schedule p)) \<rparr>
               else info_schedule (prev_pending_schedule p)) \<rparr>)"

definition finish_next_common ::
  "chain_env \<Rightarrow> pending_header_state \<Rightarrow> signed_block_header \<Rightarrow> header_state res" where
  "finish_next_common env p h =
     rbind (check_header_matches p h) (\<lambda>_.
     rbind (validate_and_extract_header_extensions env h) (\<lambda>exts.
     rbind (new_schedule_of_header env p h exts) (\<lambda>maybe_new.
     rbind (new_features_of_header env p exts) (\<lambda>features.
     Inr (header_state_common.extend (header_state_common.truncate p)
       (header_state.fields (calculate_id env h) h (finished_schedule p maybe_new) features [] exts))))))"

definition sig_digest :: "chain_env \<Rightarrow> 'a header_state_scheme \<Rightarrow> digest" where
  "sig_digest env s =
     (let header_bmroot = hash_pair env (header_digest env (header s), get_root (blockroot_merkle s))
      in hash_pair env (header_bmroot, schedule_hash (pending_schedule s)))"

fun recover_more :: "chain_env \<Rightarrow> digest \<Rightarrow> signature list \<Rightarrow> public_key list \<Rightarrow> public_key list res" where
  "recover_more env d [] ks = Inr ks"
| "recover_more env d (sig # sigs) ks =
     rbind (recover_key env sig d) (\<lambda>k.
     rbind (eos_assert (k \<notin> set ks) Wrong_Signing_Key) (\<lambda>_.
     recover_more env d sigs (k # ks)))"

definition verify_signee :: "chain_env \<Rightarrow> 'a header_state_scheme \<Rightarrow> unit res" where
  "verify_signee env s =
     (let num_keys_in_authority = length (bsa_keys (authority_v0 (valid_block_signing_authority s)))
      in rbind (eos_assert (1 + length (additional_signatures s) \<le> num_keys_in_authority) Wrong_Signing_Key) (\<lambda>_.
         let d = sig_digest env s in
         rbind (recover_key env (producer_signature (header s)) d) (\<lambda>k.
         rbind (recover_more env d (additional_signatures s) [k]) (\<lambda>ks.
         let (is_satisfied, relevant_sig_count) =
               keys_satisfy_and_relevant ks (valid_block_signing_authority s)
         in rbind (eos_assert (relevant_sig_count = length ks) Wrong_Signing_Key) (\<lambda>_.
            eos_assert is_satisfied Wrong_Signing_Key)))))"

definition finish_next ::
  "chain_env \<Rightarrow> pending_header_state \<Rightarrow> signed_block_header \<Rightarrow> signature list \<Rightarrow> bool \<Rightarrow> header_state res" where
  "finish_next env p h additional_sigs skip_validate_signee =
     rbind (if additional_sigs \<noteq> []
            then eos_assert (is_builtin_activated (prev_activated_protocol_features p) (wtmsig_digest env))
                   Producer_Schedule_Exception
            else Inr ()) (\<lambda>_.
     rbind (finish_next_common env p h) (\<lambda>result.
     let result = (if additional_sigs \<noteq> []
                   then result \<lparr> additional_signatures := additional_sigs \<rparr> else result)
     in if skip_validate_signee then Inr result
        else rbind (verify_signee env result) (\<lambda>_. Inr result)))"

definition sign :: "chain_env \<Rightarrow> header_state \<Rightarrow> (digest \<Rightarrow> signature list) \<Rightarrow> header_state res" where
  "sign env s signer =
     (let sigs = signer (sig_digest env s)
      in rbind (eos_assert (sigs \<noteq> []) No_Block_Signatures) (\<lambda>_.
         let s = s \<lparr> header := (header s) \<lparr> producer_signature := last sigs \<rparr>,
                     additional_signatures := butlast sigs \<rparr>
         in rbind (verify_signee env s) (\<lambda>_. Inr s)))"

definition finish_next_signed ::
  "chain_env \<Rightarrow> pending_header_state \<Rightarrow> signed_block_header \<Rightarrow> (digest \<Rightarrow> signature list)
     \<Rightarrow> (header_state \<times> signed_block_header) res" where
  "finish_next_signed env p h signer =
     rbind (finish_next_common env p h) (\<lambda>result.
     rbind (sign env result signer) (\<lambda>result.
     let h = h \<lparr> producer_signature := producer_signature (header result) \<rparr>
     in rbind (if additional_signatures result \<noteq> []
               then eos_assert (is_builtin_activated (prev_activated_protocol_features p) (wtmsig_digest env))
                      Producer_Schedule_Exception
               else Inr ()) (\<lambda>_.
        Inr (result, h))))"

definition next_header ::
  "chain_env \<Rightarrow> 'a header_state_scheme \<Rightarrow> signed_block_header \<Rightarrow> signature list \<Rightarrow> bool \<Rightarrow> header_state res" where
  "next_header env s h additional_sigs skip_validate_signee =
     rbind (header_next env s (timestamp h) (confirmed h)) (\<lambda>p.
     finish_next env p h additional_sigs skip_validate_signee)"

definition has_pending_producers :: "'a header_state_scheme \<Rightarrow> bool" where
  "has_pending_producers s \<longleftrightarrow> producers (info_schedule (pending_schedule s)) \<noteq> []"

definition get_new_protocol_feature_activations :: "'a header_state_scheme \<Rightarrow> digest list res" where
  "get_new_protocol_feature_activations s =
     (if ext_count (header_exts s) protocol_feature_activation_id = 0 then Inr []
      else rbind (ext_lower_bound (header_exts s) protocol_feature_activation_id) get_activation)"

end
