(* ===== verification/Block_State.thy ===== *)
theory Block_State
  imports Header_State
begin

text \<open>
  Block states (\<^verbatim>\<open>block_state_legacy.hpp\<close>, \<^verbatim>\<open>block_state_legacy.cpp\<close>): a header state with its block, the
  mark of having been validated and the cached transactions, and the header state read from a
  snapshot of version 2 (\<^verbatim>\<open>block_header_state_legacy.hpp\<close>). The types of transaction receipts and of
  cached transactions are parameters: nothing here looks into them. A block state may have no block.
\<close>

section \<open>Header states of old snapshots\<close>

record snapshot_schedule_info =
  snap_schedule_lib_num :: u32
  snap_schedule_hash :: digest
  snap_schedule :: producer_schedule_type

record snapshot_header_state_v2 =
  snap_block_num :: u32
  snap_dpos_proposed_irreversible_blocknum :: u32
  snap_dpos_irreversible_blocknum :: u32
  snap_active_schedule :: producer_schedule_type
  snap_blockroot_merkle :: incremental_merkle
  snap_producer_to_last_produced :: "(name, u32) flat_map"
  snap_producer_to_last_implied_irb :: "(name, u32) flat_map"
  snap_block_signing_key :: public_key
  snap_confirm_count :: "u8 list"
  snap_id :: digest
  snap_header :: signed_block_header
  snap_pending_schedule :: snapshot_schedule_info
  snap_activated_protocol_features :: "digest fset"

definition header_state_of_snapshot :: "snapshot_header_state_v2 \<Rightarrow> header_state" where
  "header_state_of_snapshot snap =
     \<lparr> block_num = snap_block_num snap,
       dpos_proposed_irreversible_blocknum = snap_dpos_proposed_irreversible_blocknum snap,
       dpos_irreversible_blocknum = snap_dpos_irreversible_blocknum snap,
       active_schedule = schedule_of_legacy (snap_active_schedule snap),
       blockroot_merkle = snap_blockroot_merkle snap,
       producer_to_last_produced = snap_producer_to_last_produced snap,
       producer_to_last_implied_irb = snap_producer_to_last_implied_irb snap,
       valid_block_signing_authority = single_key_authority (snap_block_signing_key snap),
       confirm_count = snap_confirm_count snap,
       block_id = snap_id snap,
       header = snap_header snap,
       pending_schedule =
         \<lparr> schedule_lib_num = snap_schedule_lib_num (snap_pending_schedule snap),
           schedule_hash = snap_schedule_hash (snap_pending_schedule snap),
           info_schedule = schedule_of_legacy (snap_schedule (snap_pending_schedule snap)) \<rparr>,
       activated_protocol_features = snap_activated_protocol_features snap,
       additional_signatures = [],
       header_exts = [] \<rparr>"

section \<open>Block states\<close>

record ('t, 'm) block_state = header_state +
  block :: "'t signed_block option"
  validated :: bool
  pub_keys_recovered :: bool
  cached_trxs :: "'m list"

definition is_valid :: "('t, 'm, 'a) block_state_scheme \<Rightarrow> bool" where
  "is_valid bs \<longleftrightarrow> validated bs"

definition is_pub_keys_recovered :: "('t, 'm, 'a) block_state_scheme \<Rightarrow> bool" where
  "is_pub_keys_recovered bs \<longleftrightarrow> pub_keys_recovered bs"

definition extract_trxs_metas :: "('t, 'm) block_state \<Rightarrow> 'm list \<times> ('t, 'm) block_state" where
  "extract_trxs_metas bs = (cached_trxs bs, bs \<lparr> pub_keys_recovered := False, cached_trxs := [] \<rparr>)"

definition set_trxs_metas :: "'m list \<Rightarrow> bool \<Rightarrow> ('t, 'm) block_state \<Rightarrow> ('t, 'm) block_state" where
  "set_trxs_metas trxs_metas keys_recovered bs =
     bs \<lparr> pub_keys_recovered := keys_recovered, cached_trxs := trxs_metas \<rparr>"

definition extract_additional_signatures :: "chain_env \<Rightarrow> 't signed_block \<Rightarrow> signature list res" where
  "extract_additional_signatures env b =
     rbind (validate_and_extract_extensions env b) (\<lambda>exts.
     if ext_count exts additional_block_signatures_id > 0
     then rbind (ext_lower_bound exts additional_block_signatures_id) (\<lambda>e. Inr (additional e))
     else Inr [])"

text \<open>The constructor for a block that was received.\<close>

definition block_state_received ::
  "chain_env \<Rightarrow> 'a header_state_scheme \<Rightarrow> 't signed_block \<Rightarrow> bool \<Rightarrow> ('t, 'm) block_state res" where
  "block_state_received env prev b skip_validate_signee =
     rbind (extract_additional_signatures env b) (\<lambda>sigs.
     rbind (next_header env prev (signed_block_header.truncate b) sigs skip_validate_signee) (\<lambda>s.
     Inr (header_state.extend s (block_state.fields (Some b) False False []))))"

text \<open>
  Promoting a pending state while producing: the header of the block is signed in place, and
  additional signatures become an extension of the block.
\<close>

definition inject_additional_signatures ::
  "chain_env \<Rightarrow> pending_header_state \<Rightarrow> 't signed_block \<Rightarrow> (digest \<Rightarrow> signature list)
     \<Rightarrow> (header_state \<times> 't signed_block) res" where
  "inject_additional_signatures env cur b signer =
     rbind (finish_next_signed env cur (signed_block_header.truncate b) signer) (\<lambda>(result, h).
     let b = b \<lparr> producer_signature := producer_signature h \<rparr>
     in if additional_signatures result \<noteq> [] then
          rbind (eos_assert (is_builtin_activated (prev_activated_protocol_features cur) (wtmsig_digest env))
                   Block_Validate_Exception) (\<lambda>_.
          Inr (result, b \<lparr> block_extensions :=
            emplace_extension (block_extensions b) additional_block_signatures_id
              (pack_signatures env (additional_signatures result)) \<rparr>))
        else Inr (result, b))"

definition block_state_produced ::
  "chain_env \<Rightarrow> pending_header_state \<Rightarrow> 't signed_block \<Rightarrow> 'm list \<Rightarrow> (digest \<Rightarrow> signature list)
     \<Rightarrow> ('t, 'm) block_state res" where
  "block_state_produced env cur b trx_metas signer =
     rbind (inject_additional_signatures env cur b signer) (\<lambda>(s, b).
     Inr (header_state.extend s (block_state.fields (Some b) False True trx_metas)))"

section \<open>The state of a new chain\<close>

text \<open>
  The header state that \<^verbatim>\<open>controller_impl::initialize_blockchain_state\<close> starts from: the system
  account is the only producer, its schedule is active and pending.
\<close>

definition genesis_header :: "block_timestamp \<Rightarrow> digest \<Rightarrow> signed_block_header" where
  "genesis_header initial_timestamp chain_id =
     \<lparr> timestamp = initial_timestamp, producer = Name 0, confirmed = 1, previous = digest_default,
       transaction_mroot = digest_default, action_mroot = chain_id, header_schedule_version = 0,
       new_producers = None, header_extensions = [], producer_signature = signature_default \<rparr>"

definition genesis_header_state ::
  "chain_env \<Rightarrow> public_key \<Rightarrow> block_timestamp \<Rightarrow> digest \<Rightarrow> header_state" where
  "genesis_header_state env initial_key initial_timestamp chain_id =
     (let initial_schedule =
            \<lparr> schedule_version = 0,
              producers = [\<lparr> producer_name = system_account_name,
                             pa_authority = single_key_authority initial_key \<rparr>] \<rparr>;
          initial_legacy_schedule =
            \<lparr> legacy_version = 0,
              legacy_producers = [\<lparr> pk_producer_name = system_account_name,
                                    block_signing_key = initial_key \<rparr>] \<rparr>;
          h = genesis_header initial_timestamp chain_id
      in \<lparr> block_num = block_num_of h,
           dpos_proposed_irreversible_blocknum = 0,
           dpos_irreversible_blocknum = 0,
           active_schedule = initial_schedule,
           blockroot_merkle = incremental_merkle_init,
           producer_to_last_produced = [],
           producer_to_last_implied_irb = [],
           valid_block_signing_authority = Authority_V0 \<lparr> bsa_threshold = 0, bsa_keys = [] \<rparr>,
           confirm_count = [],
           block_id = calculate_id env h,
           header = h,
           pending_schedule =
             \<lparr> schedule_lib_num = 0, schedule_hash = hash_legacy_schedule env initial_legacy_schedule,
               info_schedule = initial_schedule \<rparr>,
           activated_protocol_features = {||},
           additional_signatures = [],
           header_exts = [] \<rparr>)"

end
