(* ===== verification/Fork_Database.thy ===== *)
theory Fork_Database
  imports Block_State Chain_Database
begin

text \<open>
  The fork database (\<^verbatim>\<open>fork_database.hpp\<close>, \<^verbatim>\<open>fork_database.cpp\<close>): the tree of block states above the
  last irreversible block, its best validated block (the head), the walk along branches, and the
  file in which it is kept between runs. Block states are shared objects that the caller keeps
  pointers to, and marking one as validated changes the object: they live in an explicit store. The
  mutex that serialises the calls, logging and the file system are not modelled.
\<close>

section \<open>State\<close>

type_synonym ptr = nat

text \<open>
  The index holds pointers in the order of insertion. \<open>next_ptr\<close> is the next free address. \<open>None\<close>
  is a null pointer.
\<close>

record ('t, 'm) fork_db =
  store :: "ptr \<Rightarrow> ('t, 'm) block_state"
  next_ptr :: ptr
  index :: "ptr list"
  root :: "ptr option"
  head :: "ptr option"

definition id_of :: "('t, 'm) fork_db \<Rightarrow> ptr \<Rightarrow> digest" where
  "id_of d p = block_id (store d p)"

definition prev_of :: "('t, 'm) fork_db \<Rightarrow> ptr \<Rightarrow> digest" where
  "prev_of d p = previous (header (store d p))"

definition valid_at :: "('t, 'm) fork_db \<Rightarrow> ptr \<Rightarrow> bool" where
  "valid_at d p = is_valid (store d p)"

definition first_preferred :: "('a header_state_scheme) \<Rightarrow> ('b header_state_scheme) \<Rightarrow> bool" where
  "first_preferred lhs rhs \<longleftrightarrow>
     (dpos_irreversible_blocknum lhs, block_num lhs) > (dpos_irreversible_blocknum rhs, block_num rhs)"

text \<open>
  The order of the index \<^verbatim>\<open>by_lib_block_num\<close>: validated blocks first, then by decreasing irreversible
  block number, by decreasing block number, and by increasing id.
\<close>

definition lib_key :: "('t, 'm) block_state \<Rightarrow> bool \<times> int \<times> int \<times> u64 \<times> u64 \<times> u64 \<times> u64" where
  "lib_key b =
     (\<not> is_valid b, - uint (dpos_irreversible_blocknum b), - uint (block_num b),
      hash0 (block_id b), hash1 (block_id b), hash2 (block_id b), hash3 (block_id b))"

definition by_lib_block_num :: "('t, 'm) fork_db \<Rightarrow> ptr list" where
  "by_lib_block_num d = sort_key (\<lambda>p. lib_key (store d p)) (index d)"

text \<open>The entries of the index \<^verbatim>\<open>by_prev\<close> for one predecessor.\<close>

definition by_prev :: "('t, 'm) fork_db \<Rightarrow> digest \<Rightarrow> ptr list" where
  "by_prev d x = filter (\<lambda>p. prev_of d p = x) (index d)"

definition set_validated :: "bool \<Rightarrow> ptr \<Rightarrow> ('t, 'm) fork_db \<Rightarrow> ('t, 'm) fork_db" where
  "set_validated v p d = d \<lparr> store := (store d)(p := (store d p) \<lparr> validated := v \<rparr>) \<rparr>"

text \<open>\<^verbatim>\<open>std::make_shared\<close> of a block state.\<close>

definition make_shared :: "('t, 'm) block_state \<Rightarrow> ('t, 'm) fork_db \<Rightarrow> ptr \<times> ('t, 'm) fork_db" where
  "make_shared b d =
     (next_ptr d, d \<lparr> store := (store d)(next_ptr d := b), next_ptr := next_ptr d + 1 \<rparr>)"

section \<open>Operations\<close>

definition get_block :: "('t, 'm) fork_db \<Rightarrow> digest \<Rightarrow> ptr option" where
  "get_block d x = find_by (id_of d) (index d) x"

definition get_block_header :: "('t, 'm) fork_db \<Rightarrow> digest \<Rightarrow> ptr option res" where
  "get_block_header d x =
     (case root d of
        None \<Rightarrow> Inl Undefined_Behaviour
      | Some r \<Rightarrow> if id_of d r = x then Inr (Some r) else Inr (get_block d x))"

text \<open>The block state that \<^verbatim>\<open>reset\<close> makes from a header state: everything else has its default value.\<close>

definition block_state_of_header :: "header_state \<Rightarrow> ('t, 'm) block_state" where
  "block_state_of_header s = header_state.extend s (block_state.fields None True False [])"

definition reset :: "header_state \<Rightarrow> ('t, 'm) fork_db \<Rightarrow> ('t, 'm) fork_db" where
  "reset root_bhs d =
     (let (r, d) = make_shared (block_state_of_header root_bhs) (d \<lparr> index := [] \<rparr>)
      in d \<lparr> root := Some r, head := Some r \<rparr>)"

definition rollback_head_to_root :: "('t, 'm) fork_db \<Rightarrow> ('t, 'm) fork_db" where
  "rollback_head_to_root d = (fold (set_validated False) (index d) d) \<lparr> head := root d \<rparr>"

text \<open>
  The check of newly activated features when blocks are read from a file; any failure of it is
  rethrown as \<^verbatim>\<open>fork_database_exception\<close>.
\<close>

definition validate_features :: "chain_env \<Rightarrow> ('t, 'm) fork_db \<Rightarrow> ptr \<Rightarrow> ptr \<Rightarrow> unit res" where
  "validate_features env d n prev_bh =
     (let exts = header_exts (store d n) in
      if ext_count exts protocol_feature_activation_id > 0 then
        case rbind (rbind (ext_lower_bound exts protocol_feature_activation_id) get_activation)
               (validator env (timestamp (header (store d n))) (activated_protocol_features (store d prev_bh))) of
          Inl _ \<Rightarrow> Inl Fork_Database_Exception
        | Inr _ \<Rightarrow> Inr ()
      else Inr ())"

definition add_impl ::
  "chain_env \<Rightarrow> ptr option \<Rightarrow> bool \<Rightarrow> bool \<Rightarrow> ('t, 'm) fork_db \<Rightarrow> ('t, 'm) fork_db res" where
  "add_impl env n ignore_duplicate check_features d =
     rbind (eos_assert (root d \<noteq> None) Fork_Database_Exception) (\<lambda>_.
     case n of
       None \<Rightarrow> Inl Fork_Database_Exception
     | Some n \<Rightarrow>
         rbind (get_block_header d (prev_of d n)) (\<lambda>prev_bh.
         case prev_bh of
           None \<Rightarrow> Inl Unlinkable_Block_Exception
         | Some prev_bh \<Rightarrow>
             rbind (if check_features then validate_features env d n prev_bh else Inr ()) (\<lambda>_.
             if get_block d (id_of d n) \<noteq> None
             then (if ignore_duplicate then Inr d else Inl Fork_Database_Exception)
             else
               let d = d \<lparr> index := index d @ [n] \<rparr>;
                   candidate = hd (by_lib_block_num d)
               in Inr (if valid_at d candidate then d \<lparr> head := Some candidate \<rparr> else d))))"

definition add :: "chain_env \<Rightarrow> ptr option \<Rightarrow> bool \<Rightarrow> ('t, 'm) fork_db \<Rightarrow> ('t, 'm) fork_db res" where
  "add env n ignore_duplicate d = add_impl env n ignore_duplicate False d"

text \<open>
  The queue of \<^verbatim>\<open>remove\<close>: the blocks seen and the blocks to look at. The number of steps is bounded
  by one more than the size of the index; a longer run has met a block twice and does not end.
\<close>

fun remove_loop :: "nat \<Rightarrow> ('t, 'm) fork_db \<Rightarrow> digest \<Rightarrow> digest list \<Rightarrow> digest list \<Rightarrow> digest list res" where
  "remove_loop fuel d head_id seen [] = Inr seen"
| "remove_loop 0 d head_id seen (x # queue) = Inl Does_Not_Terminate"
| "remove_loop (Suc fuel) d head_id seen (x # queue) =
     rbind (eos_assert (x \<noteq> head_id) Fork_Database_Exception) (\<lambda>_.
     remove_loop fuel d head_id (seen @ [x]) (queue @ map (id_of d) (by_prev d x)))"

definition erase :: "digest \<Rightarrow> ('t, 'm) fork_db \<Rightarrow> ('t, 'm) fork_db" where
  "erase x d = d \<lparr> index := remove_by (id_of d) (index d) x \<rparr>"

definition remove :: "digest \<Rightarrow> ('t, 'm) fork_db \<Rightarrow> ('t, 'm) fork_db res" where
  "remove x d =
     (case head d of
        None \<Rightarrow> Inl Undefined_Behaviour
      | Some h \<Rightarrow>
          rbind (remove_loop (length (index d) + 1) d (id_of d h) [] [x]) (\<lambda>queue.
          Inr (fold erase queue d)))"

text \<open>
  The walk of \<^verbatim>\<open>advance_root\<close> from the new root towards the old one, collecting the ids of the
  predecessors. The fuel is the size of the index.
\<close>

fun ancestor_ids :: "nat \<Rightarrow> ('t, 'm) fork_db \<Rightarrow> digest \<Rightarrow> ptr \<Rightarrow> digest list res" where
  "ancestor_ids 0 d root_id b = Inl Does_Not_Terminate"
| "ancestor_ids (Suc fuel) d root_id b =
     (case get_block d (prev_of d b) of
        None \<Rightarrow> rbind (eos_assert (prev_of d b = root_id) Fork_Database_Exception) (\<lambda>_. Inr [prev_of d b])
      | Some b' \<Rightarrow> rbind (ancestor_ids fuel d root_id b') (\<lambda>ids. Inr (prev_of d b # ids)))"

text \<open>
  When a removal fails, the removals before it have taken place: the state after the call is part
  of the result.
\<close>

fun remove_all :: "digest list \<Rightarrow> ('t, 'm) fork_db \<Rightarrow> unit res \<times> ('t, 'm) fork_db" where
  "remove_all [] d = (Inr (), d)"
| "remove_all (x # xs) d = (case remove x d of Inl e \<Rightarrow> (Inl e, d) | Inr d' \<Rightarrow> remove_all xs d')"

definition advance_root :: "digest \<Rightarrow> ('t, 'm) fork_db \<Rightarrow> unit res \<times> ('t, 'm) fork_db" where
  "advance_root x d =
     (case root d of
        None \<Rightarrow> (Inl Fork_Database_Exception, d)
      | Some r \<Rightarrow>
     (case get_block d x of
        None \<Rightarrow> (Inl Fork_Database_Exception, d)
      | Some new_root \<Rightarrow>
          if \<not> valid_at d new_root then (Inl Fork_Database_Exception, d)
          else
            case ancestor_ids (length (index d)) d (id_of d r) new_root of
              Inl e \<Rightarrow> (Inl e, d)
            | Inr blocks_to_remove \<Rightarrow>
                (case remove_all blocks_to_remove (erase x d) of
                   (Inl e, d') \<Rightarrow> (Inl e, d')
                 | (Inr _, d') \<Rightarrow> (Inr (), d' \<lparr> root := Some new_root \<rparr>))))"

definition pending_head :: "('t, 'm) fork_db \<Rightarrow> ptr option res" where
  "pending_head d =
     (case dropWhile (valid_at d) (by_lib_block_num d) of
        [] \<Rightarrow> Inr (head d)
      | p # _ \<Rightarrow>
          (case head d of
             None \<Rightarrow> Inl Undefined_Behaviour
           | Some h \<Rightarrow> if first_preferred (store d p) (store d h) then Inr (Some p) else Inr (Some h)))"

definition mark_valid :: "ptr \<Rightarrow> ('t, 'm) fork_db \<Rightarrow> ('t, 'm) fork_db res" where
  "mark_valid h d =
     (if validated (store d h) then Inr d
      else
        case get_block d (id_of d h) of
          None \<Rightarrow> Inl Fork_Database_Exception
        | Some p \<Rightarrow>
            let d = set_validated True p d;
                candidate = hd (by_lib_block_num d)
            in (case head d of
                  None \<Rightarrow> Inl Undefined_Behaviour
                | Some hd_ptr \<Rightarrow>
                    Inr (if first_preferred (store d candidate) (store d hd_ptr)
                         then d \<lparr> head := Some candidate \<rparr> else d)))"

section \<open>Branches\<close>

text \<open>The walk along a branch, from a block to the last one above the root.\<close>

fun branch_from :: "nat \<Rightarrow> ('t, 'm) fork_db \<Rightarrow> ptr option \<Rightarrow> ptr list res" where
  "branch_from fuel d None = Inr []"
| "branch_from 0 d (Some s) = Inl Does_Not_Terminate"
| "branch_from (Suc fuel) d (Some s) =
     rbind (branch_from fuel d (get_block d (prev_of d s))) (\<lambda>rest. Inr (s # rest))"

definition fetch_branch :: "('t, 'm) fork_db \<Rightarrow> digest \<Rightarrow> u32 \<Rightarrow> ptr list res" where
  "fetch_branch d h trim_after_block_num =
     rbind (branch_from (length (index d)) d (get_block d h)) (\<lambda>branch.
     Inr (filter (\<lambda>s. block_num (store d s) \<le> trim_after_block_num) branch))"

fun search_loop :: "nat \<Rightarrow> ('t, 'm) fork_db \<Rightarrow> u32 \<Rightarrow> ptr option \<Rightarrow> ptr option res" where
  "search_loop fuel d num None = Inr None"
| "search_loop 0 d num (Some s) = Inl Does_Not_Terminate"
| "search_loop (Suc fuel) d num (Some s) =
     (if block_num (store d s) = num then Inr (Some s)
      else search_loop fuel d num (get_block d (prev_of d s)))"

definition search_on_branch :: "('t, 'm) fork_db \<Rightarrow> digest \<Rightarrow> u32 \<Rightarrow> ptr option res" where
  "search_on_branch d h num = search_loop (length (index d)) d num (get_block d h)"

text \<open>\<^verbatim>\<open>(x == root->id) ? root : get_block_impl(x)\<close>, with the check that the block exists.\<close>

definition block_or_root :: "('t, 'm) fork_db \<Rightarrow> digest \<Rightarrow> ptr res" where
  "block_or_root d x =
     (case root d of
        None \<Rightarrow> Inl Undefined_Behaviour
      | Some r \<Rightarrow>
          if x = id_of d r then Inr r
          else case get_block d x of None \<Rightarrow> Inl Fork_Db_Block_Not_Found | Some p \<Rightarrow> Inr p)"

text \<open>The first two loops of \<^verbatim>\<open>fetch_branch_from\<close>: down to the number \<open>num\<close>.\<close>

fun descend :: "nat \<Rightarrow> ('t, 'm) fork_db \<Rightarrow> u32 \<Rightarrow> ptr \<Rightarrow> (ptr list \<times> ptr) res" where
  "descend 0 d num p = (if block_num (store d p) > num then Inl Does_Not_Terminate else Inr ([], p))"
| "descend (Suc fuel) d num p =
     (if block_num (store d p) > num then
        rbind (block_or_root d (prev_of d p)) (\<lambda>q.
        rbind (descend fuel d num q) (\<lambda>(branch, s). Inr (p # branch, s)))
      else Inr ([], p))"

text \<open>The third loop: both branches in step until they have the same predecessor.\<close>

fun join_loop :: "nat \<Rightarrow> ('t, 'm) fork_db \<Rightarrow> ptr \<Rightarrow> ptr \<Rightarrow> (ptr list \<times> ptr list) res" where
  "join_loop 0 d p q = (if prev_of d p \<noteq> prev_of d q then Inl Does_Not_Terminate else Inr ([p], [q]))"
| "join_loop (Suc fuel) d p q =
     (if prev_of d p \<noteq> prev_of d q then
        (case get_block d (prev_of d p) of
           None \<Rightarrow> Inl Fork_Db_Block_Not_Found
         | Some p' \<Rightarrow>
        (case get_block d (prev_of d q) of
           None \<Rightarrow> Inl Fork_Db_Block_Not_Found
         | Some q' \<Rightarrow>
             rbind (join_loop fuel d p' q') (\<lambda>(ps, qs). Inr (p # ps, q # qs))))
      else Inr ([p], [q]))"

definition fetch_branch_from :: "('t, 'm) fork_db \<Rightarrow> digest \<Rightarrow> digest \<Rightarrow> (ptr list \<times> ptr list) res" where
  "fetch_branch_from d first second =
     rbind (block_or_root d first) (\<lambda>first_branch.
     rbind (block_or_root d second) (\<lambda>second_branch.
     rbind (descend (length (index d)) d (block_num (store d second_branch)) first_branch) (\<lambda>(ps, first_branch).
     rbind (descend (length (index d)) d (block_num (store d first_branch)) second_branch) (\<lambda>(qs, second_branch).
     if id_of d first_branch = id_of d second_branch then Inr (ps, qs)
     else rbind (join_loop (length (index d)) d first_branch second_branch) (\<lambda>(ps', qs').
          Inr (ps @ ps', qs @ qs'))))))"

section \<open>The file of the fork database\<close>

text \<open>
  The content of the file, after the serialisation of its fields: a header state is written without
  the decoded extensions, a block state without them and without cached transactions. \<open>file_head\<close> is
  missing when the database was closed without a head.
\<close>

record 't fork_db_file =
  file_totem :: u32
  file_version :: u32
  file_root :: header_state
  file_blocks :: "(header_state \<times> 't signed_block option \<times> bool) list"
  file_head :: "digest option"

definition magic_number :: u32 where
  "magic_number = 0x30510FDB"

definition min_supported_version :: u32 where
  "min_supported_version = 1"

definition max_supported_version :: u32 where
  "max_supported_version = 1"

definition packed_header :: "'a header_state_scheme \<Rightarrow> header_state" where
  "packed_header s = header_state.truncate (s \<lparr> header_exts := [] \<rparr>)"

definition packed_block :: "('t, 'm) block_state \<Rightarrow> header_state \<times> 't signed_block option \<times> bool" where
  "packed_block b = (packed_header b, block b, validated b)"

text \<open>
  The loop of \<^verbatim>\<open>close\<close> merges the unvalidated and the validated blocks, each walked backwards in the
  order of the index.
\<close>

fun close_merge :: "('t, 'm) fork_db \<Rightarrow> ptr list \<Rightarrow> ptr list \<Rightarrow> ptr list" where
  "close_merge d (u # us) (v # vs) =
     (if first_preferred (store d v) (store d u) then u # close_merge d us (v # vs)
      else v # close_merge d (u # us) vs)"
| "close_merge d us [] = us"
| "close_merge d [] vs = vs"

definition close_order :: "('t, 'm) fork_db \<Rightarrow> ptr list" where
  "close_order d =
     close_merge d (rev (dropWhile (valid_at d) (by_lib_block_num d)))
       (rev (takeWhile (valid_at d) (by_lib_block_num d)))"

definition close :: "'t fork_db_file option \<Rightarrow> ('t, 'm) fork_db \<Rightarrow> ('t, 'm) fork_db \<times> 't fork_db_file option" where
  "close file d =
     (case root d of
        None \<Rightarrow> (d, file)
      | Some r \<Rightarrow>
          (d \<lparr> index := [] \<rparr>,
           Some \<lparr> file_totem = magic_number, file_version = max_supported_version,
                  file_root = packed_header (store d r),
                  file_blocks = map (\<lambda>p. packed_block (store d p)) (close_order d),
                  file_head = map_option (id_of d) (head d) \<rparr>))"

definition unpacked_block ::
  "chain_env \<Rightarrow> header_state \<times> 't signed_block option \<times> bool \<Rightarrow> ('t, 'm) block_state res" where
  "unpacked_block env = (\<lambda>(s, b, v).
     case b of
       None \<Rightarrow> Inl Undefined_Behaviour
     | Some b' \<Rightarrow>
         rbind (validate_and_extract_header_extensions env b') (\<lambda>exts.
         Inr (header_state.extend (s \<lparr> header_exts := exts \<rparr>) (block_state.fields b v False []))))"

definition open_add ::
  "chain_env \<Rightarrow> header_state \<times> 't signed_block option \<times> bool \<Rightarrow> ('t, 'm) fork_db \<Rightarrow> ('t, 'm) fork_db res" where
  "open_add env packed d =
     rbind (unpacked_block env packed) (\<lambda>b.
     let (p, d) = make_shared b d in add_impl env (Some p) False True d)"

definition open_head :: "digest \<Rightarrow> ('t, 'm) fork_db \<Rightarrow> ('t, 'm) fork_db res" where
  "open_head head_id d =
     (case root d of
        None \<Rightarrow> Inl Undefined_Behaviour
      | Some r \<Rightarrow>
          rbind (if id_of d r = head_id then Inr r
                 else case get_block d head_id of
                        None \<Rightarrow> Inl Fork_Database_Exception | Some h \<Rightarrow> Inr h) (\<lambda>h.
          let candidates = by_lib_block_num d
          in rbind (if candidates = [] \<or> \<not> valid_at d (hd candidates)
                    then eos_assert (id_of d h = id_of d r) Fork_Database_Exception
                    else eos_assert (\<not> first_preferred (store d (hd candidates)) (store d h))
                           Fork_Database_Exception) (\<lambda>_.
             Inr (d \<lparr> head := Some h \<rparr>))))"

text \<open>\<^verbatim>\<open>open\<close>: the file, when there is one, is read and removed.\<close>

definition open_db ::
  "chain_env \<Rightarrow> 't fork_db_file option \<Rightarrow> ('t, 'm) fork_db \<Rightarrow> (('t, 'm) fork_db \<times> 't fork_db_file option) res" where
  "open_db env file d =
     (case file of
        None \<Rightarrow> Inr (d, None)
      | Some f \<Rightarrow>
          rbind (eos_assert (file_totem f = magic_number) Fork_Database_Exception) (\<lambda>_.
          rbind (eos_assert (min_supported_version \<le> file_version f \<and> file_version f \<le> max_supported_version)
                   Fork_Database_Exception) (\<lambda>_.
          rbind (rfold (open_add env) (file_blocks f) (reset (file_root f) d)) (\<lambda>d.
          case file_head f of
            None \<Rightarrow> Inl Unpack_Exception
          | Some head_id \<Rightarrow> rbind (open_head head_id d) (\<lambda>d. Inr (d, None))))))"

end
