(* ===== verification/Fork_Trees.thy ===== *)
theory Fork_Trees
  imports Fork_Database
begin

text \<open>
  The blocks of a fork database as a forest: the blocks below an id, the queue of \<^const>\<open>remove\<close>, which
  ends and collects exactly the blocks below an id, and the ancestors that \<^const>\<open>advance_root\<close> removes.
\<close>

section \<open>Trees\<close>

lemmas fork_access = id_of_def prev_of_def valid_at_def

text \<open>Every block of a list hangs below an id of \<open>S\<close> or a block before it in the list.\<close>

fun linked :: "('t, 'm) fork_db \<Rightarrow> digest set \<Rightarrow> ptr list \<Rightarrow> bool" where
  "linked d S [] \<longleftrightarrow> True"
| "linked d S (p # ps) \<longleftrightarrow> prev_of d p \<in> S \<and> linked d (insert (id_of d p) S) ps"

definition ids :: "('t, 'm) fork_db \<Rightarrow> digest set" where
  "ids d = id_of d ` set (index d)"

definition forest :: "('t, 'm) fork_db \<Rightarrow> digest set \<Rightarrow> bool" where
  "forest d S \<longleftrightarrow> distinct (map (id_of d) (index d)) \<and> S \<inter> ids d = {} \<and> linked d S (index d)"

text \<open>The blocks below an id.\<close>

inductive below :: "('t, 'm) fork_db \<Rightarrow> digest \<Rightarrow> ptr \<Rightarrow> bool" for d x where
  child: "p \<in> set (index d) \<Longrightarrow> prev_of d p = x \<Longrightarrow> below d x p"
| deeper: "below d x q \<Longrightarrow> p \<in> set (index d) \<Longrightarrow> prev_of d p = id_of d q \<Longrightarrow> below d x p"

lemma below_mem: "below d x p \<Longrightarrow> p \<in> set (index d)"
  by (induction rule: below.induct) auto

lemma below_trans: "below d (id_of d q) p \<Longrightarrow> below d x q \<Longrightarrow> below d x p"
  by (induction rule: below.induct) (auto intro: below.deeper)

lemma id_inject:
  "forest d S \<Longrightarrow> p \<in> set (index d) \<Longrightarrow> q \<in> set (index d) \<Longrightarrow> id_of d p = id_of d q \<longleftrightarrow> p = q"
  by (auto simp: forest_def distinct_map inj_on_def)

lemma get_block_iff:
  "forest d S \<Longrightarrow> get_block d x = Some p \<longleftrightarrow> p \<in> set (index d) \<and> id_of d p = x"
  by (simp add: get_block_def find_by_Some_iff forest_def)

lemma get_block_None: "get_block d x = None \<longleftrightarrow> x \<notin> ids d"
  by (simp add: get_block_def find_by_None ids_def)

lemma linked_nth:
  "linked d S ps \<Longrightarrow> i < length ps \<Longrightarrow> prev_of d (ps ! i) \<in> S \<union> id_of d ` set (take i ps)"
proof (induction d S ps arbitrary: i rule: linked.induct)
  case (2 d S p ps)
  then show ?case by (cases i) auto
qed simp

lemma parent_earlier:
  assumes "forest d S" "i < length (index d)" "j < length (index d)"
    "prev_of d (index d ! i) = id_of d (index d ! j)"
  shows "j < i"
proof -
  have "prev_of d (index d ! i) \<in> ids d" using assms(3,4) by (simp add: ids_def)
  then have "prev_of d (index d ! i) \<in> id_of d ` set (take i (index d))"
    using assms(1,2) linked_nth [of d S "index d" i] by (auto simp: forest_def)
  then obtain k where "k < i" "id_of d (index d ! k) = id_of d (index d ! j)"
    using assms(2,4) by (auto simp: in_set_conv_nth)
  then have "k = j"
    using assms(1-3) by (auto simp: forest_def distinct_conv_nth)
  with \<open>k < i\<close> show ?thesis by simp
qed

lemma below_later:
  assumes "forest d S" "below d (id_of d (index d ! j)) p" "j < length (index d)"
  shows "\<exists>i. j < i \<and> i < length (index d) \<and> p = index d ! i"
  using assms(2)
proof (induction rule: below.induct)
  case (child p)
  then obtain i where "i < length (index d)" "p = index d ! i" by (auto simp: in_set_conv_nth)
  with parent_earlier [OF assms(1), of i j] child assms(3) show ?case by auto
next
  case (deeper q p)
  then obtain k where k: "j < k" "k < length (index d)" "q = index d ! k" by blast
  obtain i where i: "i < length (index d)" "p = index d ! i"
    using deeper by (auto simp: in_set_conv_nth)
  with parent_earlier [OF assms(1), of i k] deeper k have "k < i" by simp
  with i k show ?case by (intro exI [of _ i]) simp
qed

lemma not_below_self:
  assumes "forest d S"
  shows "\<not> below d (id_of d p) p"
proof
  assume b: "below d (id_of d p) p"
  then obtain j where j: "j < length (index d)" "p = index d ! j"
    using below_mem by (force simp: in_set_conv_nth)
  with below_later [OF assms, of j p] b obtain i where "j < i" "i < length (index d)" "index d ! j = index d ! i"
    by auto
  moreover have "distinct (index d)" using assms by (simp add: forest_def distinct_map)
  ultimately show False using j by (auto simp: distinct_conv_nth)
qed

lemma linked_mono: "linked d S ps \<Longrightarrow> S \<subseteq> T \<Longrightarrow> linked d T ps"
  by (induction ps arbitrary: S T) (simp_all, metis insert_mono subsetD)

lemma linked_append: "linked d S (ps @ qs) \<longleftrightarrow> linked d S ps \<and> linked d (S \<union> id_of d ` set ps) qs"
  by (induction d S ps rule: linked.induct) auto

lemma linked_filter:
  assumes "linked d S ps"
    and "\<And>p. p \<in> set ps \<Longrightarrow> Q p \<Longrightarrow> prev_of d p \<in> S \<Longrightarrow> prev_of d p \<in> T"
    and "\<And>p q. p \<in> set ps \<Longrightarrow> q \<in> set ps \<Longrightarrow> Q p \<Longrightarrow> prev_of d p = id_of d q \<Longrightarrow> Q q \<or> id_of d q \<in> T"
  shows "linked d T (filter Q ps)"
  using assms
proof (induction d S ps arbitrary: T rule: linked.induct)
  case (2 d S p ps)
  have "linked d (if Q p then insert (id_of d p) T else T) (filter Q ps)"
  proof (rule 2(1))
    fix q assume q: "q \<in> set ps" "Q q" "prev_of d q \<in> insert (id_of d p) S"
    then show "prev_of d q \<in> (if Q p then insert (id_of d p) T else T)"
      using 2(3) [of q] 2(4) [of q p] by (cases "Q p") auto
  next
    fix q q' assume "q \<in> set ps" "q' \<in> set ps" "Q q" "prev_of d q = id_of d q'"
    then show "Q q' \<or> id_of d q' \<in> (if Q p then insert (id_of d p) T else T)"
      using 2(4) [of q q'] by auto
  qed (use 2(2) in simp)
  then show ?case using 2(2-) by auto
qed simp

text \<open>In a tree every block is below an id that is not in the index.\<close>

lemma below_root:
  assumes "forest d S" "p \<in> set (index d)"
  shows "\<exists>x \<in> S. below d x p"
proof -
  have "\<exists>x \<in> S. below d x (index d ! i)" if "i < length (index d)" for i
    using that
  proof (induction i rule: less_induct)
    case (less i)
    from linked_nth [of d S "index d" i] assms(1) less(2)
    consider "prev_of d (index d ! i) \<in> S" | "prev_of d (index d ! i) \<in> id_of d ` set (take i (index d))"
      by (auto simp: forest_def)
    then show ?case
    proof cases
      case 1
      then show ?thesis by (rule rev_bexI) (simp add: less(2) below.child)
    next
      case 2
      then obtain k where k: "k < i" "prev_of d (index d ! i) = id_of d (index d ! k)"
        using less(2) by (auto simp: in_set_conv_nth)
      with less obtain x where "x \<in> S" "below d x (index d ! k)" by force
      then show ?thesis using below.deeper [OF _ _ k(2)] less(2) by auto
    qed
  qed
  with assms(2) show ?thesis by (auto simp: in_set_conv_nth)
qed

section \<open>Removal\<close>

text \<open>An id and the ids below it.\<close>

definition closure :: "('t, 'm) fork_db \<Rightarrow> digest \<Rightarrow> digest set" where
  "closure d x = insert x (id_of d ` {p. below d x p})"

text \<open>The invariant of the queue of \<^const>\<open>remove\<close>.\<close>

definition queue_ok :: "('t, 'm) fork_db \<Rightarrow> digest \<Rightarrow> digest list \<Rightarrow> digest list \<Rightarrow> bool" where
  "queue_ok d x seen queue \<longleftrightarrow>
     distinct (seen @ queue) \<and> x \<in> set (seen @ queue) \<and> set (seen @ queue) \<subseteq> closure d x \<and>
     (\<forall>p \<in> set (index d). prev_of d p \<in> set seen \<longrightarrow> id_of d p \<in> set (seen @ queue)) \<and>
     (\<forall>z \<in> set (seen @ queue). z \<noteq> x \<longrightarrow> (\<exists>p \<in> set (index d). id_of d p = z \<and> prev_of d p \<in> set seen))"

lemma queue_ok_start: "queue_ok d x [] [x]"
  by (simp add: queue_ok_def closure_def)

lemma queue_ok_done:
  assumes "queue_ok d x seen []"
  shows "set seen = closure d x"
proof
  show "closure d x \<subseteq> set seen"
  proof
    fix z assume "z \<in> closure d x"
    then consider "z = x" | p where "below d x p" "z = id_of d p" by (auto simp: closure_def)
    then show "z \<in> set seen"
    proof cases
      case 2
      have "id_of d p \<in> set seen" if "below d x p" for p
        using that assms by (induction rule: below.induct) (auto simp: queue_ok_def)
      with 2 show ?thesis by simp
    qed (use assms in \<open>simp add: queue_ok_def\<close>)
  qed
qed (use assms in \<open>simp add: queue_ok_def\<close>)

lemma child_in_closure:
  "y \<in> closure d x \<Longrightarrow> p \<in> set (index d) \<Longrightarrow> prev_of d p = y \<Longrightarrow> below d x p"
  by (auto simp: closure_def intro: below.intros)

lemma queue_ok_step:
  assumes forest: "forest d S" and ok: "queue_ok d x seen (y # queue)"
  shows "queue_ok d x (seen @ [y]) (queue @ map (id_of d) (by_prev d y))"
proof -
  let ?kids = "map (id_of d) (by_prev d y)"
  have y: "y \<in> closure d x" "y \<notin> set seen" and
    parents: "\<And>z. z \<in> set (seen @ y # queue) \<Longrightarrow> z \<noteq> x \<Longrightarrow>
      \<exists>p \<in> set (index d). id_of d p = z \<and> prev_of d p \<in> set seen"
    using ok by (auto simp: queue_ok_def)
  have kids: "set ?kids = id_of d ` {p \<in> set (index d). prev_of d p = y}"
    by (auto simp: by_prev_def)
  have kids_closed: "set ?kids \<subseteq> closure d x"
    unfolding kids using child_in_closure [OF y(1)] by (auto simp: closure_def)
  have fresh: "z \<notin> set (seen @ y # queue)" if z: "z \<in> set ?kids" for z
  proof
    assume mem: "z \<in> set (seen @ y # queue)"
    from z obtain p where p: "p \<in> set (index d)" "prev_of d p = y" "z = id_of d p"
      unfolding kids by auto
    show False
    proof (cases "z = x")
      case True
      then have "below d (id_of d p) p" using child_in_closure [OF y(1) p(1,2)] p(3) by simp
      then show False using not_below_self [OF forest] by blast
    next
      case False
      with parents [OF mem] obtain q where "q \<in> set (index d)" "id_of d q = id_of d p" "prev_of d q \<in> set seen"
        using p(3) by auto
      then show False using id_inject [OF forest] p y(2) by metis
    qed
  qed
  have dist: "distinct ?kids"
    using forest by (auto simp: forest_def by_prev_def distinct_map_filter)
  have "distinct ((seen @ [y]) @ queue @ ?kids)"
    using ok dist fresh by (auto simp: queue_ok_def)
  moreover have "set ((seen @ [y]) @ queue @ ?kids) \<subseteq> closure d x" "x \<in> set ((seen @ [y]) @ queue @ ?kids)"
    using ok kids_closed by (auto simp: queue_ok_def)
  moreover have "\<forall>p \<in> set (index d). prev_of d p \<in> set (seen @ [y]) \<longrightarrow>
      id_of d p \<in> set ((seen @ [y]) @ queue @ ?kids)"
    using ok kids by (auto simp: queue_ok_def)
  moreover have "\<exists>p \<in> set (index d). id_of d p = z \<and> prev_of d p \<in> set (seen @ [y])"
    if z: "z \<in> set ((seen @ [y]) @ queue @ ?kids)" "z \<noteq> x" for z
  proof (cases "z \<in> set ?kids")
    case True
    then show ?thesis unfolding kids by auto
  next
    case False
    then have "z \<in> set (seen @ y # queue)" using z(1) by auto
    from parents [OF this z(2)] show ?thesis by auto
  qed
  ultimately show ?thesis unfolding queue_ok_def by blast
qed

lemma queue_bound:
  assumes "queue_ok d x seen queue"
  shows "length seen + length queue \<le> length (index d) + 1"
proof -
  have "closure d x \<subseteq> insert x (id_of d ` set (index d))"
    by (auto simp: closure_def dest: below_mem)
  then have "set (seen @ queue) \<subseteq> insert x (id_of d ` set (index d))"
    using assms unfolding queue_ok_def by blast
  then have "card (set (seen @ queue)) \<le> card (insert x (id_of d ` set (index d)))"
    by (intro card_mono) auto
  also have "\<dots> \<le> Suc (card (id_of d ` set (index d)))" by (simp add: card_insert_if)
  also have "\<dots> \<le> Suc (length (index d))"
    using card_image_le [of "set (index d)" "id_of d"] card_length [of "index d"] by simp
  finally show ?thesis
    using assms distinct_card [of "seen @ queue"] by (simp add: queue_ok_def)
qed

lemma remove_loop_spec:
  assumes "forest d S" "queue_ok d x seen queue" "hid \<notin> set seen"
    "length (index d) + 1 \<le> fuel + length seen"
  shows "if hid \<in> closure d x then remove_loop fuel d hid seen queue = Inl Fork_Database_Exception
    else \<exists>xs. remove_loop fuel d hid seen queue = Inr xs \<and> set xs = closure d x"
  using assms(2-)
proof (induction fuel arbitrary: seen queue)
  case 0
  then have "queue = []" using queue_bound [of d x seen queue] by (cases queue) simp_all
  with 0 queue_ok_done show ?case by force
next
  case (Suc fuel)
  show ?case
  proof (cases queue)
    case Nil
    with Suc.prems queue_ok_done show ?thesis by force
  next
    case (Cons y queue')
    note step = queue_ok_step [OF assms(1) Suc.prems(1) [unfolded Cons]]
    show ?thesis
    proof (cases "y = hid")
      case True
      then have "hid \<in> closure d x" using Suc.prems(1) Cons by (auto simp: queue_ok_def)
      then show ?thesis using True Cons by (simp add: eos_assert_def)
    next
      case False
      then have "remove_loop (Suc fuel) d hid seen queue =
          remove_loop fuel d hid (seen @ [y]) (queue' @ map (id_of d) (by_prev d y))"
        using Cons by (simp add: eos_assert_def)
      then show ?thesis using Suc.IH [OF step] Suc.prems False by simp
    qed
  qed
qed

lemma store_erase [simp]:
  "store (erase x d) = store d" "root (erase x d) = root d" "head (erase x d) = head d"
  "next_ptr (erase x d) = next_ptr d"
  by (simp_all add: erase_def)

lemma access_cong:
  "store d' = store d \<Longrightarrow> id_of d' = id_of d" "store d' = store d \<Longrightarrow> prev_of d' = prev_of d"
  "store d' = store d \<Longrightarrow> valid_at d' = valid_at d"
  by (simp_all add: fork_access fun_eq_iff)

lemma fold_erase:
  "fold erase xs d = d \<lparr> index := filter (\<lambda>p. id_of d p \<notin> set xs) (index d) \<rparr>"
proof (induction xs arbitrary: d)
  case (Cons x xs)
  have "id_of (erase x d) = id_of d" by (rule access_cong) simp
  with Cons [of "erase x d"] show ?case by (simp add: erase_def [of x d] remove_by_def conj_commute)
qed simp

text \<open>\<^const>\<open>remove\<close> refuses to remove the head and otherwise removes exactly the block and those below it.\<close>

lemma remove_spec:
  assumes "forest d S" "head d = Some h"
  shows "remove x d = (if id_of d h \<in> closure d x then Inl Fork_Database_Exception
    else Inr (d \<lparr> index := filter (\<lambda>p. id_of d p \<notin> closure d x) (index d) \<rparr>))"
  using remove_loop_spec [OF assms(1) queue_ok_start, of "id_of d h" "length (index d) + 1" x] assms(2)
  by (auto simp: remove_def fold_erase split: if_splits)

section \<open>Sequences of removals\<close>

lemma below_sub:
  assumes "store d' = store d" "set (index d') \<subseteq> set (index d)" "below d' x p"
  shows "below d x p"
  using assms(3)
proof (induction rule: below.induct)
  case (child p)
  then show ?case using assms(2) access_cong(2) [OF assms(1)] by (auto intro: below.child)
next
  case (deeper q p)
  then show ?case
    using assms(2) access_cong(1,2) [OF assms(1)] by (auto intro: below.deeper [of d x q p])
qed

definition keep :: "(ptr \<Rightarrow> bool) \<Rightarrow> ('t, 'm) fork_db \<Rightarrow> ('t, 'm) fork_db" where
  "keep Q d = d \<lparr> index := filter Q (index d) \<rparr>"

lemma keep_simps [simp]:
  "store (keep Q d) = store d" "root (keep Q d) = root d" "head (keep Q d) = head d"
  "next_ptr (keep Q d) = next_ptr d" "index (keep Q d) = filter Q (index d)"
  "id_of (keep Q d) = id_of d" "prev_of (keep Q d) = prev_of d" "valid_at (keep Q d) = valid_at d"
  "keep P (keep Q d) = keep (\<lambda>p. Q p \<and> P p) d"
  by (auto simp: keep_def fork_access fun_eq_iff intro!: filter_cong)

lemma keep_cong: "(\<And>p. p \<in> set (index d) \<Longrightarrow> P p = Q p) \<Longrightarrow> keep P d = keep Q d"
  by (simp add: keep_def cong: filter_cong)

lemma linked_keep [simp]: "linked (keep Q d) S ps = linked d S ps"
  by (induction d S ps rule: linked.induct) simp_all

lemma forest_keep:
  assumes "forest d S"
    and "\<And>p. p \<in> set (index d) \<Longrightarrow> Q p \<Longrightarrow> prev_of d p \<in> S \<Longrightarrow> prev_of d p \<in> T"
    and "\<And>p q. p \<in> set (index d) \<Longrightarrow> q \<in> set (index d) \<Longrightarrow> Q p \<Longrightarrow> prev_of d p = id_of d q \<Longrightarrow>
      Q q \<or> id_of d q \<in> T"
    and "\<And>p. p \<in> set (index d) \<Longrightarrow> Q p \<Longrightarrow> id_of d p \<notin> T"
  shows "forest (keep Q d) T"
proof -
  have "linked d T (filter Q (index d))"
  proof (rule linked_filter)
    show "linked d S (index d)" using assms(1) by (simp add: forest_def)
  qed (use assms(2,3) in blast)+
  then show ?thesis
    using assms(1,4) by (auto simp: forest_def ids_def distinct_map_filter)
qed

lemma closure_iff: "z \<in> closure d x \<longleftrightarrow> z = x \<or> (\<exists>p. below d x p \<and> z = id_of d p)"
  by (auto simp: closure_def)

lemma kept_parent:
  "p \<in> set (index d) \<Longrightarrow> id_of d p \<notin> closure d x \<Longrightarrow> prev_of d p = id_of d q \<Longrightarrow> id_of d q \<notin> closure d x"
  using child_in_closure [of "id_of d q" d x p] closure_iff [of "id_of d p" d x] by blast

lemma below_keep:
  assumes "below d y p" "id_of d p \<notin> closure d x"
  shows "below (keep (\<lambda>p. id_of d p \<notin> closure d x) d) y p"
  using assms
proof (induction rule: below.induct)
  case (child p)
  then show ?case by (intro below.child) simp_all
next
  case (deeper q p)
  then have "id_of d q \<notin> closure d x" using kept_parent by blast
  with deeper show ?case by (auto intro: below.deeper [where q = q])
qed

lemma closure_keep:
  assumes "z \<notin> closure d x"
  shows "z \<in> closure (keep (\<lambda>p. id_of d p \<notin> closure d x) d) y \<longleftrightarrow> z \<in> closure d y"
proof -
  let ?d = "keep (\<lambda>p. id_of d p \<notin> closure d x) d"
  have "below d y p" if "below ?d y p" for p
    using below_sub [OF _ _ that, of d] by simp
  moreover have "below ?d y p" if "below d y p" "z = id_of d p" for p
    using below_keep that assms by blast
  ultimately show ?thesis
    unfolding closure_iff [of z ?d y] closure_iff [of z d y] keep_simps by blast
qed

lemma forest_remove:
  assumes "forest d S"
  shows "forest (keep (\<lambda>p. id_of d p \<notin> closure d x) d) S"
proof (rule forest_keep [OF assms])
  fix p q
  assume "p \<in> set (index d)" "q \<in> set (index d)" "id_of d p \<notin> closure d x" "prev_of d p = id_of d q"
  then show "id_of d q \<notin> closure d x \<or> id_of d q \<in> S"
    using kept_parent by blast
qed (use assms in \<open>auto simp: forest_def ids_def\<close>)

lemma remove_keep:
  assumes "forest d S" "head d = Some h"
  shows "remove x d = (if id_of d h \<in> closure d x then Inl Fork_Database_Exception
    else Inr (keep (\<lambda>p. id_of d p \<notin> closure d x) d))"
  unfolding remove_spec [OF assms] keep_def ..

lemma remove_all_spec:
  assumes "forest d S" "head d = Some h"
  shows "if \<exists>x \<in> set xs. id_of d h \<in> closure d x
    then fst (remove_all xs d) = Inl Fork_Database_Exception
    else remove_all xs d = (Inr (), keep (\<lambda>p. \<forall>x \<in> set xs. id_of d p \<notin> closure d x) d)"
  using assms
proof (induction xs arbitrary: d)
  case Nil
  then show ?case by (simp add: keep_def)
next
  case (Cons x xs)
  note step = remove_keep [OF Cons.prems, of x]
  show ?case
  proof (cases "id_of d h \<in> closure d x")
    case True
    then show ?thesis using step by simp
  next
    case False
    let ?d = "keep (\<lambda>p. id_of d p \<notin> closure d x) d"
    have all: "remove_all (x # xs) d = remove_all xs ?d" using step False by simp
    have kept: "keep (\<lambda>p. \<forall>y \<in> set xs. id_of d p \<notin> closure ?d y) ?d =
        keep (\<lambda>p. \<forall>y \<in> set (x # xs). id_of d p \<notin> closure d y) d"
      unfolding keep_simps(9) by (rule keep_cong) (use closure_keep [of _ d x] in auto)
    have hit: "(\<exists>y \<in> set xs. id_of d h \<in> closure ?d y) \<longleftrightarrow> (\<exists>y \<in> set (x # xs). id_of d h \<in> closure d y)"
      using False closure_keep [OF False] by auto
    have "head ?d = Some h" using Cons.prems(2) by simp
    from Cons.IH [OF forest_remove [OF Cons.prems(1)] this] show ?thesis
      unfolding all keep_simps(6) hit kept .
  qed
qed

section \<open>Advancing the root\<close>

lemma prev_root:
  assumes "forest d {rid}" "b \<in> set (index d)" "get_block d (prev_of d b) = None"
  shows "prev_of d b = rid"
proof -
  obtain i where "i < length (index d)" "b = index d ! i" using assms(2) by (auto simp: in_set_conv_nth)
  then have "prev_of d b \<in> {rid} \<union> ids d"
    using linked_nth [of d "{rid}" "index d" i] assms(1) set_take_subset by (fastforce simp: forest_def ids_def)
  then show ?thesis using assms(3) by (simp add: get_block_None)
qed

lemma ancestor_ids_spec:
  assumes "forest d {rid}" "i < length (index d)" "i < fuel"
  shows "\<exists>as. ancestor_ids fuel d rid (index d ! i) = Inr as \<and> rid \<in> set as \<and>
    (\<forall>a \<in> set as. a = rid \<or> (a \<in> ids d \<and> below d a (index d ! i)))"
  using assms(2,3)
proof (induction fuel arbitrary: i)
  case (Suc fuel)
  let ?b = "index d ! i"
  have b: "?b \<in> set (index d)" using Suc.prems(1) by simp
  show ?case
  proof (cases "get_block d (prev_of d ?b)")
    case None
    then have "prev_of d ?b = rid" by (rule prev_root [OF assms(1) b])
    with None show ?thesis by (simp add: eos_assert_def)
  next
    case (Some c)
    then have c: "c \<in> set (index d)" "id_of d c = prev_of d ?b" by (simp_all add: get_block_iff [OF assms(1)])
    then obtain j where j: "j < length (index d)" "c = index d ! j" by (auto simp: in_set_conv_nth)
    with parent_earlier [OF assms(1) Suc.prems(1) j(1)] c have "j < i" by simp
    with Suc.IH [of j] Suc.prems(2) j obtain as where
      as: "ancestor_ids fuel d rid c = Inr as" "rid \<in> set as"
        "\<forall>a \<in> set as. a = rid \<or> (a \<in> ids d \<and> below d a c)"
      by auto
    have "below d a ?b" if "below d a c" for a
      using below.deeper [OF that b] c(2) by simp
    moreover have "below d (prev_of d ?b) ?b" using b by (intro below.child) simp_all
    moreover have "prev_of d ?b \<in> ids d" using c unfolding ids_def by (metis imageI)
    ultimately show ?thesis using Some as by auto
  qed
qed simp

text \<open>Taking a block out of the tree leaves its children hanging below an id outside.\<close>

lemma erase_keep: "erase x d = keep (\<lambda>p. id_of d p \<noteq> x) d"
  by (simp add: erase_def keep_def remove_by_def)

lemma forest_erase: "forest d {rid} \<Longrightarrow> x \<noteq> rid \<Longrightarrow> forest (keep (\<lambda>p. id_of d p \<noteq> x) d) {rid, x}"
  by (rule forest_keep [where S = "{rid}"]) (auto simp: forest_def ids_def)

lemma below_avoiding:
  assumes "below d a p" "\<not> below d x p" "id_of d p \<noteq> x"
  shows "below (keep (\<lambda>p. id_of d p \<noteq> x) d) a p"
  using assms
proof (induction rule: below.induct)
  case (child p)
  then show ?case by (intro below.child) simp_all
next
  case (deeper q p)
  then have "id_of d q \<noteq> x" "\<not> below d x q" by (auto intro: below.intros)
  with deeper show ?case by (auto intro: below.deeper [where q = q])
qed

lemma below_cut:
  assumes "forest d S" "below (keep (\<lambda>p. id_of d p \<noteq> x) d) a p" "below d x p"
  shows "a = x \<or> (\<exists>q. below d x q \<and> id_of d q = a)"
  using assms(2,3)
proof (induction rule: below.induct)
  case (child p)
  from child(3) show ?case
    by (cases rule: below.cases) (use child(2) in auto)
next
  case (deeper q p)
  from deeper(5) show ?case
  proof (cases rule: below.cases)
    case child
    then show ?thesis using deeper below_mem [OF deeper(1)] by simp
  next
    case (deeper q')
    then have "q' = q"
      using id_inject [OF assms(1), of q' q] below_mem [OF \<open>below d x q'\<close>] below_mem [OF \<open>below _ a q\<close>]
        \<open>prev_of _ p = id_of _ q\<close> by simp
    with deeper \<open>below d x q \<Longrightarrow> _\<close> show ?thesis by simp
  qed
qed

lemma ancestor_outside:
  assumes "forest d {rid}" "n \<in> set (index d)" "a = rid \<or> (a \<in> ids d \<and> below d a n)"
  shows "a \<noteq> id_of d n" "below d (id_of d n) q \<Longrightarrow> id_of d q \<noteq> a"
proof -
  have rid: "rid \<notin> ids d" using assms(1) by (auto simp: forest_def)
  show "a \<noteq> id_of d n"
    using assms rid not_below_self [OF assms(1)] by (auto simp: ids_def)
  show "id_of d q \<noteq> a" if "below d (id_of d n) q"
  proof
    assume "id_of d q = a"
    moreover have "id_of d q \<noteq> rid" using rid below_mem [OF that] by (auto simp: ids_def)
    ultimately have "below d (id_of d q) n" using assms(3) by auto
    from below_trans [OF that this] not_below_self [OF assms(1)] show False by blast
  qed
qed

lemma branch_survives:
  assumes forest: "forest d {rid}" and n: "n \<in> set (index d)"
    and a: "a = rid \<or> (a \<in> ids d \<and> below d a n)" and p: "p = n \<or> below d (id_of d n) p"
  shows "id_of d p \<notin> closure (keep (\<lambda>p. id_of d p \<noteq> id_of d n) d) a"
proof
  let ?d = "keep (\<lambda>p. id_of d p \<noteq> id_of d n) d"
  note outside = ancestor_outside [OF forest n a]
  assume "id_of d p \<in> closure ?d a"
  moreover have "id_of d p \<noteq> a" using p outside by auto
  ultimately obtain q where q: "below ?d a q" "id_of d q = id_of d p" by (auto simp: closure_iff)
  moreover have "p \<in> set (index d)" using p n below_mem by blast
  ultimately have "q = p" using below_mem [OF q(1)] id_inject [OF forest, of q p] by simp
  then show False
    using p below_mem [OF q(1)] below_cut [OF forest q(1)] outside by auto
qed

lemma others_vanish:
  assumes forest: "forest d {rid}" and n: "n \<in> set (index d)"
    and p: "p \<in> set (index d)" "p \<noteq> n" "\<not> below d (id_of d n) p"
  shows "id_of d p \<in> closure (keep (\<lambda>p. id_of d p \<noteq> id_of d n) d) rid"
proof -
  have "below d rid p" using below_root [OF forest p(1)] by simp
  then have "below (keep (\<lambda>p. id_of d p \<noteq> id_of d n) d) rid p"
    using below_avoiding p id_inject [OF forest p(1) n] by blast
  then show ?thesis by (auto simp: closure_iff)
qed

lemma advance_root_spec:
  assumes root: "root d = Some r" and head: "head d = Some h" and forest: "forest d {id_of d r}"
    and h: "h = r \<or> h \<in> set (index d)"
    and n: "n \<in> set (index d)" "valid_at d n"
  shows "if h = n \<or> below d (id_of d n) h
    then advance_root (id_of d n) d = (Inr (), (keep (below d (id_of d n)) d) \<lparr> root := Some n \<rparr>)
    else fst (advance_root (id_of d n) d) = Inl Fork_Database_Exception"
proof -
  let ?x = "id_of d n" and ?rid = "id_of d r"
  let ?d = "keep (\<lambda>p. id_of d p \<noteq> ?x) d"
  have rid: "?rid \<notin> ids d" using forest by (simp add: forest_def)
  then have x: "?x \<noteq> ?rid" using n(1) unfolding ids_def by (metis imageI)
  obtain i where i: "i < length (index d)" "n = index d ! i" using n(1) by (auto simp: in_set_conv_nth)
  from ancestor_ids_spec [OF forest i(1) i(1)] obtain as where
    as: "ancestor_ids (length (index d)) d ?rid n = Inr as" "?rid \<in> set as"
      "\<forall>a \<in> set as. a = ?rid \<or> (a \<in> ids d \<and> below d a n)"
    using i(2) by auto
  have stays: "id_of d p \<notin> closure ?d a" if "p = n \<or> below d ?x p" "a \<in> set as" for p a
    using branch_survives [OF forest n(1) _ that(1)] as(3) that(2) by blast
  note goes = others_vanish [OF forest n(1)]
  have hit: "(\<exists>a \<in> set as. id_of d h \<in> closure ?d a) \<longleftrightarrow> \<not> (h = n \<or> below d ?x h)"
  proof
    assume "\<not> (h = n \<or> below d ?x h)"
    then have "id_of d h \<in> closure ?d ?rid" using h goes by (auto simp: closure_iff)
    then show "\<exists>a \<in> set as. id_of d h \<in> closure ?d a" using as(2) by blast
  qed (use stays in blast)
  have "keep (\<lambda>p. \<forall>a \<in> set as. id_of d p \<notin> closure ?d a) ?d = keep (below d ?x) d"
    unfolding keep_simps(9)
  proof (rule keep_cong)
    fix p assume p: "p \<in> set (index d)"
    show "id_of d p \<noteq> ?x \<and> (\<forall>a \<in> set as. id_of d p \<notin> closure ?d a) \<longleftrightarrow> below d ?x p"
      using stays goes [of p] p as(2) not_below_self [OF forest, of n] id_inject [OF forest p n(1)] by blast
  qed
  with remove_all_spec [OF forest_erase [OF forest x], of h as] head
  have "if \<exists>a \<in> set as. id_of d h \<in> closure ?d a then fst (remove_all as ?d) = Inl Fork_Database_Exception
    else remove_all as ?d = (Inr (), keep (below d ?x) d)"
    by simp
  moreover have "get_block d ?x = Some n" using n by (simp add: get_block_iff [OF forest])
  ultimately show ?thesis
    using hit root n(2) as(1) by (auto simp: advance_root_def erase_keep split: prod.splits sum.splits)
qed

end
