(* ===== verification/Header_State_Facts.thy ===== *)
theory Header_State_Facts
  imports Block_State
begin

text \<open>
  Facts about header states: the irreversible block as a quorum, the effect of a step, the
  invariant of header states and its preservation, monotonicity of irreversibility, promotion of
  schedules, double confirmation, signatures, and the acceptance of produced headers.
\<close>

section \<open>The irreversible block as a quorum\<close>

text \<open>More than two thirds of the entries of a map of block numbers are at least \<open>n\<close>.\<close>

definition quorum :: "u32 \<Rightarrow> u32 list \<Rightarrow> bool" where
  "quorum n vs \<longleftrightarrow> 2 * length vs < 3 * length (filter ((\<le>) n) vs)"

lemma two_thirds: "0 < N \<Longrightarrow> N - (N - 1) div 3 \<le> c \<longleftrightarrow> 2 * N < 3 * c" for N c :: nat
  by linarith

lemma calc_ge_iff:
  assumes "producer_to_last_implied_irb s \<noteq> []"
  shows "n \<le> calc_dpos_last_irreversible s p \<longleftrightarrow> quorum n (implied_blocknums s p)"
proof -
  let ?vs = "implied_blocknums s p"
  have pos: "0 < length ?vs" using assms by (simp add: implied_blocknums_def)
  then have "(length ?vs - 1) div 3 < length ?vs" by linarith
  from nth_element_ge_iff [OF this, of n] show ?thesis
    using pos two_thirds [OF pos] by (simp add: calc_dpos_last_irreversible_def quorum_def Let_def)
qed

lemma calc_le:
  assumes "\<And>v. v \<in> set (implied_blocknums s p) \<Longrightarrow> v \<le> b"
  shows "calc_dpos_last_irreversible s p \<le> b"
proof (cases "implied_blocknums s p = []")
  case False
  then have "(length (implied_blocknums s p) - 1) div 3 < length (implied_blocknums s p)"
    by (cases "implied_blocknums s p") (auto intro: le_less_trans [OF div_le_dividend])
  from nth_element_mem [OF this] show ?thesis
    using False assms by (simp add: calc_dpos_last_irreversible_def Let_def)
qed (simp add: calc_dpos_last_irreversible_def)

lemma quorum_mono:
  assumes "quorum n vs" "list_all2 (\<le>) vs ws"
  shows "quorum n ws"
proof -
  have "length (filter ((\<le>) n) vs) \<le> length (filter ((\<le>) n) ws)"
    using assms(2) by (induction rule: list_all2_induct) auto
  moreover have "length vs = length ws" using assms(2) by (rule list_all2_lengthD)
  ultimately show ?thesis using assms(1) by (simp add: quorum_def)
qed

lemma quorum_mset: "mset vs = mset ws \<Longrightarrow> quorum n vs \<longleftrightarrow> quorum n ws"
  unfolding quorum_def by (metis mset_filter size_mset)

lemma quorum_Cons: "quorum n vs \<Longrightarrow> n \<le> v \<Longrightarrow> quorum n (v # vs)"
  by (simp add: quorum_def)

text \<open>
  C8: the last irreversible block number that a header state computes for the producer of the
  next block is at least \<open>n\<close> exactly when more than two thirds of the tracked producers imply a
  block of at least \<open>n\<close>, the producer of the next block being taken at the proposed number.
\<close>

theorem irreversible_quorum:
  assumes "producer_to_last_implied_irb s \<noteq> []"
  shows "n \<le> calc_dpos_last_irreversible s p \<longleftrightarrow>
    2 * length (producer_to_last_implied_irb s) <
    3 * length (filter (\<lambda>(q, v). n \<le> (if q = p then dpos_proposed_irreversible_blocknum s else v))
          (producer_to_last_implied_irb s))"
proof -
  have "length (filter ((\<le>) n) (implied_blocknums s p)) =
      length (filter (\<lambda>(q, v). n \<le> (if q = p then dpos_proposed_irreversible_blocknum s else v))
          (producer_to_last_implied_irb s))"
    unfolding implied_blocknums_def filter_map length_map
    by (rule arg_cong [where f = length], rule filter_cong) (auto simp: comp_def)
  then show ?thesis
    unfolding calc_ge_iff [OF assms] quorum_def by (simp add: implied_blocknums_def)
qed

section \<open>Confirmations\<close>

text \<open>
  The counts always stand for the newest blocks: the last one for the block \<open>num\<close>. Counting down
  keeps every count positive; when a block has all its confirmations it and the older ones go.
\<close>

lemma decrement_nonzero:
  "\<forall>c \<in> set counts. c \<noteq> 0 \<Longrightarrow> counts ! i - 1 \<noteq> 0 \<Longrightarrow> \<forall>c \<in> set (counts [i := counts ! i - 1]). c \<noteq> 0"
  for counts :: "u8 list"
  using set_update_subset_insert [of counts i "counts ! i - 1"] by auto

lemma confirm_loop_None:
  assumes "confirm_loop k b num counts = (None, counts')" "k \<le> length counts" "\<forall>c \<in> set counts. c \<noteq> 0"
  shows "length counts' = length counts \<and> (\<forall>c \<in> set counts'. c \<noteq> 0)"
  using assms
proof (induction k b num counts rule: confirm_loop.induct)
  case (2 i b num counts)
  show ?case
  proof (cases "b = 0")
    case False
    then have "counts ! i - 1 \<noteq> 0" using "2.prems" by (auto simp: Let_def split: if_splits)
    then show ?thesis using 2 False decrement_nonzero [of counts i] by (simp add: Let_def)
  qed (use 2 in simp)
qed simp

lemma confirm_loop_Some:
  assumes "confirm_loop k b num counts = (Some n, counts')" "k \<le> length counts" "\<forall>c \<in> set counts. c \<noteq> 0"
  shows "\<exists>j < length counts. n = num - of_nat (length counts - 1 - j) \<and>
    length counts' = length counts - 1 - j \<and> (\<forall>c \<in> set counts'. c \<noteq> 0)"
  using assms
proof (induction k b num counts rule: confirm_loop.induct)
  case (2 i b num counts)
  show ?case
  proof (cases "b = 0")
    case False
    show ?thesis
    proof (cases "counts ! i - 1 = 0")
      case True
      have "counts' = drop (Suc i) counts" "n = num - of_nat (length counts - 1 - i)"
        using "2.prems" False True by (auto simp: Let_def)
      then show ?thesis using "2.prems" by (intro exI [of _ i]) (auto dest: in_set_dropD)
    next
      case inner: False
      then show ?thesis using 2 False decrement_nonzero [of counts i] by (simp add: Let_def)
    qed
  qed (use 2 in simp)
qed simp

section \<open>The effect of a step\<close>

lemma promoted_map_eq:
  "promoted_map old pname own fresh pros =
     fold (\<lambda>k. flat_set k (if k = pname then own else case flat_find old k of Some v \<Rightarrow> v | None \<Rightarrow> fresh))
       (map producer_name pros) []"
  unfolding promoted_map_def fold_map
  by (rule arg_cong [where f = "\<lambda>f. fold f pros []"], intro ext) (simp add: comp_def split: option.split)

lemma flat_ok_promoted [intro]: "flat_ok (promoted_map old pname own fresh pros)"
  unfolding promoted_map_eq by (rule fm.inv_assign_all) simp

lemma promoted_map_values:
  assumes "(k, v) \<in> set (promoted_map old pname own fresh pros)"
  shows "v = own \<or> v = fresh \<or> (k, v) \<in> set old"
proof -
  have "flat_find (promoted_map old pname own fresh pros) k = Some v"
    using assms flat_find_Some_iff [OF flat_ok_promoted] by blast
  then show ?thesis
    unfolding promoted_map_eq fm.find_tabulate
    by (auto split: if_splits option.splits dest: flat_find_SomeD)
qed

lemma header_next_effect:
  fixes p :: pending_header_state
  assumes "header_next env s when n = Inr p"
  obtains w proauth merkle proposed counts where
    "next_when s when = Inr w" "get_scheduled_producer s w = Inr proauth"
    "check_double_confirm s (producer_name proauth) n = Inr ()"
    "incremental_append (hash_pair env) (blockroot_merkle s) (block_id s) = Inr merkle"
    "confirm_loop (length (grow_confirm_count s)) (ucast n + 1) (block_num s + 1) (grow_confirm_count s) =
       (proposed, counts)"
    "block_num p = block_num s + 1"
    "dpos_proposed_irreversible_blocknum p =
       (case proposed of None \<Rightarrow> dpos_proposed_irreversible_blocknum s | Some n \<Rightarrow> n)"
    "dpos_irreversible_blocknum p = calc_dpos_last_irreversible s (producer_name proauth)"
    "was_pending_promoted p \<longleftrightarrow> producers (info_schedule (pending_schedule s)) \<noteq> [] \<and>
       schedule_lib_num (pending_schedule s) \<le> dpos_irreversible_blocknum p"
    "active_schedule p = (if was_pending_promoted p then info_schedule (pending_schedule s) else active_schedule s)"
    "blockroot_merkle p = merkle"
    "producer_to_last_produced p = flat_set (producer_name proauth) (block_num p)
       (if was_pending_promoted p
        then promoted_map (producer_to_last_produced s) (producer_name proauth) (block_num p)
               (dpos_irreversible_blocknum p) (producers (info_schedule (pending_schedule s)))
        else producer_to_last_produced s)"
    "producer_to_last_implied_irb p =
       (if was_pending_promoted p
        then promoted_map (producer_to_last_implied_irb s) (producer_name proauth)
               (dpos_proposed_irreversible_blocknum s) (dpos_irreversible_blocknum p)
               (producers (info_schedule (pending_schedule s)))
        else flat_set (producer_name proauth) (dpos_proposed_irreversible_blocknum s)
               (producer_to_last_implied_irb s))"
    "valid_block_signing_authority p = pa_authority proauth" "confirm_count p = counts"
    "prev_activated_protocol_features p = activated_protocol_features s"
    "prev_pending_schedule p = pending_schedule s" "pending_previous p = block_id s"
    "pending_producer p = producer_name proauth" "pending_timestamp p = w"
    "active_schedule_version p = schedule_version (active_schedule s)" "pending_confirmed p = n"
proof -
  from assms obtain w proauth merkle where
    steps: "next_when s when = Inr w" "get_scheduled_producer s w = Inr proauth"
    "check_double_confirm s (producer_name proauth) n = Inr ()"
    "incremental_append (hash_pair env) (blockroot_merkle s) (block_id s) = Inr merkle"
    unfolding header_next_def by auto
  obtain proposed counts where
    loop: "confirm_loop (length (grow_confirm_count s)) (ucast n + 1) (block_num s + 1) (grow_confirm_count s) =
       (proposed, counts)"
    by force
  show thesis
    by (rule that [OF steps loop])
      (use assms in \<open>auto simp: header_next_def steps loop Let_def\<close>)
qed

lemma finish_next_common_effect:
  fixes p :: pending_header_state
  assumes "finish_next_common env p h = Inr s"
  obtains exts maybe_new where
    "check_header_matches p h = Inr ()"
    "validate_and_extract_header_extensions env h = Inr exts"
    "new_schedule_of_header env p h exts = Inr maybe_new"
    "new_features_of_header env p exts = Inr (activated_protocol_features s)"
    "header_state_common.truncate s = header_state_common.truncate p"
    "block_id s = calculate_id env h" "header s = h"
    "pending_schedule s = finished_schedule p maybe_new"
    "additional_signatures s = []" "header_exts s = exts"
proof -
  from assms obtain exts maybe_new features where
    steps: "check_header_matches p h = Inr ()"
    "validate_and_extract_header_extensions env h = Inr exts"
    "new_schedule_of_header env p h exts = Inr maybe_new"
    "new_features_of_header env p exts = Inr features"
    and s: "s = header_state_common.extend (header_state_common.truncate p)
      (header_state.fields (calculate_id env h) h (finished_schedule p maybe_new) features [] exts)"
    unfolding finish_next_common_def by auto
  have "activated_protocol_features s = features"
    by (simp add: s header_state.defs header_state_common.defs)
  then show thesis
    by (intro that steps) (simp_all add: s steps header_state.defs header_state_common.defs)
qed

lemma truncate_eqD:
  assumes "header_state_common.truncate s = header_state_common.truncate p"
  shows "block_num s = block_num p"
    "dpos_proposed_irreversible_blocknum s = dpos_proposed_irreversible_blocknum p"
    "dpos_irreversible_blocknum s = dpos_irreversible_blocknum p"
    "active_schedule s = active_schedule p" "blockroot_merkle s = blockroot_merkle p"
    "producer_to_last_produced s = producer_to_last_produced p"
    "producer_to_last_implied_irb s = producer_to_last_implied_irb p"
    "valid_block_signing_authority s = valid_block_signing_authority p"
    "confirm_count s = confirm_count p"
  using assms by (simp_all add: header_state_common.defs)

lemma finish_next_effect:
  assumes "finish_next env p h sigs skip = Inr s"
  obtains s0 where "finish_next_common env p h = Inr s0" "s = s0 \<lparr> additional_signatures := sigs \<rparr>"
    "sigs = [] \<or> is_builtin_activated (prev_activated_protocol_features p) (wtmsig_digest env)"
    "skip \<or> verify_signee env s = Inr ()"
proof -
  from assms obtain s0 where s0: "finish_next_common env p h = Inr s0"
    unfolding finish_next_def by auto
  have "additional_signatures s0 = []"
    using s0 by (rule finish_next_common_effect)
  then have none: "s0 = s0 \<lparr> additional_signatures := [] \<rparr>" by simp
  show thesis
  proof (rule that [OF s0])
    show "s = s0 \<lparr> additional_signatures := sigs \<rparr>"
      using assms s0 none by (auto simp: finish_next_def Let_def split: if_splits)
  qed (use assms s0 in \<open>auto simp: finish_next_def Let_def split: if_splits\<close>)
qed

lemma next_header_effect:
  assumes "next_header env s h sigs skip = Inr s'"
  obtains p :: pending_header_state and exts maybe_new where
    "header_next env s (timestamp h) (confirmed h) = Inr p"
    "check_header_matches p h = Inr ()"
    "validate_and_extract_header_extensions env h = Inr exts"
    "new_schedule_of_header env p h exts = Inr maybe_new"
    "new_features_of_header env p exts = Inr (activated_protocol_features s')"
    "header_state_common.truncate s' = header_state_common.truncate p"
    "block_id s' = calculate_id env h" "header s' = h"
    "pending_schedule s' = finished_schedule p maybe_new"
    "additional_signatures s' = sigs" "header_exts s' = exts"
    "skip \<or> verify_signee env s' = Inr ()"
proof -
  from assms obtain p :: pending_header_state where
    p: "header_next env s (timestamp h) (confirmed h) = Inr p" "finish_next env p h sigs skip = Inr s'"
    unfolding next_header_def by auto
  from p(2) obtain s0 where s0: "finish_next_common env p h = Inr s0"
    "s' = s0 \<lparr> additional_signatures := sigs \<rparr>" "skip \<or> verify_signee env s' = Inr ()"
    by (rule finish_next_effect)
  from s0(1) show thesis
  proof (cases rule: finish_next_common_effect)
    case (1 exts maybe_new)
    show thesis
      by (rule that [OF p(1) 1(1-3)])
        (use 1(4-) s0(2,3) in \<open>simp_all add: header_state_common.defs\<close>)
  qed
qed

lemma check_header_matches_iff:
  "check_header_matches p h = Inr u \<longleftrightarrow>
     timestamp h = pending_timestamp p \<and> previous h = pending_previous p \<and> confirmed h = pending_confirmed p \<and>
     producer h = pending_producer p \<and> header_schedule_version h = active_schedule_version p"
  by (auto simp: check_header_matches_def)

section \<open>The invariant of header states\<close>

definition max_producers :: nat where
  "max_producers = 125"

text \<open>
  Block numbers are ordered: irreversible, proposed, tracked by a confirmation count, the block
  itself; the counts are positive; no producer implies or has produced a later block; the id
  carries the number of the block; schedules are within the limit of the configuration.
\<close>

definition header_ok :: "'a header_state_scheme \<Rightarrow> bool" where
  "header_ok s \<longleftrightarrow>
     flat_ok (producer_to_last_produced s) \<and> flat_ok (producer_to_last_implied_irb s) \<and>
     dpos_irreversible_blocknum s \<le> dpos_proposed_irreversible_blocknum s \<and>
     unat (dpos_proposed_irreversible_blocknum s) + length (confirm_count s) \<le> unat (block_num s) \<and>
     length (confirm_count s) \<le> maximum_tracked_dpos_confirmations \<and>
     (\<forall>c \<in> set (confirm_count s). c \<noteq> 0) \<and>
     (\<forall>e \<in> set (producer_to_last_implied_irb s). snd e \<le> dpos_proposed_irreversible_blocknum s) \<and>
     (\<forall>e \<in> set (producer_to_last_produced s). snd e \<le> block_num s) \<and>
     num_from_id (block_id s) = block_num s \<and>
     length (producers (active_schedule s)) \<le> max_producers \<and>
     length (producers (info_schedule (pending_schedule s))) \<le> max_producers"

lemma required_confs_nonzero:
  assumes "length (producers sched) \<le> max_producers"
  shows "ucast (required_confs sched) \<noteq> (0 :: u8)"
proof -
  let ?k = "length (producers sched) * 2 div 3"
  have k: "?k \<le> 83" using assms unfolding max_producers_def by linarith
  then have "unat (required_confs sched) = ?k + 1"
    by (simp add: required_confs_def unat_word_ariths unat_of_nat take_bit_eq_mod)
  then have "unat (ucast (required_confs sched) :: u8) = ?k + 1"
    using k by (simp add: unsigned_ucast_eq take_bit_eq_mod)
  then show ?thesis by (metis Suc_eq_plus1 nat.simps(3) unsigned_0)
qed

lemma grow_confirm_count_ok:
  assumes "header_ok s"
  shows "length (grow_confirm_count s) \<le> maximum_tracked_dpos_confirmations"
    "grow_confirm_count s \<noteq> []"
    "length (grow_confirm_count s) \<le> Suc (length (confirm_count s))"
    "\<forall>c \<in> set (grow_confirm_count s). c \<noteq> 0"
proof -
  have "set (tl xs) \<subseteq> set xs" for xs :: "u8 list" by (cases xs) auto
  then show "\<forall>c \<in> set (grow_confirm_count s). c \<noteq> 0"
    using assms required_confs_nonzero [of "active_schedule s"]
    by (auto simp: grow_confirm_count_def header_ok_def)
qed (use assms in \<open>auto simp: grow_confirm_count_def header_ok_def maximum_tracked_dpos_confirmations_def\<close>)

lemma confirm_step_ok:
  assumes ok: "header_ok s" and num: "unat (block_num s) < 4294967295"
    and loop: "confirm_loop (length (grow_confirm_count s)) b (block_num s + 1) (grow_confirm_count s) =
      (proposed, counts)"
    and proposed': "proposed' = (case proposed of None \<Rightarrow> dpos_proposed_irreversible_blocknum s | Some n \<Rightarrow> n)"
  shows "unat proposed' + length counts \<le> unat (block_num s + 1)"
    "length counts \<le> maximum_tracked_dpos_confirmations"
    "\<forall>c \<in> set counts. c \<noteq> 0"
    "dpos_proposed_irreversible_blocknum s \<le> proposed'"
proof -
  let ?L = "length (grow_confirm_count s)"
  note grow = grow_confirm_count_ok [OF ok]
  have bn: "unat (block_num s + 1) = unat (block_num s) + 1"
    using num by (simp add: unat_word_ariths)
  have room: "unat (dpos_proposed_irreversible_blocknum s) + ?L \<le> unat (block_num s) + 1"
    using ok grow(3) by (simp add: header_ok_def)
  have "unat proposed' + length counts \<le> unat (block_num s + 1) \<and>
    length counts \<le> maximum_tracked_dpos_confirmations \<and> (\<forall>c \<in> set counts. c \<noteq> 0) \<and>
    dpos_proposed_irreversible_blocknum s \<le> proposed'"
  proof (cases proposed)
    case None
    then show ?thesis
      using confirm_loop_None [of ?L b "block_num s + 1" "grow_confirm_count s" counts] loop grow room proposed' bn
      by simp
  next
    case (Some n)
    with loop grow obtain j where j: "j < ?L" "n = block_num s + 1 - of_nat (?L - 1 - j)"
      "length counts = ?L - 1 - j" "\<forall>c \<in> set counts. c \<noteq> 0"
      using confirm_loop_Some [of ?L b "block_num s + 1" "grow_confirm_count s" n counts] by auto
    have "unat (of_nat (?L - 1 - j) :: u32) = ?L - 1 - j"
      using grow(1) by (intro unat_of_nat_small) (simp add: maximum_tracked_dpos_confirmations_def)
    then have "unat n = unat (block_num s) + 1 - (?L - 1 - j)"
      using j(1,2) room bn by (subst j(2), subst unat_sub) (simp_all add: word_le_nat_alt)
    then have "unat proposed' = unat (block_num s) + 1 - (?L - 1 - j)" using proposed' Some by simp
    then show ?thesis
      unfolding word_le_nat_alt using j(1,3) room grow(1) bn by (intro conjI j(4)) linarith+
  qed
  then show "unat proposed' + length counts \<le> unat (block_num s + 1)"
    "length counts \<le> maximum_tracked_dpos_confirmations" "\<forall>c \<in> set counts. c \<noteq> 0"
    "dpos_proposed_irreversible_blocknum s \<le> proposed'"
    by simp_all
qed

lemma implied_le:
  "header_ok s \<Longrightarrow> v \<in> set (implied_blocknums s p) \<Longrightarrow> v \<le> dpos_proposed_irreversible_blocknum s"
  by (auto simp: implied_blocknums_def header_ok_def split: if_splits)

lemma calc_le_proposed:
  "header_ok s \<Longrightarrow> calc_dpos_last_irreversible s p \<le> dpos_proposed_irreversible_blocknum s"
  by (rule calc_le) (rule implied_le)

lemma header_next_ok:
  fixes p :: pending_header_state
  assumes ok: "header_ok s" and num: "unat (block_num s) < 4294967295"
    and p: "header_next env s when n = Inr p"
  shows "flat_ok (producer_to_last_produced p) \<and> flat_ok (producer_to_last_implied_irb p) \<and>
    dpos_irreversible_blocknum p \<le> dpos_proposed_irreversible_blocknum p \<and>
    unat (dpos_proposed_irreversible_blocknum p) + length (confirm_count p) \<le> unat (block_num p) \<and>
    length (confirm_count p) \<le> maximum_tracked_dpos_confirmations \<and>
    (\<forall>c \<in> set (confirm_count p). c \<noteq> 0) \<and>
    (\<forall>e \<in> set (producer_to_last_implied_irb p). snd e \<le> dpos_proposed_irreversible_blocknum p) \<and>
    (\<forall>e \<in> set (producer_to_last_produced p). snd e \<le> block_num p) \<and>
    length (producers (active_schedule p)) \<le> max_producers \<and>
    dpos_proposed_irreversible_blocknum s \<le> dpos_proposed_irreversible_blocknum p"
  using p
proof (cases rule: header_next_effect)
  case (1 w proauth merkle proposed counts)
  note step = confirm_step_ok [OF ok num 1(5) 1(7)]
  have counts: "unat (dpos_proposed_irreversible_blocknum p) + length (confirm_count p) \<le> unat (block_num p)"
    "length (confirm_count p) \<le> maximum_tracked_dpos_confirmations" "\<forall>c \<in> set (confirm_count p). c \<noteq> 0"
    using step 1 by simp_all
  have mono: "dpos_proposed_irreversible_blocknum s \<le> dpos_proposed_irreversible_blocknum p"
    using step(4) .
  have irr: "dpos_irreversible_blocknum p \<le> dpos_proposed_irreversible_blocknum s"
    using calc_le_proposed [OF ok] 1(8) by simp
  then have irr': "dpos_irreversible_blocknum p \<le> dpos_proposed_irreversible_blocknum p"
    using mono by (rule order_trans)
  have maps: "flat_ok (producer_to_last_produced s)" "flat_ok (producer_to_last_implied_irb s)"
    using ok by (simp_all add: header_ok_def)
  then have flat: "flat_ok (producer_to_last_produced p)" "flat_ok (producer_to_last_implied_irb p)"
    unfolding 1(12,13) by auto
  have size: "length (producers (active_schedule p)) \<le> max_producers"
    using ok 1(10) by (simp add: header_ok_def)
  have "v \<le> dpos_proposed_irreversible_blocknum s" if "(k, v) \<in> set (producer_to_last_implied_irb p)" for k v
    using that ok irr unfolding 1(13)
    by (auto simp: set_flat_set [OF maps(2)] header_ok_def split: if_splits dest!: promoted_map_values)
  then have implied: "\<forall>e \<in> set (producer_to_last_implied_irb p). snd e \<le> dpos_proposed_irreversible_blocknum p"
    using mono by fastforce
  have bn: "block_num s \<le> block_num p"
    using num 1(6) by (simp add: word_le_nat_alt unat_word_ariths)
  moreover have "dpos_irreversible_blocknum p \<le> block_num p"
    using irr' counts(1) unfolding word_le_nat_alt by linarith
  ultimately have "v \<le> block_num p" if "(k, v) \<in> set (producer_to_last_produced p)" for k v
    using that ok unfolding 1(12)
    by (auto simp: set_flat_set [OF maps(1)] set_flat_set [OF flat_ok_promoted] header_ok_def
        split: if_splits dest!: promoted_map_values intro: order_trans)
  then have "\<forall>e \<in> set (producer_to_last_produced p). snd e \<le> block_num p"
    by fastforce
  then show ?thesis by (intro conjI counts mono irr' flat size implied)
qed

lemma next_header_ok:
  assumes ok: "header_ok s" and num: "unat (block_num s) < 4294967295"
    and step: "next_header env s h sigs skip = Inr s'"
    and size: "length (producers (info_schedule (pending_schedule s'))) \<le> max_producers"
  shows "header_ok s'" "dpos_proposed_irreversible_blocknum s \<le> dpos_proposed_irreversible_blocknum s'"
    "block_num s' = block_num s + 1"
proof -
  from step obtain p :: pending_header_state where
    p: "header_next env s (timestamp h) (confirmed h) = Inr p" "check_header_matches p h = Inr ()"
    and common: "header_state_common.truncate s' = header_state_common.truncate p"
    and bid: "block_id s' = calculate_id env h"
    by (rule next_header_effect)
  have prev: "pending_previous p = block_id s" "block_num p = block_num s + 1"
    using p(1) by (auto elim: header_next_effect)
  then have "num_from_id (block_id s') = block_num s + 1"
    using p(2) ok by (simp add: bid num_from_calculate_id block_num_of_def check_header_matches_iff header_ok_def)
  then show "header_ok s'" "dpos_proposed_irreversible_blocknum s \<le> dpos_proposed_irreversible_blocknum s'"
    "block_num s' = block_num s + 1"
    using header_next_ok [OF ok num p(1)] size prev
    by (simp_all add: header_ok_def truncate_eqD [OF common])
qed

section \<open>Irreversibility does not go back\<close>

text \<open>The irreversible block number is backed by the map that the next block reads.\<close>

definition lib_ok :: "'a header_state_scheme \<Rightarrow> bool" where
  "lib_ok s \<longleftrightarrow> dpos_irreversible_blocknum s = 0 \<or>
     quorum (dpos_irreversible_blocknum s) (map snd (producer_to_last_implied_irb s))"

lemma implied_raises:
  "header_ok s \<Longrightarrow> list_all2 (\<le>) (map snd (producer_to_last_implied_irb s)) (implied_blocknums s p)"
  by (auto simp: implied_blocknums_def header_ok_def list_all2_conv_all_nth)

lemma calc_ge_irreversible:
  assumes "header_ok s" "lib_ok s"
  shows "dpos_irreversible_blocknum s \<le> calc_dpos_last_irreversible s p"
proof (cases "dpos_irreversible_blocknum s = 0")
  case False
  then have q: "quorum (dpos_irreversible_blocknum s) (map snd (producer_to_last_implied_irb s))"
    using assms(2) by (simp add: lib_ok_def)
  then have "producer_to_last_implied_irb s \<noteq> []" by (auto simp: quorum_def)
  from calc_ge_iff [OF this] show ?thesis
    using quorum_mono [OF q implied_raises [OF assms(1)]] by simp
qed simp

lemma flat_set_present:
  "flat_ok m \<Longrightarrow> k \<in> fst ` set m \<Longrightarrow>
     map snd (flat_set k v m) = map (\<lambda>e. if fst e = k then v else snd e) m"
proof (induction k v m rule: flat_set.induct)
  case (2 k v k' v' m)
  then have above: "\<forall>e \<in> set m. k' < fst e" and m: "flat_ok m" by (auto simp: flat_ok_def)
  show ?case
  proof (cases k k' rule: linorder_cases)
    case less
    then have False using "2.prems"(2) above by fastforce
    then show ?thesis ..
  next
    case equal
    then show ?thesis using above by (auto intro!: map_cong)
  next
    case greater
    then show ?thesis using 2 m by auto
  qed
qed simp

lemma flat_set_absent: "k \<notin> fst ` set m \<Longrightarrow> mset (flat_set k v m) = add_mset (k, v) (mset m)"
  by (induction k v m rule: flat_set.induct) auto

lemma lib_ok_assign:
  assumes ok: "header_ok s" and n: "n = calc_dpos_last_irreversible s p"
  shows "n = 0 \<or> quorum n (map snd (flat_set p (dpos_proposed_irreversible_blocknum s) (producer_to_last_implied_irb s)))"
proof (cases "producer_to_last_implied_irb s = []")
  case True
  then show ?thesis using n by (simp add: calc_dpos_last_irreversible_def implied_blocknums_def)
next
  case False
  then have q: "quorum n (implied_blocknums s p)" using calc_ge_iff n by blast
  have m: "flat_ok (producer_to_last_implied_irb s)" using ok by (simp add: header_ok_def)
  show ?thesis
  proof (cases "p \<in> fst ` set (producer_to_last_implied_irb s)")
    case True
    then show ?thesis using q flat_set_present [OF m] by (simp add: implied_blocknums_def)
  next
    case absent: False
    then have "implied_blocknums s p = map snd (producer_to_last_implied_irb s)"
      by (force simp: implied_blocknums_def)
    then have "quorum n (dpos_proposed_irreversible_blocknum s # map snd (producer_to_last_implied_irb s))"
      using q calc_le_proposed [OF ok] n by (simp add: quorum_Cons)
    moreover have "mset (map snd (flat_set p (dpos_proposed_irreversible_blocknum s) (producer_to_last_implied_irb s))) =
        mset (dpos_proposed_irreversible_blocknum s # map snd (producer_to_last_implied_irb s))"
      by (simp add: flat_set_absent [OF absent])
    ultimately show ?thesis using quorum_mset by blast
  qed
qed

text \<open>
  C22: along a step, the irreversible block number never decreases when it is backed by a
  quorum of the tracked producers; and it stays so backed unless the step promotes a pending
  schedule, which replaces the tracked producers.
\<close>

theorem irreversible_monotone:
  assumes "header_ok s" "lib_ok s" "next_header env s h sigs skip = Inr s'"
  shows "dpos_irreversible_blocknum s \<le> dpos_irreversible_blocknum s' \<and>
    (\<not> (has_pending_producers s \<and>
        schedule_lib_num (pending_schedule s) \<le> dpos_irreversible_blocknum s') \<longrightarrow> lib_ok s')"
proof -
  from assms(3) obtain p :: pending_header_state where
    p: "header_next env s (timestamp h) (confirmed h) = Inr p"
    and common: "header_state_common.truncate s' = header_state_common.truncate p"
    by (rule next_header_effect)
  from p show ?thesis
  proof (cases rule: header_next_effect)
    case (1 w proauth merkle proposed counts)
    have irr: "dpos_irreversible_blocknum s' = calc_dpos_last_irreversible s (producer_name proauth)"
      using 1(8) by (simp add: truncate_eqD [OF common])
    show ?thesis
    proof (intro conjI impI)
      show "dpos_irreversible_blocknum s \<le> dpos_irreversible_blocknum s'"
        unfolding irr by (rule calc_ge_irreversible [OF assms(1,2)])
    next
      assume "\<not> (has_pending_producers s \<and> schedule_lib_num (pending_schedule s) \<le> dpos_irreversible_blocknum s')"
      then have "\<not> was_pending_promoted p"
        using 1(9) by (simp add: has_pending_producers_def truncate_eqD [OF common])
      then show "lib_ok s'"
        using lib_ok_assign [OF assms(1) irr] 1(13) by (simp add: lib_ok_def truncate_eqD [OF common])
    qed
  qed
qed

text \<open>
  C24: the active schedule changes only to the pending one, and only when more than two thirds
  of the tracked producers imply the block in which it was proposed (or it was there from the start).
\<close>

theorem promotion_needs_quorum:
  assumes "next_header env s h sigs skip = Inr s'" "active_schedule s' \<noteq> active_schedule s"
  shows "active_schedule s' = info_schedule (pending_schedule s) \<and>
    (schedule_lib_num (pending_schedule s) = 0 \<or>
     quorum (schedule_lib_num (pending_schedule s)) (implied_blocknums s (producer h)))"
proof -
  from assms(1) obtain p :: pending_header_state where
    p: "header_next env s (timestamp h) (confirmed h) = Inr p" "check_header_matches p h = Inr ()"
    and common: "header_state_common.truncate s' = header_state_common.truncate p"
    by (rule next_header_effect)
  from p(1) show ?thesis
  proof (cases rule: header_next_effect)
    case (1 w proauth merkle proposed counts)
    then have promoted: "active_schedule s' = info_schedule (pending_schedule s)"
      "schedule_lib_num (pending_schedule s) \<le> calc_dpos_last_irreversible s (producer h)"
      using assms(2) p(2) by (auto simp: truncate_eqD [OF common] check_header_matches_iff split: if_splits)
    show ?thesis
    proof (cases "producer_to_last_implied_irb s = []")
      case True
      then show ?thesis
        using promoted by (simp add: calc_dpos_last_irreversible_def implied_blocknums_def)
    next
      case False
      then show ?thesis using promoted calc_ge_iff [OF False] by blast
    qed
  qed
qed

section \<open>Double confirmation\<close>

text \<open>
  C26: in a header state that satisfies the invariant, a producer that last produced block \<open>l\<close>
  may confirm \<open>n\<close> blocks below the next block exactly when the confirmed range starts above \<open>l\<close>,
  or when \<open>n\<close> exceeds the number of the next block: the 32-bit subtraction of the test then wraps
  around and nothing is refused.
\<close>

theorem double_confirm_iff:
  assumes "header_ok s" "unat (block_num s) < 4294967295"
    "flat_find (producer_to_last_produced s) pname = Some l"
  shows "check_double_confirm s pname n = Inr () \<longleftrightarrow>
    unat l + unat n < unat (block_num s) + 1 \<or> unat (block_num s) + 1 < unat n"
proof -
  have l: "unat l \<le> unat (block_num s)"
    using assms(1) flat_find_SomeD [OF assms(3)] by (auto simp: header_ok_def word_le_nat_alt)
  have n: "unat (ucast n :: u32) = unat n" "unat n < 65536"
    using unsigned_less [of n] by simp_all
  have bn: "unat (block_num s + 1) = unat (block_num s) + 1"
    using assms(2) by (simp add: unat_word_ariths)
  have "check_double_confirm s pname n = Inr () \<longleftrightarrow> unat l < unat (block_num s + 1 - ucast n)"
    using assms(3) by (simp add: check_double_confirm_def word_less_nat_alt)
  also have "\<dots> \<longleftrightarrow> unat l + unat n < unat (block_num s) + 1 \<or> unat (block_num s) + 1 < unat n"
  proof (cases "unat n \<le> unat (block_num s) + 1")
    case True
    then have "unat (block_num s + 1 - ucast n) = unat (block_num s) + 1 - unat n"
      using bn n(1) by (subst unat_sub) (simp_all add: word_le_nat_alt)
    with True show ?thesis by linarith
  next
    case False
    then have "unat (block_num s + 1 - ucast n) = unat (block_num s) + 1 + 4294967296 - unat n"
      using bn n by (subst unat_sub_if') (simp add: word_le_nat_alt)
    with False n(2) l show ?thesis by linarith
  qed
  finally show ?thesis .
qed

section \<open>Signatures\<close>

definition recovers :: "chain_env \<Rightarrow> digest \<Rightarrow> signature list \<Rightarrow> public_key list \<Rightarrow> bool" where
  "recovers env d sigs ks \<longleftrightarrow> list_all2 (\<lambda>sig k. recover_key env sig d = Inr k) sigs ks"

lemma ex_recovers_Cons:
  assumes "recover_key env sig d = Inr k"
  shows "(\<exists>ks. recovers env d (sig # sigs) ks \<and> P ks) \<longleftrightarrow> (\<exists>ks. recovers env d sigs ks \<and> P (k # ks))"
  using assms by (auto simp: recovers_def list_all2_Cons1)

lemma recover_more_iff:
  assumes "distinct seen"
  shows "recover_more env d sigs seen = Inr ks \<longleftrightarrow>
    (\<exists>ks'. recovers env d sigs ks' \<and> distinct ks' \<and> set ks' \<inter> set seen = {} \<and> ks = rev ks' @ seen)"
  using assms
proof (induction sigs arbitrary: seen)
  case (Cons sig sigs)
  show ?case
  proof (cases "recover_key env sig d")
    case (Inr k)
    then have "recover_more env d (sig # sigs) seen = Inr ks \<longleftrightarrow>
        k \<notin> set seen \<and> (\<exists>ks'. recovers env d sigs ks' \<and> distinct ks' \<and> set ks' \<inter> set (k # seen) = {} \<and>
          ks = rev ks' @ k # seen)"
      using Cons by auto
    also have "\<dots> \<longleftrightarrow> (\<exists>ks'. recovers env d (sig # sigs) ks' \<and> distinct ks' \<and> set ks' \<inter> set seen = {} \<and>
        ks = rev ks' @ seen)"
      unfolding ex_recovers_Cons [OF Inr] by auto
    finally show ?thesis .
  qed (auto simp: recovers_def list_all2_Cons1)
qed (auto simp: recovers_def)

lemma presented_all_iff:
  assumes "distinct (map kw_key kws)" "distinct ks"
  shows "length (presented ks kws) = length ks \<longleftrightarrow> set ks \<subseteq> set (map kw_key kws)"
proof -
  have inj: "distinct (map kw_key (presented ks kws))"
    using assms(1) by (simp add: presented_def distinct_map_filter)
  have "set (map kw_key (presented ks kws)) = set ks \<inter> set (map kw_key kws)"
    by (auto simp: presented_def)
  then have "length (presented ks kws) = card (set ks \<inter> set (map kw_key kws))"
    using distinct_card [OF inj] by simp
  moreover have "length ks = card (set ks)" using distinct_card [OF assms(2)] by simp
  moreover have "card (set ks \<inter> A) = card (set ks) \<longleftrightarrow> set ks \<subseteq> A" for A
    by (metis List.finite_set card_subset_eq inf.absorb1 inf.cobounded1 inf.cobounded2)
  ultimately show ?thesis by simp
qed

lemma verify_signee_unfold:
  "verify_signee env s = Inr () \<longleftrightarrow>
     (let a = authority_v0 (valid_block_signing_authority s) in
      1 + length (additional_signatures s) \<le> length (bsa_keys a) \<and>
      (\<exists>k ks. recover_key env (producer_signature (header s)) (sig_digest env s) = Inr k \<and>
        recover_more env (sig_digest env s) (additional_signatures s) [k] = Inr ks \<and>
        length (presented ks (bsa_keys a)) = length ks \<and>
        unat (bsa_threshold a) \<le> presented_weight ks (bsa_keys a)))"
  by (cases "valid_block_signing_authority s")
    (auto simp: verify_signee_def Let_def keys_satisfy_and_relevant_def keys_satisfy_v0_eq)

lemma presented_cong: "set ks = set ks' \<Longrightarrow> presented ks = presented ks'"
  by (simp add: presented_def fun_eq_iff)

text \<open>
  C25: when the keys of the signing authority are distinct, a block is accepted as signed
  exactly when its signatures recover to distinct keys of the authority whose weights reach the threshold.
\<close>

theorem verify_signee_iff:
  assumes "distinct (map kw_key (bsa_keys (authority_v0 (valid_block_signing_authority s))))"
  shows "verify_signee env s = Inr () \<longleftrightarrow>
    (\<exists>ks. list_all2 (\<lambda>sig k. recover_key env sig (sig_digest env s) = Inr k)
           (producer_signature (header s) # additional_signatures s) ks \<and>
       distinct ks \<and>
       set ks \<subseteq> kw_key ` set (bsa_keys (authority_v0 (valid_block_signing_authority s))) \<and>
       unat (bsa_threshold (authority_v0 (valid_block_signing_authority s))) \<le>
         (\<Sum>kw \<leftarrow> filter (\<lambda>kw. kw_key kw \<in> set ks)
            (bsa_keys (authority_v0 (valid_block_signing_authority s))). unat (kw_weight kw)))"
    (is "_ \<longleftrightarrow> (\<exists>ks. ?ok ks)")
proof
  let ?kws = "bsa_keys (authority_v0 (valid_block_signing_authority s))"
  assume "verify_signee env s = Inr ()"
  then obtain k ks where r: "recover_key env (producer_signature (header s)) (sig_digest env s) = Inr k"
    "recover_more env (sig_digest env s) (additional_signatures s) [k] = Inr ks"
    "length (presented ks ?kws) = length ks"
    "unat (bsa_threshold (authority_v0 (valid_block_signing_authority s))) \<le> presented_weight ks ?kws"
    by (auto simp: verify_signee_unfold Let_def)
  from r(2) obtain ks' where ks': "recovers env (sig_digest env s) (additional_signatures s) ks'"
    "distinct ks'" "k \<notin> set ks'" "ks = rev ks' @ [k]"
    by (auto simp: recover_more_iff)
  have same: "set ks = set (k # ks')" using ks'(4) by auto
  have "distinct ks" using ks' by auto
  with r(3) have "set ks \<subseteq> set (map kw_key ?kws)"
    by (simp only: presented_all_iff [OF assms])
  then have "?ok (k # ks')"
    using r(1,4) ks' presented_cong [OF same]
    by (simp add: recovers_def same presented_weight_def presented_def)
  then show "\<exists>ks. ?ok ks" ..
next
  let ?kws = "bsa_keys (authority_v0 (valid_block_signing_authority s))"
  assume "\<exists>ks. ?ok ks"
  then obtain k ks where ks: "?ok (k # ks)" by (auto simp: list_all2_Cons1)
  let ?all = "rev ks @ [k]"
  have same: "set ?all = set (k # ks)" by auto
  have more: "recover_more env (sig_digest env s) (additional_signatures s) [k] = Inr ?all"
    using ks by (auto simp: recover_more_iff recovers_def)
  have "distinct ?all" using ks by auto
  moreover have "set ?all \<subseteq> set (map kw_key ?kws)" using ks by auto
  ultimately have all: "length (presented ?all ?kws) = length ?all"
    by (simp only: presented_all_iff [OF assms])
  moreover have "length (presented ?all ?kws) \<le> length ?kws" by (simp add: presented_def)
  moreover have "length (additional_signatures s) = length ks"
    using ks by (auto dest: list_all2_lengthD)
  ultimately have "1 + length (additional_signatures s) \<le> length ?kws" by simp
  moreover have "unat (bsa_threshold (authority_v0 (valid_block_signing_authority s))) \<le> presented_weight ?all ?kws"
    using ks presented_cong [OF same] by (simp add: presented_weight_def presented_def)
  ultimately show "verify_signee env s = Inr ()"
    using ks more all unfolding verify_signee_unfold Let_def by auto
qed

section \<open>A produced header is accepted\<close>

lemma activation_set_disjoint:
  assumes "distinct fs" "set fs \<inter> fset orig = {}"
  shows "protocol_feature_activation_set orig fs b = Inr (orig |\<union>| fset_of_list fs)"
proof -
  have "card (fset orig \<union> set fs) = card (fset orig) + length fs"
    using assms by (subst card_Un_disjoint) (auto simp: distinct_card)
  then have "fcard (orig |\<union>| fset_of_list fs) = fcard orig + length fs"
    by (simp add: fcard.rep_eq fset_of_list.rep_eq)
  then show ?thesis by (simp add: protocol_feature_activation_set_def)
qed

text \<open>The extensions of a made header, before and after decoding.\<close>

definition made_extensions :: "digest list \<Rightarrow> producer_authority_schedule option \<Rightarrow> (u16 \<times> block_header_extension) list" where
  "made_extensions fs sched =
     (if fs \<noteq> [] then [(protocol_feature_activation_id, Protocol_Feature_Activation fs)] else []) @
     (case sched of None \<Rightarrow> [] | Some s \<Rightarrow> [(producer_schedule_change_id, Producer_Schedule_Change s)])"

lemmas extension_ids = protocol_feature_activation_id_def producer_schedule_change_id_def

lemma extract_made:
  assumes "unpack_activation env (pack_activation env fs) = Inr fs"
    and "\<And>s. sched = Some s \<Longrightarrow> unpack_schedule env (pack_schedule env s) = Inr s"
    and "distinct fs"
    and "header_extensions h =
      (if fs \<noteq> [] then [(protocol_feature_activation_id, pack_activation env fs)] else []) @
      (case sched of None \<Rightarrow> [] | Some s \<Rightarrow> [(producer_schedule_change_id, pack_schedule env s)])"
  shows "validate_and_extract_header_extensions env h = Inr (made_extensions fs sched)"
  using assms(3)
  by (simp add: validate_and_extract_header_extensions_def assms(1,2,4) made_extensions_def
      extract_header_extension_def activation_reflector_init_iff extension_ids split: option.split)

lemma made_lookup:
  "ext_count (made_extensions fs sched) producer_schedule_change_id = (if sched = None then 0 else 1)"
  "ext_count (made_extensions fs sched) protocol_feature_activation_id = (if fs = [] then 0 else 1)"
  "fs \<noteq> [] \<Longrightarrow> ext_lower_bound (made_extensions fs sched) protocol_feature_activation_id =
     Inr (Protocol_Feature_Activation fs)"
  "ext_lower_bound (made_extensions fs (Some s)) producer_schedule_change_id = Inr (Producer_Schedule_Change s)"
  by (auto simp: made_extensions_def ext_count_def ext_lower_bound_def extension_ids split: option.split)

lemma new_features_made:
  assumes "distinct fs" "set fs \<inter> fset (prev_activated_protocol_features p) = {}"
    "fs \<noteq> [] \<Longrightarrow> validator env (pending_timestamp p) (prev_activated_protocol_features p) fs = Inr ()"
  shows "new_features_of_header env p (made_extensions fs sched) =
    Inr (prev_activated_protocol_features p |\<union>| fset_of_list fs)"
proof -
  have id0: "(of_bool (protocol_feature_activation_id > 0) :: u16) = protocol_feature_activation_id"
    by (simp add: protocol_feature_activation_id_def)
  show ?thesis
    using assms by (cases "fs = []")
      (simp_all add: new_features_of_header_def id0 made_lookup get_activation_def activation_set_disjoint)
qed

lemma make_block_header_effect:
  fixes h :: signed_block_header
  assumes "make_block_header env p tm am np fs = Inr h"
  shows "check_header_matches p h = Inr ()"
    and "\<exists>legacy sched. new_producers h = legacy \<and>
      header_extensions h =
        (if fs \<noteq> [] then [(protocol_feature_activation_id, pack_activation env fs)] else []) @
        (case sched of None \<Rightarrow> [] | Some s \<Rightarrow> [(producer_schedule_change_id, pack_schedule env s)]) \<and>
      (case np of
         None \<Rightarrow> legacy = None \<and> sched = None
       | Some s \<Rightarrow>
           if is_builtin_activated (prev_activated_protocol_features p) (wtmsig_digest env)
           then legacy = None \<and> sched = Some s
           else sched = None \<and> (\<exists>ps. downgrade_producers (producers s) = Inr ps \<and>
             legacy = Some \<lparr> legacy_version = schedule_version s, legacy_producers = ps \<rparr>))"
  using assms
  by (auto simp: make_block_header_def check_header_matches_iff emplace_extension_def extension_ids Let_def
      split: option.splits if_splits)

lemma downgrade_names:
  "downgrade_producers ps = Inr ks \<Longrightarrow> map pk_producer_name ks = map producer_name ps"
  by (induction ps arbitrary: ks) (auto split: block_signing_authority.splits)

lemma new_schedule_made:
  fixes h :: signed_block_header
  assumes np: "case np of
      None \<Rightarrow> legacy = None \<and> sched = None
    | Some s \<Rightarrow>
        if is_builtin_activated (prev_activated_protocol_features p) (wtmsig_digest env)
        then legacy = None \<and> sched = Some s
        else sched = None \<and> (\<exists>ps. downgrade_producers (producers s) = Inr ps \<and>
          legacy = Some \<lparr> legacy_version = schedule_version s, legacy_producers = ps \<rparr>)"
    and h: "new_producers h = legacy"
    and free: "np \<noteq> None \<Longrightarrow> \<not> was_pending_promoted p \<and> producers (info_schedule (prev_pending_schedule p)) = []"
    and version: "\<And>s. np = Some s \<Longrightarrow> schedule_version s = schedule_version (active_schedule p) + 1"
  shows "\<exists>maybe_new. new_schedule_of_header env p h (made_extensions fs sched) = Inr maybe_new \<and>
    map_option (\<lambda>(s, _). (schedule_version s, map producer_name (producers s))) maybe_new =
    map_option (\<lambda>s. (schedule_version s, map producer_name (producers s))) np"
proof (cases np)
  case None
  then show ?thesis
    using np h by (simp add: new_schedule_of_header_def made_lookup Let_def)
next
  case (Some s)
  show ?thesis
  proof (cases "is_builtin_activated (prev_activated_protocol_features p) (wtmsig_digest env)")
    case True
    then show ?thesis
      using np h Some free version [OF Some]
      by (simp add: new_schedule_of_header_def made_lookup Let_def check_may_change_def check_new_version_def
          get_schedule_change_def)
  next
    case False
    with np Some obtain ps where ps: "sched = None" "downgrade_producers (producers s) = Inr ps"
      "legacy = Some \<lparr> legacy_version = schedule_version s, legacy_producers = ps \<rparr>"
      by auto
    have "map (producer_name \<circ> (\<lambda>q. \<lparr> producer_name = pk_producer_name q,
        pa_authority = single_key_authority (block_signing_key q) \<rparr>)) ps = map producer_name (producers s)"
      using downgrade_names [OF ps(2)] by (simp add: comp_def)
    then show ?thesis
      using False h Some free version [OF Some] ps
      by (simp add: new_schedule_of_header_def made_lookup Let_def check_may_change_def check_new_version_def
          schedule_of_legacy_def)
  qed
qed


end
