(* ===== verification/Fork_Invariant.thy ===== *)
theory Fork_Invariant
  imports Fork_Trees Header_State_Facts
begin

text \<open>
  The invariant of the fork database: ids and numbers are those of a tree below the root, and the
  head is a validated block to which no validated block is preferred. Every operation keeps it, so
  every database reachable by the operations has it.
\<close>

section \<open>The best block\<close>

lemma lib_key_le_valid:
  assumes "lib_key a \<le> lib_key b" "is_valid b"
  shows "is_valid a \<and> \<not> first_preferred b a"
  using assms by (auto simp: lib_key_def first_preferred_def word_less_alt word_le_def)

lemma lib_key_le_invalid:
  assumes "lib_key a \<le> lib_key b" "\<not> is_valid a"
  shows "\<not> first_preferred b a"
  using assms by (auto simp: lib_key_def first_preferred_def word_less_alt word_le_def)

lemma not_preferred_trans:
  "\<not> first_preferred a b \<Longrightarrow> \<not> first_preferred b c \<Longrightarrow> \<not> first_preferred a c"
  unfolding first_preferred_def by (auto simp: not_less intro: order_trans)

lemma set_by_lib [simp]: "set (by_lib_block_num d) = set (index d)"
  by (simp add: by_lib_block_num_def)

lemma candidate_least:
  assumes "index d \<noteq> []"
  shows "hd (by_lib_block_num d) \<in> set (index d)"
    "p \<in> set (index d) \<Longrightarrow> lib_key (store d (hd (by_lib_block_num d))) \<le> lib_key (store d p)"
proof -
  obtain c ps where order: "by_lib_block_num d = c # ps"
    using assms set_by_lib [of d] by (cases "by_lib_block_num d") auto
  have "sorted (map (\<lambda>p. lib_key (store d p)) (by_lib_block_num d))"
    by (simp add: by_lib_block_num_def)
  then have least: "\<forall>q \<in> set (by_lib_block_num d). lib_key (store d c) \<le> lib_key (store d q)"
    by (auto simp: order)
  show "hd (by_lib_block_num d) \<in> set (index d)"
    using set_by_lib [of d] order by auto
  show "lib_key (store d (hd (by_lib_block_num d))) \<le> lib_key (store d p)" if "p \<in> set (index d)"
    using least that unfolding set_by_lib by (simp add: order)
qed

lemma candidate_best:
  assumes "p \<in> set (index d)" "valid_at d p"
  shows "valid_at d (hd (by_lib_block_num d))"
    "\<not> first_preferred (store d p) (store d (hd (by_lib_block_num d)))"
proof -
  have "index d \<noteq> []" using assms by auto
  from candidate_least(2) [OF this assms(1)] lib_key_le_valid assms(2)
  show "valid_at d (hd (by_lib_block_num d))"
    "\<not> first_preferred (store d p) (store d (hd (by_lib_block_num d)))"
    by (auto simp: valid_at_def)
qed

section \<open>The invariant of the fork database\<close>

definition numbered :: "('t, 'm) fork_db \<Rightarrow> ptr \<Rightarrow> bool" where
  "numbered d r \<longleftrightarrow>
     (\<forall>p \<in> insert r (set (index d)). num_from_id (id_of d p) = block_num (store d p)) \<and>
     (\<forall>p \<in> set (index d). \<exists>q \<in> insert r (set (index d)).
        prev_of d p = id_of d q \<and> unat (block_num (store d p)) = unat (block_num (store d q)) + 1)"

definition head_ok :: "('t, 'm) fork_db \<Rightarrow> ptr \<Rightarrow> ptr \<Rightarrow> bool" where
  "head_ok d r h \<longleftrightarrow>
     (h = r \<or> h \<in> set (index d)) \<and> valid_at d h \<and> valid_at d r \<and>
     (\<forall>p \<in> set (index d). valid_at d p \<longrightarrow> \<not> first_preferred (store d p) (store d h))"

definition fork_ok :: "('t, 'm) fork_db \<Rightarrow> ptr \<Rightarrow> ptr \<Rightarrow> bool" where
  "fork_ok d r h \<longleftrightarrow>
     root d = Some r \<and> head d = Some h \<and> forest d {id_of d r} \<and> numbered d r \<and> head_ok d r h \<and>
     (\<forall>p \<in> insert r (set (index d)). p < next_ptr d)"

lemma root_not_in_index: "forest d {id_of d r} \<Longrightarrow> r \<notin> set (index d)"
  by (auto simp: forest_def ids_def)

lemma root_id_neq: "forest d {rid} \<Longrightarrow> p \<in> set (index d) \<Longrightarrow> id_of d p \<noteq> rid"
  by (auto simp: forest_def ids_def)

lemma same_id:
  assumes "forest d {id_of d r}" "p \<in> insert r (set (index d))" "q \<in> insert r (set (index d))" "id_of d p = id_of d q"
  shows "p = q"
  using assms id_inject [OF assms(1), of p q] root_id_neq [OF assms(1)] by (metis insert_iff)

lemma numbered_above:
  assumes "forest d {id_of d r}" "numbered d r" "p \<in> set (index d)"
  shows "unat (block_num (store d r)) < unat (block_num (store d p))"
proof -
  have parent: "unat (block_num (store d p)) = unat (block_num (store d q)) + 1"
    if "p \<in> set (index d)" "q \<in> insert r (set (index d))" "prev_of d p = id_of d q" for p q
    using assms(2) that same_id [OF assms(1) that(2)] unfolding numbered_def by metis
  have "below d (id_of d r) p" using below_root [OF assms(1,3)] by simp
  then show ?thesis
  proof (induction rule: below.induct)
    case (child p)
    with parent [of p r] show ?case by simp
  next
    case (deeper q p)
    with parent [of p q] below_mem [OF deeper(1)] show ?case by simp
  qed
qed

lemma numbered_kept:
  assumes "numbered d r" "store d' = store d" "set (index d') \<subseteq> set (index d)" "r' \<in> insert r (set (index d))"
    and "\<And>p q. p \<in> set (index d') \<Longrightarrow> q \<in> insert r (set (index d)) \<Longrightarrow> prev_of d p = id_of d q \<Longrightarrow>
      q \<in> insert r' (set (index d'))"
  shows "numbered d' r'"
  unfolding numbered_def access_cong(1,2) [OF assms(2)] assms(2)
proof (intro conjI ballI)
  fix p assume "p \<in> insert r' (set (index d'))"
  then have "p \<in> insert r (set (index d))" using assms(3,4) by auto
  then show "num_from_id (id_of d p) = block_num (store d p)" using assms(1) unfolding numbered_def by blast
next
  fix p assume p: "p \<in> set (index d')"
  then obtain q where "q \<in> insert r (set (index d))" "prev_of d p = id_of d q"
    "unat (block_num (store d p)) = unat (block_num (store d q)) + 1"
    using assms(1,3) unfolding numbered_def by blast
  then show "\<exists>q \<in> insert r' (set (index d')). prev_of d p = id_of d q \<and>
      unat (block_num (store d p)) = unat (block_num (store d q)) + 1"
    using assms(5) [OF p] by blast
qed

lemma fork_ok_reset:
  assumes "num_from_id (block_id s) = block_num s"
  shows "fork_ok (reset s d) (next_ptr d) (next_ptr d)"
  using assms
  by (simp add: reset_def make_shared_def fork_ok_def forest_def numbered_def head_ok_def ids_def fork_access
      is_valid_def block_state_of_header_def header_state.defs block_state.defs first_preferred_def)

section \<open>Preservation\<close>

lemma fork_ok_remove:
  assumes "fork_ok d r h" "remove x d = Inr d'"
  shows "fork_ok d' r h"
proof -
  have forest: "forest d {id_of d r}" and hd: "head d = Some h" using assms(1) by (auto simp: fork_ok_def)
  from remove_keep [OF this, of x] assms(2) have d': "d' = keep (\<lambda>p. id_of d p \<notin> closure d x) d"
    and h: "id_of d h \<notin> closure d x"
    by (auto split: if_splits)
  have "numbered d' r"
  proof (rule numbered_kept)
    show "numbered d r" using assms(1) by (simp add: fork_ok_def)
    fix p q assume "p \<in> set (index d')" "q \<in> insert r (set (index d))" "prev_of d p = id_of d q"
    then show "q \<in> insert r (set (index d'))" using kept_parent [of p d x q] by (auto simp: d')
  qed (auto simp: d')
  then show ?thesis
    using assms(1) h forest_remove [OF forest, of x] by (auto simp: fork_ok_def head_ok_def d')
qed

lemma below_cases_parent:
  assumes "forest d S" "below d (id_of d n) p" "q \<in> set (index d)" "prev_of d p = id_of d q" "n \<in> set (index d)"
  shows "q = n \<or> below d (id_of d n) q"
  using assms(2)
proof (cases rule: below.cases)
  case child
  then show ?thesis using assms id_inject [OF assms(1), of q n] by simp
next
  case (deeper q')
  then show ?thesis using assms id_inject [OF assms(1), of q q'] below_mem [of d _ q'] by auto
qed

lemma forest_advance:
  assumes "forest d {id_of d r}" "n \<in> set (index d)"
  shows "forest (keep (below d (id_of d n)) d) {id_of d n}"
proof (rule forest_keep [OF assms(1)])
  fix p assume "below d (id_of d n) p" "prev_of d p \<in> {id_of d r}"
  then show "prev_of d p \<in> {id_of d n}"
    using root_id_neq [OF assms(1)] below_mem by (cases rule: below.cases) auto
next
  fix p q
  assume "q \<in> set (index d)" "below d (id_of d n) p" "prev_of d p = id_of d q"
  then show "below d (id_of d n) q \<or> id_of d q \<in> {id_of d n}"
    using below_cases_parent [OF assms(1)] assms(2) by blast
next
  fix p assume "p \<in> set (index d)" "below d (id_of d n) p"
  then show "id_of d p \<notin> {id_of d n}" using not_below_self [OF assms(1), of n] id_inject [OF assms(1) _ assms(2)] by auto
qed

lemma fork_ok_advance_root:
  assumes ok: "fork_ok d r h" and adv: "advance_root x d = (Inr u, d')"
  shows "\<exists>n. fork_ok d' n h"
proof -
  have forest: "forest d {id_of d r}" and hd: "head d = Some h" and rt: "root d = Some r"
    and h: "h = r \<or> h \<in> set (index d)"
    using ok by (auto simp: fork_ok_def head_ok_def)
  from adv rt obtain n where n: "get_block d x = Some n" "valid_at d n"
    by (auto simp: advance_root_def split: option.splits if_splits)
  then have x: "n \<in> set (index d)" "x = id_of d n" by (simp_all add: get_block_iff [OF forest])
  from advance_root_spec [OF rt hd forest h x(1) n(2)] adv
  have sub: "h = n \<or> below d (id_of d n) h"
    and d': "d' = (keep (below d (id_of d n)) d) \<lparr> root := Some n \<rparr>"
    by (auto simp: x split: if_splits)
  have acc: "id_of d' = id_of d" "prev_of d' = prev_of d" "store d' = store d" "valid_at d' = valid_at d"
    by (simp_all add: d' fork_access fun_eq_iff)
  have idx: "index d' = filter (below d (id_of d n)) (index d)" by (simp add: d')
  have "forest d' {id_of d n}"
  proof -
    have "linked d' S ps = linked d S ps" for S ps
      by (induction ps arbitrary: S) (simp_all add: acc)
    then show ?thesis
      using forest_advance [OF forest x(1)] by (simp add: forest_def ids_def acc idx)
  qed
  moreover have "numbered d' n"
  proof (rule numbered_kept)
    show "numbered d r" using ok by (simp add: fork_ok_def)
    fix p q assume p: "p \<in> set (index d')" and q: "q \<in> insert r (set (index d))" "prev_of d p = id_of d q"
    have "below d (id_of d n) p" using p by (simp add: idx)
    then have "prev_of d p \<noteq> id_of d r"
      by (cases rule: below.cases) (use root_id_neq [OF forest] below_mem x(1) in auto)
    then show "q \<in> insert n (set (index d'))"
      using below_cases_parent [OF forest _ _ q(2) x(1)] p q by (auto simp: idx)
  qed (use x(1) in \<open>auto simp: acc idx\<close>)
  moreover have "head_ok d' n h"
    using ok sub n(2) below_mem by (auto simp: fork_ok_def head_ok_def acc idx)
  ultimately have "fork_ok d' n h"
    using ok x(1) hd by (auto simp: fork_ok_def d' fork_access)
  then show ?thesis ..
qed

text \<open>Two databases whose stores differ only in the marks of validation.\<close>

definition same_blocks :: "('t, 'm) fork_db \<Rightarrow> ('t, 'm) fork_db \<Rightarrow> bool" where
  "same_blocks d' d \<longleftrightarrow>
     (\<forall>p. (store d' p) \<lparr> validated := False \<rparr> = (store d p) \<lparr> validated := False \<rparr>) \<and> index d' = index d \<and> root d' = root d \<and>
     next_ptr d' = next_ptr d"

lemma same_blocks_access:
  assumes "same_blocks d' d"
  shows "id_of d' = id_of d" "prev_of d' = prev_of d" "block_num (store d' p) = block_num (store d p)"
    "first_preferred (store d' p) (store d' q) = first_preferred (store d p) (store d q)"
proof -
  have eq: "(store d' p) \<lparr> validated := False \<rparr> = (store d p) \<lparr> validated := False \<rparr>" for p
    using assms by (simp add: same_blocks_def)
  have "block_id (store d' p) = block_id (store d p) \<and> header (store d' p) = header (store d p) \<and>
      block_num (store d' p) = block_num (store d p) \<and>
      dpos_irreversible_blocknum (store d' p) = dpos_irreversible_blocknum (store d p)" for p
    using arg_cong [OF eq [of p], of block_id] arg_cong [OF eq [of p], of header]
      arg_cong [OF eq [of p], of block_num] arg_cong [OF eq [of p], of dpos_irreversible_blocknum]
    by simp
  then show "id_of d' = id_of d" "prev_of d' = prev_of d" "block_num (store d' p) = block_num (store d p)"
    "first_preferred (store d' p) (store d' q) = first_preferred (store d p) (store d q)"
    by (simp_all add: fork_access first_preferred_def fun_eq_iff)
qed

lemma same_blocks_tree:
  assumes "same_blocks d' d"
  shows "forest d' S = forest d S" "numbered d' r = numbered d r"
proof -
  note acc = same_blocks_access [OF assms]
  have idx: "index d' = index d" using assms by (simp add: same_blocks_def)
  have "linked d' S ps = linked d S ps" for S ps
    by (induction ps arbitrary: S) (simp_all add: acc)
  then show "forest d' S = forest d S" by (simp add: forest_def ids_def acc idx)
  show "numbered d' r = numbered d r" by (simp add: numbered_def acc idx)
qed

lemma same_blocks_set_validated: "same_blocks (set_validated v p d) d"
  by (simp add: same_blocks_def set_validated_def)

lemma valid_at_set_validated: "valid_at (set_validated v p d) q = (if q = p then v else valid_at d q)"
  by (simp add: set_validated_def valid_at_def is_valid_def)

lemma same_blocks_trans: "same_blocks a b \<Longrightarrow> same_blocks b c \<Longrightarrow> same_blocks a c"
  by (simp add: same_blocks_def)

lemma fold_set_validated:
  "same_blocks (fold (set_validated v) ps d) d \<and>
   valid_at (fold (set_validated v) ps d) q = (if q \<in> set ps then v else valid_at d q)"
proof (induction ps arbitrary: d)
  case Nil
  show ?case by (simp add: same_blocks_def)
next
  case (Cons p ps)
  from Cons [of "set_validated v p d"] show ?case
    using same_blocks_trans [OF _ same_blocks_set_validated] by (auto simp: valid_at_set_validated)
qed

lemma fork_ok_rollback:
  assumes "fork_ok d r h"
  shows "fork_ok (rollback_head_to_root d) r r"
proof -
  let ?d = "fold (set_validated False) (index d) d"
  have same: "same_blocks ?d d" and valid: "valid_at ?d q = (if q \<in> set (index d) then False else valid_at d q)" for q
    using fold_set_validated [of False "index d" d] by auto
  have r: "r \<notin> set (index d)" using assms root_not_in_index by (auto simp: fork_ok_def)
  have same': "same_blocks (rollback_head_to_root d) d"
    using same by (simp add: rollback_head_to_root_def same_blocks_def)
  have valid': "valid_at (rollback_head_to_root d) = valid_at ?d"
    by (simp add: rollback_head_to_root_def valid_at_def fun_eq_iff)
  have "index (rollback_head_to_root d) = index d" "root (rollback_head_to_root d) = root d"
    "next_ptr (rollback_head_to_root d) = next_ptr d" "head (rollback_head_to_root d) = root d"
    using same' by (auto simp: same_blocks_def rollback_head_to_root_def)
  then show ?thesis
    using assms r by (simp add: fork_ok_def same_blocks_tree [OF same'] same_blocks_access [OF same'] head_ok_def
        valid' valid)
qed

lemma fork_ok_mark_valid:
  assumes "fork_ok d r h" "mark_valid b d = Inr d'"
  shows "\<exists>h'. fork_ok d' r h'"
proof (cases "validated (store d b)")
  case True
  with assms show ?thesis by (auto simp: mark_valid_def)
next
  case False
  have forest: "forest d {id_of d r}" using assms(1) by (simp add: fork_ok_def)
  from assms False obtain p where p: "get_block d (id_of d b) = Some p"
    by (auto simp: mark_valid_def split: option.splits)
  let ?d = "set_validated True p d"
  let ?c = "hd (by_lib_block_num ?d)"
  note same = same_blocks_set_validated [of True p d]
  have idx: "index ?d = index d" "root ?d = root d" "head ?d = head d" "next_ptr ?d = next_ptr d"
    by (simp_all add: set_validated_def)
  have mem: "p \<in> set (index ?d)" using p by (simp add: get_block_iff [OF forest] idx)
  then have "index ?d \<noteq> []" by auto
  have d': "d' = (if first_preferred (store ?d ?c) (store ?d h) then ?d \<lparr> head := Some ?c \<rparr> else ?d)"
    using assms False p by (auto simp: mark_valid_def Let_def fork_ok_def idx split: if_splits)
  have c: "?c \<in> set (index ?d)" "valid_at ?d ?c"
    using candidate_least(1) [OF \<open>index ?d \<noteq> []\<close>] candidate_best(1) [OF mem]
    by (simp_all add: valid_at_set_validated)
  have best: "\<not> first_preferred (store ?d q) (store ?d ?c)" if "q \<in> set (index ?d)" "valid_at ?d q" for q
    using candidate_best(2) [OF that] .
  have tree: "root ?d = Some r" "forest ?d {id_of ?d r}" "numbered ?d r" "valid_at ?d r"
    "\<forall>p \<in> insert r (set (index ?d)). p < next_ptr ?d"
    using assms(1) by (auto simp: fork_ok_def head_ok_def same_blocks_tree [OF same] same_blocks_access [OF same]
        idx valid_at_set_validated)
  show ?thesis
  proof (cases "first_preferred (store ?d ?c) (store ?d h)")
    case True
    have "same_blocks d' ?d" "valid_at d' = valid_at ?d"
      using fold_set_validated [of True "[]" ?d] True
      by (auto simp: d' same_blocks_def valid_at_def fun_eq_iff)
    then have "fork_ok d' r ?c"
      using tree c best same_blocks_tree [of d' ?d] same_blocks_access [of d' ?d] True
      by (simp add: fork_ok_def head_ok_def d')
    then show ?thesis ..
  next
    case False
    have "head_ok ?d r h"
      using assms(1) best not_preferred_trans [OF best False] tree(4)
      by (auto simp: fork_ok_def head_ok_def idx valid_at_set_validated)
    then have "fork_ok d' r h" using tree assms(1) False by (simp add: fork_ok_def d' idx)
    then show ?thesis ..
  qed
qed

section \<open>Adding blocks\<close>

text \<open>The block at \<open>n\<close> extends the block at \<open>q\<close>.\<close>

definition extends :: "('t, 'm) fork_db \<Rightarrow> ptr \<Rightarrow> ptr \<Rightarrow> bool" where
  "extends d n q \<longleftrightarrow>
     prev_of d n = id_of d q \<and> unat (block_num (store d n)) = unat (block_num (store d q)) + 1 \<and>
     num_from_id (id_of d n) = block_num (store d n)"

lemma add_impl_effect:
  assumes "add_impl env (Some n) ign chk d = Inr d'" "get_block d (id_of d n) = None"
  shows "prev_of d n \<in> insert (id_of d (the (root d))) (ids d)"
    and "d' = (let d1 = d \<lparr> index := index d @ [n] \<rparr>; c = hd (by_lib_block_num d1)
               in if valid_at d1 c then d1 \<lparr> head := Some c \<rparr> else d1)"
  using assms
  by (auto simp: add_impl_def get_block_header_def get_block_None eos_assert_def Let_def ids_def
      split: option.splits if_splits)
    (metis get_block_None ids_def option.distinct(1))+

lemma add_impl_duplicate:
  "add_impl env (Some n) ign chk d = Inr d' \<Longrightarrow> get_block d (id_of d n) \<noteq> None \<Longrightarrow> d' = d"
  by (auto simp: add_impl_def split: option.splits if_splits)

lemma fork_ok_append:
  assumes ok: "fork_ok d r h" and n: "n < next_ptr d" "extends d n q" "q \<in> insert r (set (index d))"
    and new: "get_block d (id_of d n) = None"
  shows "forest (d \<lparr> index := index d @ [n] \<rparr>) {id_of d r}" "numbered (d \<lparr> index := index d @ [n] \<rparr>) r"
proof -
  let ?d = "d \<lparr> index := index d @ [n] \<rparr>"
  have acc: "id_of ?d = id_of d" "prev_of ?d = prev_of d" "store ?d = store d" by (simp_all add: fork_access fun_eq_iff)
  have forest: "forest d {id_of d r}" and num: "numbered d r" using ok by (simp_all add: fork_ok_def)
  have "unat (block_num (store d r)) < unat (block_num (store d n))"
    using n numbered_above [OF forest num, of q] by (auto simp: extends_def)
  then have "id_of d n \<noteq> id_of d r"
    using n(2) num unfolding extends_def numbered_def by (metis insertI1 nat_neq_iff)
  moreover have "linked ?d S ps = linked d S ps" for S ps
    by (induction ps arbitrary: S) (simp_all add: acc)
  moreover have "prev_of d n \<in> insert (id_of d r) (id_of d ` set (index d))"
    using n(2,3) by (auto simp: extends_def)
  ultimately show "forest ?d {id_of d r}"
    using forest new by (auto simp: forest_def ids_def acc linked_append get_block_None)
  show "numbered ?d r"
    using num n(2,3) by (fastforce simp: numbered_def acc extends_def)
qed

lemma fork_ok_add:
  assumes ok: "fork_ok d r h" and n: "n < next_ptr d" "extends d n q" "q \<in> insert r (set (index d))"
    and add: "add_impl env (Some n) ign chk d = Inr d'"
  shows "\<exists>h'. fork_ok d' r h'"
proof (cases "get_block d (id_of d n)")
  case (Some p)
  then show ?thesis using add_impl_duplicate [OF add] ok by auto
next
  case None
  let ?d = "d \<lparr> index := index d @ [n] \<rparr>"
  let ?c = "hd (by_lib_block_num ?d)"
  note tree = fork_ok_append [OF ok n None]
  have acc: "id_of ?d = id_of d" "store ?d = store d" "valid_at ?d = valid_at d" by (simp_all add: fork_access fun_eq_iff)
  have d': "d' = (if valid_at ?d ?c then ?d \<lparr> head := Some ?c \<rparr> else ?d)"
    using add_impl_effect(2) [OF add None] by (simp add: Let_def)
  have r: "root d = Some r" "valid_at d r" "\<forall>p \<in> insert r (set (index ?d)). p < next_ptr d"
    using ok n(1) by (auto simp: fork_ok_def head_ok_def)
  show ?thesis
  proof (cases "valid_at ?d ?c")
    case True
    have "head_ok ?d r ?c"
      using True r(2) candidate_least(1) [of ?d] candidate_best(2) [of _ ?d] by (simp add: head_ok_def acc)
    moreover have "same_blocks (?d \<lparr> head := Some ?c \<rparr>) ?d" by (simp add: same_blocks_def)
    ultimately have "fork_ok d' r ?c"
      using tree r True same_blocks_tree [of "?d \<lparr> head := Some ?c \<rparr>" ?d]
      by (simp add: fork_ok_def d' head_ok_def fork_access)
    then show ?thesis ..
  next
    case False
    then have none: "\<not> valid_at d p" if "p \<in> set (index ?d)" for p
      using candidate_best(1) [OF that] acc by auto
    then have "head_ok ?d r h" using ok by (auto simp: head_ok_def fork_ok_def acc)
    then have "fork_ok d' r h" using tree r False ok by (simp add: fork_ok_def d' acc)
    then show ?thesis ..
  qed
qed

lemma fork_ok_make_shared:
  assumes "fork_ok d r h" "make_shared b d = (p, d')"
  shows "fork_ok d' r h" "p = next_ptr d" "store d' p = b" "index d' = index d" "p < next_ptr d'"
    "\<And>q. q < next_ptr d \<Longrightarrow> store d' q = store d q"
proof -
  show d': "p = next_ptr d" "store d' p = b" "index d' = index d" "p < next_ptr d'"
    "\<And>q. q < next_ptr d \<Longrightarrow> store d' q = store d q"
    using assms(2) by (auto simp: make_shared_def)
  have old: "store d' q = store d q" if "q \<in> insert r (set (index d))" for q
    using d'(5) that assms(1) by (auto simp: fork_ok_def)
  then have acc: "id_of d' q = id_of d q" "prev_of d' q = prev_of d q" "valid_at d' q = valid_at d q"
    if "q \<in> insert r (set (index d))" for q
    using that by (simp_all add: fork_access)
  have "linked d' S ps = linked d S ps" if "set ps \<subseteq> insert r (set (index d))" for S ps
    using that by (induction ps arbitrary: S) (simp_all add: acc)
  then have link: "linked d' S (index d) = linked d S (index d)" for S by blast
  have ids: "map (id_of d') (index d) = map (id_of d) (index d)" "ids d' = ids d"
    using acc d'(3) by (auto simp: ids_def)
  have "forest d' {id_of d' r} = forest d {id_of d r}"
    by (simp only: forest_def d'(3) ids link acc [OF insertI1])
  moreover have "numbered d' r = numbered d r"
    unfolding numbered_def d'(3) by (intro conj_cong ball_cong bex_cong refl) (simp_all add: acc old)
  moreover have "h \<in> insert r (set (index d))" using assms(1) by (auto simp: fork_ok_def head_ok_def)
  then have "head_ok d' r h = head_ok d r h"
    unfolding head_ok_def d'(3) by (intro conj_cong ball_cong refl imp_cong) (auto simp: acc old)
  moreover have "root d' = root d" "head d' = head d" "next_ptr d' = Suc (next_ptr d)"
    using assms(2) by (auto simp: make_shared_def)
  ultimately show "fork_ok d' r h" using assms(1) by (auto simp: fork_ok_def d'(3))
qed

section \<open>Blocks built on a header state\<close>

definition built_on :: "'a header_state_scheme \<Rightarrow> ('t, 'm) block_state \<Rightarrow> bool" where
  "built_on prev b \<longleftrightarrow>
     previous (header b) = block_id prev \<and> block_num b = block_num prev + 1 \<and>
     num_from_id (block_id b) = num_from_id (block_id prev) + 1 \<and> \<not> validated b"

lemma finish_next_common_links:
  fixes p :: pending_header_state
  assumes "finish_next_common env p h = Inr s"
  shows "previous (header s) = pending_previous p" "block_num s = block_num p"
    "num_from_id (block_id s) = num_from_id (pending_previous p) + 1"
proof -
  from assms have "check_header_matches p h = Inr ()"
    and common: "header_state_common.truncate s = header_state_common.truncate p"
    and "block_id s = calculate_id env h" "header s = h"
    by (auto elim: finish_next_common_effect)
  then show "previous (header s) = pending_previous p" "block_num s = block_num p"
    "num_from_id (block_id s) = num_from_id (pending_previous p) + 1"
    by (simp_all add: check_header_matches_iff truncate_eqD(1) [OF common] num_from_calculate_id block_num_of_def)
qed

lemma header_next_links:
  fixes p :: pending_header_state
  assumes "header_next env prev when n = Inr p"
  shows "pending_previous p = block_id prev" "block_num p = block_num prev + 1"
  using assms by (auto elim: header_next_effect)

lemma received_built_on:
  fixes bs :: "('t, 'm) block_state"
  assumes "block_state_received env prev b skip = Inr bs"
  shows "built_on prev bs"
proof -
  from assms obtain sigs s where s: "next_header env prev (signed_block_header.truncate b) sigs skip = Inr s"
    "bs = header_state.extend s (block_state.fields (Some b) False False [])"
    unfolding block_state_received_def by auto
  from s(1) obtain p :: pending_header_state where
    p: "header_next env prev (timestamp b) (confirmed b) = Inr p"
    "finish_next env p (signed_block_header.truncate b) sigs skip = Inr s"
    unfolding next_header_def by (auto simp: signed_block_header.defs)
  from p(2) obtain s0 where "finish_next_common env p (signed_block_header.truncate b) = Inr s0"
    "s = s0 \<lparr> additional_signatures := sigs \<rparr>"
    by (rule finish_next_effect)
  with finish_next_common_links header_next_links [OF p(1)] show ?thesis
    by (force simp: built_on_def s(2) header_state.defs block_state.defs)
qed

lemma produced_built_on:
  fixes bs :: "('t, 'm) block_state" and cur :: pending_header_state
  assumes "header_next env prev when n = Inr cur" "block_state_produced env cur b trxs signer = Inr bs"
  shows "built_on prev bs"
proof -
  from assms(2) obtain s b' where s: "inject_additional_signatures env cur b signer = Inr (s, b')"
    "bs = header_state.extend s (block_state.fields (Some b') False True trxs)"
    unfolding block_state_produced_def by auto
  from s(1) obtain h where "finish_next_signed env cur (signed_block_header.truncate b) signer = Inr (s, h)"
    by (auto simp: inject_additional_signatures_def Let_def split: if_splits)
  then obtain s0 where s0: "finish_next_common env cur (signed_block_header.truncate b) = Inr s0"
    "sign env s0 signer = Inr s"
    by (auto simp: finish_next_signed_def Let_def)
  then have "previous (header s) = previous (header s0)" "block_num s = block_num s0" "block_id s = block_id s0"
    by (auto simp: sign_def Let_def)
  with finish_next_common_links [OF s0(1)] header_next_links [OF assms(1)] show ?thesis
    by (simp add: built_on_def s(2) header_state.defs block_state.defs)
qed

section \<open>Reachable databases\<close>

text \<open>
  The database is reset to a root whose id carries its number, and then changed by its operations.
  The controller adds a block state that it built from the header state of the predecessor, for a
  block it received or produced; block numbers do not run out.
\<close>

inductive fork_reachable :: "chain_env \<Rightarrow> ('t, 'm) fork_db \<Rightarrow> bool" for env where
  reset: "num_from_id (block_id s) = block_num s \<Longrightarrow> fork_reachable env (reset s d)"
| receive: "fork_reachable env d \<Longrightarrow> q \<in> set (index d) \<or> root d = Some q \<Longrightarrow>
    unat (block_num (store d q)) < 4294967295 \<Longrightarrow>
    block_state_received env (store d q) b skip = Inr bs \<Longrightarrow> make_shared bs d = (p, d1) \<Longrightarrow>
    add env (Some p) ign d1 = Inr d2 \<Longrightarrow> fork_reachable env d2"
| produce: "fork_reachable env d \<Longrightarrow> q \<in> set (index d) \<or> root d = Some q \<Longrightarrow>
    unat (block_num (store d q)) < 4294967295 \<Longrightarrow>
    header_next env (store d q) when n = Inr cur \<Longrightarrow> block_state_produced env cur b trxs signer = Inr bs \<Longrightarrow>
    make_shared bs d = (p, d1) \<Longrightarrow> add env (Some p) ign d1 = Inr d2 \<Longrightarrow> fork_reachable env d2"
| mark: "fork_reachable env d \<Longrightarrow> mark_valid b d = Inr d' \<Longrightarrow> fork_reachable env d'"
| remove: "fork_reachable env d \<Longrightarrow> remove x d = Inr d' \<Longrightarrow> fork_reachable env d'"
| advance: "fork_reachable env d \<Longrightarrow> advance_root x d = (Inr u, d') \<Longrightarrow> fork_reachable env d'"
| rollback: "fork_reachable env d \<Longrightarrow> fork_reachable env (rollback_head_to_root d)"

lemma fork_ok_add_built:
  assumes ok: "fork_ok d r h" and q: "q \<in> set (index d) \<or> root d = Some q"
    and num: "unat (block_num (store d q)) < 4294967295"
    and b: "built_on (store d q) bs" "make_shared bs d = (p, d1)" "add env (Some p) ign d1 = Inr d2"
  shows "\<exists>h'. fork_ok d2 r h'"
proof -
  note ms = fork_ok_make_shared [OF ok b(2)]
  have mem: "q \<in> insert r (set (index d))" using q ok by (auto simp: fork_ok_def)
  then have "q < next_ptr d" using ok by (auto simp: fork_ok_def)
  then have old: "store d1 q = store d q" by (rule ms(6))
  have "num_from_id (id_of d q) = block_num (store d q)"
    using mem ok unfolding fork_ok_def numbered_def by blast
  moreover have "unat (block_num (store d q) + 1) = unat (block_num (store d q)) + 1"
    using num by (simp add: unat_word_ariths)
  ultimately have "extends d1 p q"
    using b(1) old ms(3) by (simp add: extends_def built_on_def fork_access)
  then show ?thesis
    using fork_ok_add [OF ms(1,5) _ _ b(3) [unfolded add_def]] mem ms(4) by simp
qed

lemma reachable_fork_ok: "fork_reachable env d \<Longrightarrow> \<exists>r h. fork_ok d r h"
proof (induction rule: fork_reachable.induct)
  case (reset s d)
  then show ?case using fork_ok_reset by blast
next
  case (receive d q b skip bs p d1 ign d2)
  then obtain r h where "fork_ok d r h" by blast
  from fork_ok_add_built [OF this receive(2,3) received_built_on [OF receive(4)] receive(5,6)] show ?case by blast
next
  case (produce d q t n cur b trxs signer bs p d1 ign d2)
  then obtain r h where "fork_ok d r h" by blast
  from fork_ok_add_built [OF this produce(2,3) produced_built_on [OF produce(4,5)] produce(6,7)] show ?case by blast
next
  case (mark d b d')
  then show ?case using fork_ok_mark_valid by blast
next
  case (remove d x d')
  then show ?case using fork_ok_remove by blast
next
  case (advance d x u d')
  then show ?case using fork_ok_advance_root by blast
next
  case (rollback d)
  then show ?case using fork_ok_rollback by blast
qed

text \<open>
  C6: in every reachable fork database the head is the root or a block of the database, it is
  validated, and no validated block is preferred to it (by irreversible block number, then by
  block number); ids are unique; and every block hangs, block number by block number, below the root.
\<close>

theorem fork_head_best:
  assumes "fork_reachable env d"
  shows "\<exists>r h. root d = Some r \<and> head d = Some h \<and> (h = r \<or> h \<in> set (index d)) \<and> validated (store d h) \<and>
    (\<forall>p \<in> set (index d). validated (store d p) \<longrightarrow> \<not> first_preferred (store d p) (store d h)) \<and>
    distinct (map (id_of d) (index d)) \<and>
    (\<forall>p \<in> set (index d). below d (id_of d r) p \<and>
       (\<exists>q \<in> insert r (set (index d)). prev_of d p = id_of d q \<and>
          unat (block_num (store d p)) = unat (block_num (store d q)) + 1))"
proof -
  obtain r h where ok: "fork_ok d r h" using reachable_fork_ok [OF assms] by blast
  then have "forest d {id_of d r}" by (simp add: fork_ok_def)
  then have "\<forall>p \<in> set (index d). below d (id_of d r) p" using below_root by blast
  moreover have "distinct (map (id_of d) (index d))" using ok by (simp add: fork_ok_def forest_def)
  ultimately show ?thesis
    using ok unfolding fork_ok_def head_ok_def numbered_def valid_at_def is_valid_def by blast
qed

end
