(* ===== verification/Fork_Branches.thy ===== *)
theory Fork_Branches
  imports Fork_Invariant
begin

text \<open>
  Branches of the fork database: the walks of \<^const>\<open>fetch_branch\<close> and \<^const>\<open>fetch_branch_from\<close> end within the
  size of the index, and the exact effect of every query and removal on reachable databases.
\<close>

section \<open>Branches\<close>

text \<open>The blocks from \<open>p\<close> down to, and without, its ancestor \<open>e\<close>.\<close>

fun path :: "('t, 'm) fork_db \<Rightarrow> ptr \<Rightarrow> ptr \<Rightarrow> ptr list \<Rightarrow> ptr \<Rightarrow> bool" where
  "path d r p [] e \<longleftrightarrow> p = e"
| "path d r p (s # ss) e \<longleftrightarrow>
     s = p \<and> p \<in> set (index d) \<and> (\<exists>q \<in> insert r (set (index d)). prev_of d p = id_of d q \<and> path d r q ss e)"

definition ranked :: "('t, 'm) fork_db \<Rightarrow> ptr \<Rightarrow> nat \<Rightarrow> ptr \<Rightarrow> bool" where
  "ranked d r k p \<longleftrightarrow> p = r \<or> (\<exists>i < k. i < length (index d) \<and> p = index d ! i)"

lemma ranked_member: "ranked d r k p \<Longrightarrow> p \<in> insert r (set (index d))"
  by (auto simp: ranked_def)

lemma ranked_all: "p \<in> insert r (set (index d)) \<Longrightarrow> ranked d r (length (index d)) p"
  by (auto simp: ranked_def in_set_conv_nth)

lemma parent_ranked:
  assumes ok: "fork_ok d r h" and p: "p \<in> set (index d)" "ranked d r (Suc k) p"
  obtains q where "ranked d r k q" "prev_of d p = id_of d q" "block_or_root d (prev_of d p) = Inr q"
    "unat (block_num (store d p)) = unat (block_num (store d q)) + 1"
    "get_block d (prev_of d p) = (if q = r then None else Some q)"
proof -
  have forest: "forest d {id_of d r}" and num: "numbered d r" and rt: "root d = Some r"
    using ok by (simp_all add: fork_ok_def)
  obtain q where q: "q \<in> insert r (set (index d))" "prev_of d p = id_of d q"
    "unat (block_num (store d p)) = unat (block_num (store d q)) + 1"
    using num p(1) unfolding numbered_def by blast
  have get: "get_block d (prev_of d p) = (if q = r then None else Some q)"
  proof (cases "q = r")
    case True
    then show ?thesis using q(2) forest by (simp add: get_block_None forest_def)
  next
    case False
    then show ?thesis using q by (simp add: get_block_iff [OF forest])
  qed
  moreover have "ranked d r k q"
  proof (cases "q = r")
    case False
    obtain i where i: "i < Suc k" "i < length (index d)" "p = index d ! i"
      using p root_not_in_index [OF forest] by (auto simp: ranked_def)
    obtain j where j: "j < length (index d)" "q = index d ! j"
      using q(1) False by (auto simp: in_set_conv_nth)
    with parent_earlier [OF forest i(2) j(1)] i q(2) have "j < i" by simp
    then have "j < k" using i(1) by simp
    with j show ?thesis unfolding ranked_def by blast
  qed (simp add: ranked_def)
  moreover have "block_or_root d (prev_of d p) = Inr q"
  proof (cases "q = r")
    case False
    then have "id_of d q \<noteq> id_of d r" using q(1) root_id_neq [OF forest] by auto
    then show ?thesis using get False rt q(2) by (simp add: block_or_root_def)
  qed (simp add: block_or_root_def rt q(2))
  ultimately show thesis using that q by blast
qed

lemma root_least: "fork_ok d r h \<Longrightarrow> p \<in> insert r (set (index d)) \<Longrightarrow>
    unat (block_num (store d r)) \<le> unat (block_num (store d p)) \<and>
    (unat (block_num (store d p)) = unat (block_num (store d r)) \<longrightarrow> p = r)"
  using numbered_above [of d r p] by (auto simp: fork_ok_def)

text \<open>Blocks of a path have decreasing numbers, all above the number of its end.\<close>

lemma path_nums:
  assumes "fork_ok d r h" "path d r p ps e" "s \<in> set ps"
  shows "unat (block_num (store d s)) \<le> unat (block_num (store d p))"
    "unat (block_num (store d e)) < unat (block_num (store d s))"
proof -
  have parent: "unat (block_num (store d p)) = unat (block_num (store d q)) + 1"
    if "p \<in> set (index d)" "q \<in> insert r (set (index d))" "prev_of d p = id_of d q" for p q
    using assms(1) that same_id [of d r q] unfolding fork_ok_def numbered_def by metis
  have *: "unat (block_num (store d e)) \<le> unat (block_num (store d p)) \<and>
      (\<forall>s \<in> set ps. unat (block_num (store d s)) \<le> unat (block_num (store d p)) \<and>
        unat (block_num (store d e)) < unat (block_num (store d s)))"
    using assms(2)
  proof (induction ps arbitrary: p)
    case (Cons s ps)
    then obtain q where q: "s = p" "p \<in> set (index d)" "q \<in> insert r (set (index d))" "prev_of d p = id_of d q"
      "path d r q ps e"
      by auto
    with Cons.IH [OF q(5)] parent [OF q(2-4)] show ?case by auto
  qed simp
  then show "unat (block_num (store d s)) \<le> unat (block_num (store d p))"
    "unat (block_num (store d e)) < unat (block_num (store d s))"
    using assms(3) by auto
qed

lemma path_append:
  "path d r p ps q \<Longrightarrow> path d r q qs e \<Longrightarrow> path d r p (ps @ qs) e"
  by (induction ps arbitrary: p) auto

section \<open>Walking down a branch\<close>

lemma branch_from_spec:
  assumes "fork_ok d r h" "ranked d r fuel p"
  shows "\<exists>ps. branch_from fuel d (if p = r then None else Some p) = Inr ps \<and> path d r p ps r"
  using assms(2)
proof (induction fuel arbitrary: p)
  case 0
  then show ?case by (simp add: ranked_def)
next
  case (Suc fuel)
  show ?case
  proof (cases "p = r")
    case False
    then have p: "p \<in> set (index d)" using ranked_member [OF Suc.prems] by simp
    from parent_ranked [OF assms(1) p Suc.prems] obtain q where q: "ranked d r fuel q"
      "prev_of d p = id_of d q" "get_block d (prev_of d p) = (if q = r then None else Some q)"
      by blast
    from Suc.IH [OF q(1)] obtain ps where
      "branch_from fuel d (if q = r then None else Some q) = Inr ps" "path d r q ps r"
      by blast
    then have "branch_from (Suc fuel) d (if p = r then None else Some p) = Inr (p # ps)" "path d r p (p # ps) r"
      using False p q ranked_member [OF q(1)] by auto
    then show ?thesis by blast
  qed simp
qed

lemma descend_spec:
  assumes "fork_ok d r h" "ranked d r fuel p" "unat (block_num (store d r)) \<le> unat num"
  shows "\<exists>ps e. descend fuel d num p = Inr (ps, e) \<and> path d r p ps e \<and> e \<in> insert r (set (index d)) \<and>
    unat (block_num (store d e)) = min (unat num) (unat (block_num (store d p)))"
  using assms(2)
proof (induction fuel arbitrary: p)
  case 0
  then have "p = r" by (simp add: ranked_def)
  then show ?case using assms(3) by (simp add: word_less_nat_alt)
next
  case (Suc fuel)
  show ?case
  proof (cases "num < block_num (store d p)")
    case True
    then have "p \<noteq> r" using assms(3) by (auto simp: word_less_nat_alt)
    then have p: "p \<in> set (index d)" using ranked_member [OF Suc.prems] by simp
    from parent_ranked [OF assms(1) p Suc.prems] obtain q where q: "ranked d r fuel q" "prev_of d p = id_of d q"
      "block_or_root d (prev_of d p) = Inr q" "unat (block_num (store d p)) = unat (block_num (store d q)) + 1"
      by blast
    from Suc.IH [OF q(1)] obtain ps e where e: "descend fuel d num q = Inr (ps, e)" "path d r q ps e"
      "e \<in> insert r (set (index d))"
      "unat (block_num (store d e)) = min (unat num) (unat (block_num (store d q)))"
      by blast
    have "descend (Suc fuel) d num p = Inr (p # ps, e)" using True q(3) e(1) by simp
    moreover have "path d r p (p # ps) e" using p q e(2) ranked_member [OF q(1)] by auto
    moreover have "unat (block_num (store d e)) = min (unat num) (unat (block_num (store d p)))"
      using e(4) q(4) True by (simp add: word_less_nat_alt)
    ultimately show ?thesis using e(3) by blast
  next
    case False
    then show ?thesis using ranked_member [OF Suc.prems] by (auto simp: word_less_nat_alt)
  qed
qed

lemma join_here:
  assumes "p \<in> set (index d)" "q \<in> set (index d)" "p \<noteq> q"
    and e: "e \<in> insert r (set (index d))" "prev_of d p = id_of d e" "prev_of d q = id_of d e"
  shows "\<exists>ps qs e. join_loop fuel d p q = Inr (ps, qs) \<and> path d r p ps e \<and> path d r q qs e \<and>
    e \<in> insert r (set (index d)) \<and> set ps \<inter> set qs = {}"
proof -
  have "join_loop fuel d p q = Inr ([p], [q])" using e by (cases fuel) simp_all
  moreover have "path d r p [p] e" "path d r q [q] e" using assms by auto
  moreover have "set [p] \<inter> set [q] = {}" using assms(3) by simp
  ultimately show ?thesis using e(1) by blast
qed

lemma parent_of:
  assumes "fork_ok d r h" "q \<in> set (index d)"
  obtains q' where "q' \<in> insert r (set (index d))" "prev_of d q = id_of d q'"
    "unat (block_num (store d q)) = unat (block_num (store d q')) + 1"
    "get_block d (prev_of d q) = (if q' = r then None else Some q')"
proof -
  have "ranked d r (Suc (length (index d))) q" using assms(2) by (auto simp: ranked_def in_set_conv_nth)
  from parent_ranked [OF assms this] ranked_member that show thesis by metis
qed

lemma join_loop_spec:
  assumes ok: "fork_ok d r h"
    and "p \<in> set (index d)" "q \<in> set (index d)" "p \<noteq> q" "ranked d r (Suc fuel) p"
    and "unat (block_num (store d p)) = unat (block_num (store d q))"
  shows "\<exists>ps qs e. join_loop fuel d p q = Inr (ps, qs) \<and> path d r p ps e \<and> path d r q qs e \<and>
    e \<in> insert r (set (index d)) \<and> set ps \<inter> set qs = {}"
  using assms(2-)
proof (induction fuel arbitrary: p q)
  case 0
  from parent_ranked [OF ok 0(1,4)] obtain p' where p': "ranked d r 0 p'" "prev_of d p = id_of d p'"
    "unat (block_num (store d p)) = unat (block_num (store d p')) + 1"
    by blast
  then have "p' = r" by (simp add: ranked_def)
  from parent_of [OF ok 0(2)] obtain q' where q': "q' \<in> insert r (set (index d))"
    "prev_of d q = id_of d q'" "unat (block_num (store d q)) = unat (block_num (store d q')) + 1"
    by blast
  then have "q' = r" using root_least [OF ok q'(1)] p'(3) \<open>p' = r\<close> 0(5) by simp
  then have "prev_of d p = id_of d r" "prev_of d q = id_of d r" using p'(2) q'(2) \<open>p' = r\<close> by simp_all
  from join_here [OF 0(1-3) insertI1 this] show ?case .
next
  case (Suc fuel)
  from parent_ranked [OF ok Suc.prems(1,4)] obtain p' where p': "ranked d r (Suc fuel) p'"
    "prev_of d p = id_of d p'" "unat (block_num (store d p)) = unat (block_num (store d p')) + 1"
    "get_block d (prev_of d p) = (if p' = r then None else Some p')"
    by blast
  from parent_of [OF ok Suc.prems(2)] obtain q' where q': "q' \<in> insert r (set (index d))"
    "prev_of d q = id_of d q'" "unat (block_num (store d q)) = unat (block_num (store d q')) + 1"
    "get_block d (prev_of d q) = (if q' = r then None else Some q')"
    by blast
  have mem: "p' \<in> insert r (set (index d))" "q' \<in> insert r (set (index d))"
    using ranked_member [OF p'(1)] q'(1) by auto
  have level: "unat (block_num (store d p')) = unat (block_num (store d q'))"
    using p'(3) q'(3) Suc.prems(5) by simp
  show ?case
  proof (cases "prev_of d p = prev_of d q")
    case True
    then have "prev_of d q = id_of d p'" using p'(2) by simp
    from join_here [OF Suc.prems(1-3) mem(1) p'(2) this] show ?thesis .
  next
    case False
    have "p' \<noteq> r" "q' \<noteq> r"
      using root_least [OF ok mem(1)] root_least [OF ok mem(2)] level False p'(2) q'(2) by auto
    then have kids: "p' \<in> set (index d)" "q' \<in> set (index d)" "p' \<noteq> q'" using mem False p'(2) q'(2) by auto
    from Suc.IH [OF kids p'(1) level] obtain ps qs e where e: "join_loop fuel d p' q' = Inr (ps, qs)"
      "path d r p' ps e" "path d r q' qs e" "e \<in> insert r (set (index d))" "set ps \<inter> set qs = {}"
      by blast
    have "p \<notin> set qs" "q \<notin> set ps"
      using path_nums(1) [OF ok e(3), of p] path_nums(1) [OF ok e(2), of q] p'(3) q'(3) level Suc.prems(5) by auto
    then have "set (p # ps) \<inter> set (q # qs) = {}" using e(5) Suc.prems(3) by auto
    moreover have "path d r p (p # ps) e" "path d r q (q # qs) e"
      using Suc.prems(1,2) p'(2) q'(2) e(2,3) mem by auto
    moreover have "join_loop (Suc fuel) d p q = Inr (p # ps, q # qs)"
      using False e(1) p'(4) q'(4) \<open>p' \<noteq> r\<close> \<open>q' \<noteq> r\<close> by simp
    ultimately show ?thesis using e(4) by blast
  qed
qed

lemma block_or_root_member:
  assumes "fork_ok d r h" "p \<in> insert r (set (index d))"
  shows "block_or_root d (id_of d p) = Inr p"
proof (cases "p = r")
  case False
  have forest: "forest d {id_of d r}" "root d = Some r" using assms(1) by (simp_all add: fork_ok_def)
  moreover have "get_block d (id_of d p) = Some p" using assms(2) False by (simp add: get_block_iff [OF forest(1)])
  moreover have "id_of d p \<noteq> id_of d r" using assms(2) False root_id_neq [OF forest(1)] by auto
  ultimately show ?thesis by (simp add: block_or_root_def)
qed (use assms in \<open>simp add: block_or_root_def fork_ok_def\<close>)

lemma fetch_branch_from_spec:
  assumes ok: "fork_ok d r h" and p: "p \<in> insert r (set (index d))" and q: "q \<in> insert r (set (index d))"
  shows "\<exists>ps qs e. fetch_branch_from d (id_of d p) (id_of d q) = Inr (ps, qs) \<and> path d r p ps e \<and> path d r q qs e \<and>
    e \<in> insert r (set (index d)) \<and> set ps \<inter> set qs = {}"
proof -
  have forest: "forest d {id_of d r}" using ok by (simp add: fork_ok_def)
  from descend_spec [OF ok ranked_all [OF p] root_least [OF ok q, THEN conjunct1]] obtain ps p' where
    p': "descend (length (index d)) d (block_num (store d q)) p = Inr (ps, p')" "path d r p ps p'"
    "p' \<in> insert r (set (index d))"
    "unat (block_num (store d p')) = min (unat (block_num (store d q))) (unat (block_num (store d p)))"
    by blast
  from descend_spec [OF ok ranked_all [OF q] root_least [OF ok p'(3), THEN conjunct1]] obtain qs q' where
    q': "descend (length (index d)) d (block_num (store d p')) q = Inr (qs, q')" "path d r q qs q'"
    "q' \<in> insert r (set (index d))"
    "unat (block_num (store d q')) = min (unat (block_num (store d p'))) (unat (block_num (store d q)))"
    by blast
  have level: "unat (block_num (store d p')) = unat (block_num (store d q'))" using p'(4) q'(4) by simp
  have disjoint: "set ps \<inter> set qs = {}"
  proof (rule ccontr)
    assume "set ps \<inter> set qs \<noteq> {}"
    then obtain s where s: "s \<in> set ps" "s \<in> set qs" by blast
    show False
      using path_nums [OF ok p'(2) s(1)] path_nums [OF ok q'(2) s(2)] p'(4) q'(4) by linarith
  qed
  note eval = block_or_root_member [OF ok p] block_or_root_member [OF ok q] p'(1) q'(1)
  show ?thesis
  proof (cases "p' = q'")
    case True
    then have "id_of d p' = id_of d q'" by simp
    then have "fetch_branch_from d (id_of d p) (id_of d q) = Inr (ps, qs)"
      by (simp add: fetch_branch_from_def eval)
    then show ?thesis using p' q' True disjoint by blast
  next
    case False
    then have kids: "p' \<in> set (index d)" "q' \<in> set (index d)"
      using p'(3) q'(3) root_least [OF ok p'(3)] root_least [OF ok q'(3)] level by auto
    have "ranked d r (Suc (length (index d))) p'" using kids(1) by (auto simp: ranked_def in_set_conv_nth)
    from join_loop_spec [OF ok kids False this level] obtain ps' qs' e where
      e: "join_loop (length (index d)) d p' q' = Inr (ps', qs')" "path d r p' ps' e" "path d r q' qs' e"
      "e \<in> insert r (set (index d))" "set ps' \<inter> set qs' = {}"
      by blast
    have "s \<notin> set qs'" if "s \<in> set ps" for s
      using path_nums(2) [OF ok p'(2) that] path_nums(1) [OF ok e(3), of s] level by auto
    moreover have "s \<notin> set ps'" if "s \<in> set qs" for s
      using path_nums(2) [OF ok q'(2) that] path_nums(1) [OF ok e(2), of s] level by auto
    ultimately have "set (ps @ ps') \<inter> set (qs @ qs') = {}" using disjoint e(5) by auto
    moreover have "id_of d p' \<noteq> id_of d q'" using False same_id [OF forest p'(3) q'(3)] by blast
    then have "fetch_branch_from d (id_of d p) (id_of d q) = Inr (ps @ ps', qs @ qs')"
      by (simp add: fetch_branch_from_def eval e(1))
    ultimately show ?thesis using path_append p'(2) q'(2) e(2-4) by blast
  qed
qed

section \<open>The best block of all\<close>

lemma pending_head_spec:
  assumes ok: "fork_ok d r h"
  shows "\<exists>p. pending_head d = Inr (Some p) \<and> p \<in> insert r (set (index d)) \<and>
    (\<forall>q \<in> set (index d). \<not> first_preferred (store d q) (store d p))"
proof (cases "dropWhile (valid_at d) (by_lib_block_num d)")
  case Nil
  then have "\<forall>q \<in> set (index d). valid_at d q" using set_by_lib [of d] by (auto simp: dropWhile_eq_Nil_conv)
  moreover have "pending_head d = Inr (head d)" by (simp only: pending_head_def Nil list.case)
  ultimately show ?thesis using ok by (auto simp: fork_ok_def head_ok_def)
next
  case (Cons p rest)
  have h: "head d = Some h" "h \<in> insert r (set (index d))"
    "\<And>q. q \<in> set (index d) \<Longrightarrow> valid_at d q \<Longrightarrow> \<not> first_preferred (store d q) (store d h)"
    using ok by (auto simp: fork_ok_def head_ok_def)
  have order: "by_lib_block_num d = takeWhile (valid_at d) (by_lib_block_num d) @ p # rest"
    using Cons takeWhile_dropWhile_id [of "valid_at d" "by_lib_block_num d"] by simp
  have p: "p \<in> set (index d)" "\<not> valid_at d p"
    using order set_by_lib [of d] hd_dropWhile [of "valid_at d" "by_lib_block_num d"] Cons
    by (metis in_set_conv_decomp, simp)
  have sorted: "sorted (map (\<lambda>p. lib_key (store d p)) (by_lib_block_num d))"
    by (simp add: by_lib_block_num_def)
  then have "\<forall>q \<in> set rest. lib_key (store d p) \<le> lib_key (store d q)"
    by (subst (asm) order) (simp add: sorted_append)
  moreover have "q \<in> insert p (set rest)" if "q \<in> set (index d)" "\<not> valid_at d q" for q
  proof -
    have "q \<in> set (takeWhile (valid_at d) (by_lib_block_num d) @ p # rest)"
      using that(1) set_by_lib [of d] order by metis
    then show ?thesis using that(2) by (auto dest: set_takeWhileD)
  qed
  ultimately have best: "\<not> first_preferred (store d q) (store d p)" if "q \<in> set (index d)" "\<not> valid_at d q" for q
    using lib_key_le_invalid [of "store d p" "store d q"] p(2) that by (force simp: valid_at_def)
  have asym: "\<not> first_preferred (store d h) (store d p)" if "first_preferred (store d p) (store d h)"
    using that by (auto simp: first_preferred_def)
  show ?thesis
  proof (cases "first_preferred (store d p) (store d h)")
    case True
    have "\<not> first_preferred (store d q) (store d p)" if "q \<in> set (index d)" for q
      using best [OF that] h(3) [OF that] not_preferred_trans asym [OF True] by blast
    then show ?thesis using Cons h p True by (auto simp: pending_head_def)
  next
    case False
    have "\<not> first_preferred (store d q) (store d h)" if "q \<in> set (index d)" for q
      using best [OF that] h(3) [OF that] not_preferred_trans False by blast
    then show ?thesis using Cons h False by (auto simp: pending_head_def)
  qed
qed

text \<open>
  C21: in every reachable fork database, \<^verbatim>\<open>pending_head\<close> is the root or a block of the database to which
  no block, validated or not, is preferred.
\<close>

theorem pending_head_best:
  assumes "fork_reachable env d"
  shows "\<exists>p. pending_head d = Inr (Some p) \<and> (root d = Some p \<or> p \<in> set (index d)) \<and>
    (\<forall>q \<in> set (index d). \<not> first_preferred (store d q) (store d p))"
proof -
  obtain r h where ok: "fork_ok d r h" using reachable_fork_ok [OF assms] by blast
  then have "root d = Some r" by (simp add: fork_ok_def)
  with pending_head_spec [OF ok] show ?thesis by auto
qed

text \<open>
  C11: in every reachable fork database, removing an id raises an exception when the head is that
  block or below it, and otherwise removes exactly that block and all blocks below it.
\<close>

theorem remove_exact:
  assumes "fork_reachable env d" "head d = Some h"
  shows "remove x d =
    (if id_of d h = x \<or> below d x h then Inl Fork_Database_Exception
     else Inr (d \<lparr> index := filter (\<lambda>p. id_of d p \<noteq> x \<and> \<not> below d x p) (index d) \<rparr>))"
proof -
  obtain r h' where ok: "fork_ok d r h'" using reachable_fork_ok [OF assms(1)] by blast
  then have forest: "forest d {id_of d r}" and h': "h' = h" using assms(2) by (simp_all add: fork_ok_def)
  have mem: "id_of d p \<in> closure d x \<longleftrightarrow> id_of d p = x \<or> below d x p"
    if "p \<in> insert r (set (index d))" for p
    using same_id [OF forest that] below_mem by (fastforce simp: closure_iff)
  have "h \<in> insert r (set (index d))" using ok h' by (auto simp: fork_ok_def head_ok_def)
  then show ?thesis
    unfolding remove_spec [OF forest assms(2)] using mem by (auto cong: filter_cong)
qed

text \<open>
  C12: in every reachable fork database, advancing the root to a validated block succeeds
  exactly when the head is that block or below it, and then the block is the root and exactly
  the blocks below it are left; otherwise it raises an exception.
\<close>

theorem advance_root_exact:
  assumes "fork_reachable env d" "head d = Some h" "n \<in> set (index d)" "validated (store d n)"
  shows "if h = n \<or> below d (id_of d n) h
    then advance_root (id_of d n) d =
      (Inr (), d \<lparr> index := filter (below d (id_of d n)) (index d), root := Some n \<rparr>)
    else fst (advance_root (id_of d n) d) = Inl Fork_Database_Exception"
proof -
  obtain r h' where ok: "fork_ok d r h'" using reachable_fork_ok [OF assms(1)] by blast
  then have "root d = Some r" "forest d {id_of d r}" "h = r \<or> h \<in> set (index d)" "h' = h"
    using assms(2) by (auto simp: fork_ok_def head_ok_def)
  from advance_root_spec [OF this(1) assms(2) this(2,3) assms(3)] show ?thesis
    using assms(4) by (simp add: keep_def valid_at_def is_valid_def split: if_splits)
qed

text \<open>
  C20: in every reachable fork database, \<^verbatim>\<open>fetch_branch\<close> of a block returns the blocks from it down to
  the one above the root that are not numbered above the limit, in this order; and it returns no
  blocks, rather than raising an exception, for an id that is not in the database.
\<close>

theorem fetch_branch_exact:
  assumes "fork_reachable env d" "root d = Some r"
  shows "(x \<notin> ids d \<longrightarrow> fetch_branch d x n = Inr []) \<and>
    (\<forall>p \<in> set (index d). \<exists>ps. path d r p ps r \<and>
       fetch_branch d (id_of d p) n = Inr (filter (\<lambda>s. block_num (store d s) \<le> n) ps))"
proof (intro conjI impI ballI)
  assume "x \<notin> ids d"
  then have "get_block d x = None" by (simp add: get_block_None)
  then show "fetch_branch d x n = Inr []" by (simp add: fetch_branch_def)
next
  fix p assume p: "p \<in> set (index d)"
  obtain h where ok: "fork_ok d r h" using reachable_fork_ok [OF assms(1)] assms(2) by (auto simp: fork_ok_def)
  then have forest: "forest d {id_of d r}" by (simp add: fork_ok_def)
  have "p \<noteq> r" "get_block d (id_of d p) = Some p"
    using p root_not_in_index [OF forest] by (auto simp: get_block_iff [OF forest])
  moreover obtain ps where "branch_from (length (index d)) d (if p = r then None else Some p) = Inr ps" "path d r p ps r"
    using branch_from_spec [OF ok ranked_all, of p] p by auto
  ultimately show "\<exists>ps. path d r p ps r \<and>
      fetch_branch d (id_of d p) n = Inr (filter (\<lambda>s. block_num (store d s) \<le> n) ps)"
    by (auto simp: fetch_branch_def)
qed

text \<open>
  C18: in every reachable fork database, \<^verbatim>\<open>fetch_branch_from\<close> of two blocks (or the root) succeeds and
  returns the two branches down to, and without, a common ancestor; they have no block in common.
\<close>

theorem fetch_branch_from_exact:
  assumes "fork_reachable env d" "root d = Some r"
    "p \<in> insert r (set (index d))" "q \<in> insert r (set (index d))"
  shows "\<exists>ps qs e. fetch_branch_from d (id_of d p) (id_of d q) = Inr (ps, qs) \<and>
    e \<in> insert r (set (index d)) \<and> path d r p ps e \<and> path d r q qs e \<and> set ps \<inter> set qs = {}"
proof -
  obtain h where "fork_ok d r h" using reachable_fork_ok [OF assms(1)] assms(2) by (auto simp: fork_ok_def)
  from fetch_branch_from_spec [OF this assms(3,4)] show ?thesis by blast
qed

end
