(* ===== verification/Fork_Files.thy ===== *)
theory Fork_Files
  imports Fork_Branches
begin

text \<open>
  The file of the fork database: \<^const>\<open>close\<close> writes the blocks in an order in which every block follows
  its predecessor when irreversible numbers do not decrease along branches, the blocks of reachable
  databases are stored with their own extensions and accepted features, and \<^const>\<open>open_db\<close> rebuilds the
  database from the file.
\<close>

section \<open>The order of the file\<close>

abbreviation weight_of :: "('t, 'm) fork_db \<Rightarrow> ptr \<Rightarrow> u32 \<times> u32" where
  "weight_of d p \<equiv> (dpos_irreversible_blocknum (store d p), block_num (store d p))"

lemma lib_key_weight:
  assumes "lib_key (store d p) \<le> lib_key (store d q)" "valid_at d p = valid_at d q"
  shows "weight_of d q \<le> weight_of d p"
  using assms by (auto simp: lib_key_def valid_at_def word_less_def word_le_def less_eq_prod_def)

lemma close_merge_sorted:
  assumes "sorted (map (weight_of d) us)" "sorted (map (weight_of d) vs)"
  shows "mset (close_merge d us vs) = mset us + mset vs \<and> sorted (map (weight_of d) (close_merge d us vs))"
  using assms
proof (induction d us vs rule: close_merge.induct)
  case (1 d u us v vs)
  show ?case
  proof (cases "first_preferred (store d v) (store d u)")
    case True
    then have "mset (close_merge d us (v # vs)) = mset us + mset (v # vs) \<and> sorted (map (weight_of d) (close_merge d us (v # vs)))"
      using 1 by simp
    moreover from this have "set (close_merge d us (v # vs)) = set us \<union> set (v # vs)"
      by (metis set_mset_mset set_mset_union)
    ultimately show ?thesis using True 1(3,4) by (fastforce simp: first_preferred_def)
  next
    case False
    then have "mset (close_merge d (u # us) vs) = mset (u # us) + mset vs \<and> sorted (map (weight_of d) (close_merge d (u # us) vs))"
      using 1 by simp
    moreover from this have "set (close_merge d (u # us) vs) = set (u # us) \<union> set vs"
      by (metis set_mset_mset set_mset_union)
    ultimately show ?thesis using False 1(3,4) by (fastforce simp: first_preferred_def not_less)
  qed
qed auto

lemma sorted_weights:
  assumes "sorted (map (\<lambda>p. lib_key (store d p)) ps)" "\<And>p. p \<in> set ps \<Longrightarrow> valid_at d p = v"
  shows "sorted (map (weight_of d) (rev ps))"
  using assms
proof (induction ps)
  case (Cons a ps)
  then have "weight_of d x \<le> weight_of d a" if "x \<in> set ps" for x
    using that lib_key_weight [of d a x] by simp
  with Cons show ?case by (simp add: sorted_append del: less_eq_prod_simp)
qed simp

lemma sorted_dropWhile_valid:
  assumes "sorted (map (\<lambda>p. lib_key (store d p)) ps)" "p \<in> set (dropWhile (valid_at d) ps)"
  shows "\<not> valid_at d p"
  using assms
proof (induction ps)
  case (Cons q qs)
  then show ?case
    using lib_key_le_valid [of "store d q" "store d p"] by (auto simp: valid_at_def split: if_splits)
qed simp

lemma close_order_sorted:
  "mset (close_order d) = mset (index d)" "sorted (map (weight_of d) (close_order d))"
proof -
  let ?b = "by_lib_block_num d"
  have b: "sorted (map (\<lambda>p. lib_key (store d p)) ?b)" by (simp add: by_lib_block_num_def)
  then have bs: "sorted (map (\<lambda>p. lib_key (store d p)) (takeWhile (valid_at d) ?b))"
    "sorted (map (\<lambda>p. lib_key (store d p)) (dropWhile (valid_at d) ?b))"
    by (metis takeWhile_dropWhile_id map_append sorted_append)+
  have "sorted (map (weight_of d) (rev (takeWhile (valid_at d) ?b)))"
    by (rule sorted_weights [OF bs(1), of True]) (auto dest: set_takeWhileD)
  moreover have "sorted (map (weight_of d) (rev (dropWhile (valid_at d) ?b)))"
    by (rule sorted_weights [OF bs(2), of False]) (auto dest: sorted_dropWhile_valid [OF b])
  ultimately have m: "mset (close_order d) = mset (rev (dropWhile (valid_at d) ?b)) + mset (rev (takeWhile (valid_at d) ?b)) \<and>
      sorted (map (weight_of d) (close_order d))"
    unfolding close_order_def using close_merge_sorted by blast
  have "mset (takeWhile (valid_at d) ?b) + mset (dropWhile (valid_at d) ?b) = mset ?b"
    by (metis mset_append takeWhile_dropWhile_id)
  then show "mset (close_order d) = mset (index d)" using m by (simp add: by_lib_block_num_def add.commute)
  show "sorted (map (weight_of d) (close_order d))" using m by simp
qed

text \<open>Along a branch of a database whose irreversible numbers do not decrease, the weights increase.\<close>

definition lib_grows :: "('t, 'm) fork_db \<Rightarrow> ptr \<Rightarrow> bool" where
  "lib_grows d r \<longleftrightarrow> (\<forall>p \<in> set (index d). \<forall>q \<in> insert r (set (index d)).
     prev_of d p = id_of d q \<longrightarrow> dpos_irreversible_blocknum (store d q) \<le> dpos_irreversible_blocknum (store d p))"

lemma close_order_linked:
  assumes ok: "fork_ok d r h" and grows: "lib_grows d r" and split: "close_order d = ps @ p # qs"
  obtains q where "q = r \<or> q \<in> set ps" "prev_of d p = id_of d q"
proof -
  have sets: "set (close_order d) = set (index d)" using close_order_sorted(1) by (metis set_mset_mset)
  then have p: "p \<in> set (index d)" using split by auto
  then obtain q where q: "q \<in> insert r (set (index d))" "prev_of d p = id_of d q"
    "unat (block_num (store d p)) = unat (block_num (store d q)) + 1"
    using parent_of [OF ok p] by metis
  have "weight_of d q < weight_of d p"
    using grows p q by (auto simp: lib_grows_def less_prod_def word_less_nat_alt)
  moreover have "weight_of d p \<le> weight_of d s" if "s \<in> set (p # qs)" for s
    using close_order_sorted(2) [of d] that unfolding split by (auto simp: sorted_append)
  ultimately have "q \<notin> set (p # qs)" by (metis leD)
  then show ?thesis using q that sets split by auto
qed

section \<open>Reading the file\<close>

lemma packed_header_eq:
  assumes "packed_header a = packed_header b"
  shows "block_id a = block_id b" "header a = header b" "block_num a = block_num b"
    "dpos_irreversible_blocknum a = dpos_irreversible_blocknum b"
    "activated_protocol_features a = activated_protocol_features b"
  using assms by (simp_all add: packed_header_def header_state.defs)

lemma unpacked_block_packed:
  fixes s :: "('t, 'm) block_state"
  assumes "block s = Some b" "validate_and_extract_header_extensions env b = Inr (header_exts s)"
  obtains u :: "('t, 'm) block_state" where "unpacked_block env (packed_block s) = Inr u" "packed_block u = packed_block s"
    "header_exts u = header_exts s"
  using assms by (simp add: unpacked_block_def packed_block_def packed_header_def header_state.defs block_state.defs)

text \<open>
  What the file relies on: the extensions of a block state are those of its block, and the
  features of a block are accepted on top of its predecessor.
\<close>

definition storable :: "chain_env \<Rightarrow> ('t, 'm) fork_db \<Rightarrow> ptr \<Rightarrow> bool" where
  "storable env d r \<longleftrightarrow> (\<forall>p \<in> set (index d).
     (\<exists>b. block (store d p) = Some b \<and> validate_and_extract_header_extensions env b = Inr (header_exts (store d p))) \<and>
     (\<forall>q \<in> insert r (set (index d)). prev_of d p = id_of d q \<longrightarrow> validate_features env d p q = Inr ()))"

text \<open>The database \<open>d'\<close> holds a copy of the root and of the blocks \<open>ps\<close> of \<open>d\<close>.\<close>

definition copy_of :: "('t, 'm) fork_db \<Rightarrow> ('t, 'm) fork_db \<Rightarrow> ptr \<Rightarrow> ptr \<Rightarrow> bool" where
  "copy_of d d' p' p \<longleftrightarrow>
     packed_block (store d' p') = packed_block (store d p) \<and> header_exts (store d' p') = header_exts (store d p)"

definition copied :: "('t, 'm) fork_db \<Rightarrow> ptr \<Rightarrow> ptr list \<Rightarrow> ('t, 'm) fork_db \<Rightarrow> ptr \<Rightarrow> bool" where
  "copied d r ps d' r' \<longleftrightarrow>
     root d' = Some r' \<and> packed_header (store d' r') = packed_header (store d r) \<and>
     list_all2 (copy_of d d') (index d') ps \<and> (\<forall>p \<in> insert r' (set (index d')). p < next_ptr d')"

lemma copy_of_eq:
  assumes "copy_of d d' p' p"
  shows "packed_header (store d' p') = packed_header (store d p)" "valid_at d' p' = valid_at d p"
  using assms by (simp_all add: copy_of_def packed_block_def valid_at_def is_valid_def)

lemma same_header_access:
  assumes "packed_header (store d' p') = packed_header (store d p)"
  shows "id_of d' p' = id_of d p" "prev_of d' p' = prev_of d p"
    "activated_protocol_features (store d' p') = activated_protocol_features (store d p)"
    "timestamp (header (store d' p')) = timestamp (header (store d p))"
  using packed_header_eq [OF assms] by (simp_all add: id_of_def prev_of_def)

lemma first_preferred_copies:
  assumes "packed_header (store d' p') = packed_header (store d p)" "packed_header (store d' q') = packed_header (store d q)"
  shows "first_preferred (store d' p') (store d' q') = first_preferred (store d p) (store d q)"
  using packed_header_eq [OF assms(1)] packed_header_eq [OF assms(2)] by (simp add: first_preferred_def)

lemma copied_ids:
  assumes "copied d r ps d' r'"
  shows "id_of d' r' = id_of d r" "map (id_of d') (index d') = map (id_of d) ps"
proof -
  have c: "packed_header (store d' r') = packed_header (store d r)" "list_all2 (copy_of d d') (index d') ps"
    using assms by (simp_all add: copied_def)
  show "id_of d' r' = id_of d r" by (rule same_header_access [OF c(1)])
  from c(2) show "map (id_of d') (index d') = map (id_of d) ps"
    by (induction rule: list_all2_induct) (simp_all add: same_header_access [OF copy_of_eq(1)])
qed

lemma copied_lookup:
  assumes copied: "copied d r ps d' r'" and q: "q \<in> insert r (set ps)"
  obtains q' where "q' \<in> insert r' (set (index d'))"
    "(if id_of d' r' = id_of d q then Some r' else get_block d' (id_of d q)) = Some q'"
    "id_of d' q' = id_of d q"
proof (cases "id_of d r = id_of d q")
  case True
  then show ?thesis using that [of r'] copied_ids(1) [OF copied] by simp
next
  case False
  then have "id_of d q \<in> set (map (id_of d) ps)" using q by auto
  then have "id_of d q \<in> ids d'" unfolding copied_ids(2) [OF copied, symmetric] by (simp add: ids_def)
  then obtain q' where "get_block d' (id_of d q) = Some q'" using get_block_None by blast
  moreover from this have "q' \<in> set (index d')" "id_of d' q' = id_of d q"
    by (auto simp: get_block_def dest: find_by_SomeD)
  ultimately show ?thesis using that [of q'] False copied_ids(1) [OF copied] by simp
qed

lemma copied_same_id:
  assumes copied: "copied d r ps d' r'" and forest: "forest d {id_of d r}" and ps: "set ps \<subseteq> set (index d)"
    and q: "q \<in> insert r (set ps)" and q': "q' \<in> insert r' (set (index d'))" "id_of d' q' = id_of d q"
  shows "packed_header (store d' q') = packed_header (store d q)" "q \<in> set ps \<Longrightarrow> valid_at d' q' = valid_at d q"
proof -
  have root: "packed_header (store d' r') = packed_header (store d r)" and l: "list_all2 (copy_of d d') (index d') ps"
    using copied by (simp_all add: copied_def)
  have *: "packed_header (store d' q') = packed_header (store d q) \<and> (q \<in> set ps \<longrightarrow> valid_at d' q' = valid_at d q)"
  proof (cases "q' = r'")
    case True
    then have "id_of d q = id_of d r" using q'(2) copied_ids(1) [OF copied] by simp
    then have "q = r" using same_id [OF forest, of q r] q ps by blast
    then show ?thesis using True root root_not_in_index [OF forest] ps by auto
  next
    case False
    then obtain i where i: "i < length (index d')" "q' = index d' ! i" using q'(1) by (auto simp: in_set_conv_nth)
    then have c: "copy_of d d' q' (ps ! i)" "i < length ps" using l by (auto simp: list_all2_conv_all_nth)
    have "id_of d (ps ! i) = id_of d q" using q'(2) same_header_access(1) [OF copy_of_eq(1) [OF c(1)]] by simp
    then have "ps ! i = q" using same_id [OF forest, of "ps ! i" q] q ps c(2) nth_mem by blast
    then show ?thesis using copy_of_eq [OF c(1)] by simp
  qed
  then show "packed_header (store d' q') = packed_header (store d q)" "q \<in> set ps \<Longrightarrow> valid_at d' q' = valid_at d q"
    by blast+
qed

section \<open>What reachable databases store\<close>

definition features_accepted :: "chain_env \<Rightarrow> 'a header_state_scheme \<Rightarrow> 'b header_state_scheme \<Rightarrow> bool" where
  "features_accepted env prev s \<longleftrightarrow> (0 < ext_count (header_exts s) protocol_feature_activation_id \<longrightarrow>
     (\<exists>u. rbind (rbind (ext_lower_bound (header_exts s) protocol_feature_activation_id) get_activation)
       (validator env (timestamp (header s)) (activated_protocol_features prev)) = Inr u))"

lemma validate_features_iff:
  "validate_features env d n q = Inr () \<longleftrightarrow> features_accepted env (store d q) (store d n)"
  by (auto simp: validate_features_def features_accepted_def Let_def split: sum.splits)

definition stored_on :: "chain_env \<Rightarrow> 'a header_state_scheme \<Rightarrow> ('t, 'm) block_state \<Rightarrow> bool" where
  "stored_on env prev s \<longleftrightarrow>
     (\<exists>b. block s = Some b \<and> validate_and_extract_header_extensions env b = Inr (header_exts s)) \<and>
     features_accepted env prev s"

lemma finish_next_common_stored:
  fixes p :: pending_header_state
  assumes "finish_next_common env p h = Inr s" "prev_activated_protocol_features p = activated_protocol_features prev"
  shows "validate_and_extract_header_extensions env h = Inr (header_exts s)" "features_accepted env prev s"
proof -
  from assms(1) have s: "check_header_matches p h = Inr ()" "header s = h"
    "new_features_of_header env p (header_exts s) = Inr (activated_protocol_features s)"
    and "validate_and_extract_header_extensions env h = Inr (header_exts s)"
    by (auto elim: finish_next_common_effect)
  then show "validate_and_extract_header_extensions env h = Inr (header_exts s)" by simp
  have "timestamp h = pending_timestamp p" using s(1) by (simp add: check_header_matches_iff)
  then show "features_accepted env prev s"
    using s assms(2)
    by (auto simp: features_accepted_def new_features_of_header_def protocol_feature_activation_id_def split: if_splits)
qed

lemma header_next_features:
  fixes p :: pending_header_state
  assumes "header_next env prev when n = Inr p"
  shows "prev_activated_protocol_features p = activated_protocol_features prev"
  using assms by (auto elim: header_next_effect)

lemma extract_cong:
  "header_extensions h = header_extensions h' \<Longrightarrow>
   validate_and_extract_header_extensions env h = validate_and_extract_header_extensions env h'"
  by (simp add: validate_and_extract_header_extensions_def)

lemma features_accepted_cong:
  assumes "header_exts s = header_exts s'" "timestamp (header s) = timestamp (header s')"
    "activated_protocol_features prev = activated_protocol_features prev'"
  shows "features_accepted env prev s = features_accepted env prev' s'"
  unfolding features_accepted_def assms ..

lemma received_stored_on:
  fixes bs :: "('t, 'm) block_state"
  assumes "block_state_received env prev b skip = Inr bs"
  shows "stored_on env prev bs"
proof -
  from assms obtain sigs s where s: "next_header env prev (signed_block_header.truncate b) sigs skip = Inr s"
    "bs = header_state.extend s (block_state.fields (Some b) False False [])"
    unfolding block_state_received_def by auto
  from s(1) obtain p :: pending_header_state where
    p: "header_next env prev (timestamp b) (confirmed b) = Inr p"
    "finish_next env p (signed_block_header.truncate b) sigs skip = Inr s"
    unfolding next_header_def by (auto simp: signed_block_header.defs)
  from p(2) obtain s0 where s0: "finish_next_common env p (signed_block_header.truncate b) = Inr s0"
    "s = s0 \<lparr> additional_signatures := sigs \<rparr>"
    by (rule finish_next_effect)
  note f = finish_next_common_stored [OF s0(1) header_next_features [OF p(1)]]
  have same: "header_exts bs = header_exts s0" "header bs = header s0" "block bs = Some b"
    by (simp_all add: s(2) s0(2) header_state.defs block_state.defs)
  have "validate_and_extract_header_extensions env b = Inr (header_exts bs)"
    using f(1) extract_cong [of b "signed_block_header.truncate b" env] by (simp add: same signed_block_header.defs)
  then show ?thesis
    using f(2) features_accepted_cong [of bs s0 prev prev env] same by (simp add: stored_on_def)
qed

lemma produced_stored_on:
  fixes bs :: "('t, 'm) block_state" and cur :: pending_header_state
  assumes "header_next env prev when n = Inr cur" "block_state_produced env cur b trxs signer = Inr bs"
  shows "stored_on env prev bs"
proof -
  from assms(2) obtain s b' where s: "inject_additional_signatures env cur b signer = Inr (s, b')"
    "bs = header_state.extend s (block_state.fields (Some b') False True trxs)"
    unfolding block_state_produced_def by auto
  from s(1) obtain h where h: "finish_next_signed env cur (signed_block_header.truncate b) signer = Inr (s, h)"
    and b': "header_extensions b' = header_extensions b"
    by (auto simp: inject_additional_signatures_def Let_def split: if_splits)
  from h obtain s0 where s0: "finish_next_common env cur (signed_block_header.truncate b) = Inr s0"
    "sign env s0 signer = Inr s"
    by (auto simp: finish_next_signed_def Let_def)
  note f = finish_next_common_stored [OF s0(1) header_next_features [OF assms(1)]]
  have same: "header_exts bs = header_exts s0" "timestamp (header bs) = timestamp (header s0)" "block bs = Some b'"
    using s0(2) by (auto simp: s(2) sign_def Let_def header_state.defs block_state.defs)
  have "validate_and_extract_header_extensions env b' = Inr (header_exts bs)"
    using f(1) extract_cong [of b' "signed_block_header.truncate b" env] b' by (simp add: same signed_block_header.defs)
  then show ?thesis
    using f(2) features_accepted_cong [of bs s0 prev prev env] same by (simp add: stored_on_def)
qed

text \<open>Every block of the database is stored on every block that has the id of its predecessor.\<close>

definition all_stored :: "chain_env \<Rightarrow> ('t, 'm) fork_db \<Rightarrow> ptr \<Rightarrow> bool" where
  "all_stored env d r \<longleftrightarrow> (\<forall>p \<in> set (index d). \<forall>q \<in> insert r (set (index d)).
     prev_of d p = id_of d q \<longrightarrow> stored_on env (store d q) (store d p))"

lemma all_stored_sub:
  assumes "all_stored env d r" "store d' = store d" "set (index d') \<subseteq> set (index d)" "r' \<in> insert r (set (index d))"
  shows "all_stored env d' r'"
  using assms access_cong [OF assms(2)] unfolding all_stored_def by (metis insertCI insertE subsetD)

lemma all_stored_same_blocks:
  assumes "same_blocks d' d" "all_stored env d r"
  shows "all_stored env d' r"
proof -
  have "(store d' p) \<lparr> validated := False \<rparr> = (store d p) \<lparr> validated := False \<rparr>" for p
    using assms(1) by (simp add: same_blocks_def)
  then have "header_state.truncate ((store d' p) \<lparr> validated := False \<rparr>) = header_state.truncate ((store d p) \<lparr> validated := False \<rparr>)"
    "block ((store d' p) \<lparr> validated := False \<rparr>) = block ((store d p) \<lparr> validated := False \<rparr>)" for p by simp_all
  then have "header_exts (store d' p) = header_exts (store d p)" "header (store d' p) = header (store d p)"
    "activated_protocol_features (store d' p) = activated_protocol_features (store d p)"
    "block (store d' p) = block (store d p)" for p
    by (simp_all add: header_state.defs)
  then have "stored_on env (store d' q) (store d' p) = stored_on env (store d q) (store d p)" for p q
    unfolding stored_on_def using features_accepted_cong by metis
  then show ?thesis
    using assms same_blocks_access(1,2) [OF assms(1)] by (simp add: all_stored_def same_blocks_def)
qed

lemma same_blocks_head: "same_blocks (d \<lparr> head := h \<rparr>) d' = same_blocks d d'"
  by (simp add: same_blocks_def)

lemma same_blocks_refl: "same_blocks d d"
  by (simp add: same_blocks_def)

lemma mark_valid_blocks: "mark_valid b d = Inr d' \<Longrightarrow> same_blocks d' d"
  using same_blocks_set_validated
  by (auto simp: mark_valid_def Let_def same_blocks_head same_blocks_refl split: if_splits option.splits)

lemma rollback_blocks: "same_blocks (rollback_head_to_root d) d"
  using fold_set_validated [of False "index d" d] by (simp add: rollback_head_to_root_def same_blocks_head)

lemma remove_blocks:
  assumes "fork_ok d r h" "remove x d = Inr d'"
  shows "store d' = store d" "set (index d') \<subseteq> set (index d)"
  using assms by (auto simp: fork_ok_def remove_keep split: if_splits)

lemma advance_root_blocks:
  assumes ok: "fork_ok d r h" and adv: "advance_root x d = (Inr u, d')"
  obtains n where "root d' = Some n" "n \<in> set (index d)" "store d' = store d" "set (index d') \<subseteq> set (index d)"
proof -
  have forest: "forest d {id_of d r}" and hd: "head d = Some h" and rt: "root d = Some r"
    and h: "h = r \<or> h \<in> set (index d)"
    using ok by (auto simp: fork_ok_def head_ok_def)
  from adv rt obtain n where n: "get_block d x = Some n" "valid_at d n"
    by (auto simp: advance_root_def split: option.splits if_splits)
  then have x: "n \<in> set (index d)" "x = id_of d n" by (simp_all add: get_block_iff [OF forest])
  from advance_root_spec [OF rt hd forest h x(1) n(2)] adv
  have "d' = (keep (below d (id_of d n)) d) \<lparr> root := Some n \<rparr>" by (auto simp: x split: if_splits)
  then show ?thesis using that x by auto
qed

lemma all_stored_add:
  assumes ok: "fork_ok d r h" and stored: "all_stored env d r" and q: "q \<in> set (index d) \<or> root d = Some q"
    and num: "unat (block_num (store d q)) < 4294967295"
    and b: "built_on (store d q) bs" "stored_on env (store d q) bs" "make_shared bs d = (p, d1)"
      "add env (Some p) ign d1 = Inr d2"
  shows "all_stored env d2 r"
proof -
  note ms = fork_ok_make_shared [OF ok b(3)]
  obtain h2 where ok2: "fork_ok d2 r h2" using fork_ok_add_built [OF ok q num b(1,3,4)] by blast
  have forest2: "forest d2 {id_of d2 r}" using ok2 by (simp add: fork_ok_def)
  have q: "q \<in> insert r (set (index d))" using q ok by (auto simp: fork_ok_def)
  have store2: "store d2 = store d1" and index2: "index d2 = index d1 \<or> index d2 = index d1 @ [p]"
    using b(4) by (auto simp: add_def add_impl_def Let_def split: if_splits option.splits)
  have old: "store d2 s = store d s" if "s \<in> insert r (set (index d))" for s
    using that ok store2 ms(6) by (auto simp: fork_ok_def)
  have new: "store d2 p = bs" using ms(3) store2 by simp
  have sub: "insert r (set (index d)) \<subseteq> insert r (set (index d2))" "set (index d2) \<subseteq> insert p (set (index d))"
    using index2 ms(4) by auto
  have fresh: "p \<notin> insert r (set (index d))" using ok ms(2) by (auto simp: fork_ok_def)
  have acc: "id_of d2 s = id_of d s" "prev_of d2 s = prev_of d s" if "s \<in> insert r (set (index d))" for s
    using old [OF that] by (simp_all add: fork_access)
  have prev_p: "prev_of d2 p = id_of d2 q" using b(1) new acc(1) [OF q] by (simp add: built_on_def fork_access)
  show ?thesis unfolding all_stored_def
  proof (intro ballI impI)
    fix s t assume s: "s \<in> set (index d2)" and t: "t \<in> insert r (set (index d2))" and st: "prev_of d2 s = id_of d2 t"
    show "stored_on env (store d2 t) (store d2 s)"
    proof (cases "s = p")
      case True
      then have "t = q" using same_id [OF forest2 t, of q] sub(1) q st prev_p by auto
      then show ?thesis using True b(2) new old [OF q] by simp
    next
      case False
      then have s': "s \<in> set (index d)" using s sub(2) by blast
      obtain t' where t': "t' \<in> insert r (set (index d))" "prev_of d s = id_of d t'"
        using parent_of [OF ok s'] by metis
      then have "id_of d2 t = id_of d2 t'" using st s' acc by simp
      then have "t = t'" using same_id [OF forest2 t, of t'] sub(1) t'(1) by auto
      moreover have "stored_on env (store d t') (store d s)" using stored s' t' unfolding all_stored_def by blast
      ultimately show ?thesis using s' t'(1) old by simp
    qed
  qed
qed

lemma reachable_all_stored:
  "fork_reachable env d \<Longrightarrow> root d = Some r \<Longrightarrow> all_stored env d r"
proof (induction arbitrary: r rule: fork_reachable.induct)
  case (reset s d)
  then show ?case by (simp add: all_stored_def reset_def make_shared_def)
next
  case (receive d q b skip bs p d1 ign d2)
  obtain r' h where ok: "fork_ok d r' h" using reachable_fork_ok [OF receive(1)] by blast
  then have "all_stored env d r'" using receive.IH by (simp add: fork_ok_def)
  note add = all_stored_add [OF ok this receive(2,3) received_built_on [OF receive(4)] received_stored_on [OF receive(4)]
      receive(5,6)]
  have "root d2 = Some r'"
    using fork_ok_add_built [OF ok receive(2,3) received_built_on [OF receive(4)] receive(5,6)] by (auto simp: fork_ok_def)
  with add receive.prems show ?case by simp
next
  case (produce d q t n cur b trxs signer bs p d1 ign d2)
  obtain r' h where ok: "fork_ok d r' h" using reachable_fork_ok [OF produce(1)] by blast
  then have "all_stored env d r'" using produce.IH by (simp add: fork_ok_def)
  note add = all_stored_add [OF ok this produce(2,3) produced_built_on [OF produce(4,5)] produced_stored_on [OF produce(4,5)]
      produce(6,7)]
  have "root d2 = Some r'"
    using fork_ok_add_built [OF ok produce(2,3) produced_built_on [OF produce(4,5)] produce(6,7)] by (auto simp: fork_ok_def)
  with add produce.prems show ?case by simp
next
  case (mark d b d')
  then show ?case using mark_valid_blocks all_stored_same_blocks by (metis same_blocks_def)
next
  case (remove d x d')
  obtain r' h where ok: "fork_ok d r' h" using reachable_fork_ok [OF remove(1)] by blast
  then have "root d = Some r'" "root d' = Some r'" using fork_ok_remove [OF ok remove(2)] by (simp_all add: fork_ok_def)
  then show ?case using all_stored_sub [of env d r' d' r'] remove_blocks [OF ok remove(2)] remove.IH remove.prems by simp
next
  case (advance d x u d')
  obtain r' h where ok: "fork_ok d r' h" using reachable_fork_ok [OF advance(1)] by blast
  then obtain n where "root d' = Some n" "n \<in> set (index d)" "store d' = store d" "set (index d') \<subseteq> set (index d)"
    using advance_root_blocks [OF ok advance(2)] by blast
  moreover have "all_stored env d r'" using ok advance.IH by (simp add: fork_ok_def)
  ultimately show ?case using all_stored_sub [of env d r' d' n] advance.prems by simp
next
  case (rollback d)
  then show ?case using rollback_blocks all_stored_same_blocks by (metis same_blocks_def)
qed

lemma reachable_storable:
  assumes "fork_reachable env d" "root d = Some r"
  shows "storable env d r"
proof -
  obtain h where ok: "fork_ok d r h" using reachable_fork_ok [OF assms(1)] assms(2) by (auto simp: fork_ok_def)
  have stored: "all_stored env d r" by (rule reachable_all_stored [OF assms])
  show ?thesis unfolding storable_def
  proof (intro ballI conjI impI)
    fix p assume p: "p \<in> set (index d)"
    obtain q where "q \<in> insert r (set (index d))" "prev_of d p = id_of d q" using parent_of [OF ok p] by metis
    then have "stored_on env (store d q) (store d p)" using stored p unfolding all_stored_def by blast
    then show "\<exists>b. block (store d p) = Some b \<and> validate_and_extract_header_extensions env b = Inr (header_exts (store d p))"
      by (simp add: stored_on_def)
  next
    fix p q assume "p \<in> set (index d)" "q \<in> insert r (set (index d))" "prev_of d p = id_of d q"
    then have "stored_on env (store d q) (store d p)" using stored unfolding all_stored_def by blast
    then show "validate_features env d p q = Inr ()" by (simp add: validate_features_iff stored_on_def)
  qed
qed

lemma fst_make_shared: "fst (make_shared b d) = next_ptr d"
  by (simp add: make_shared_def)

lemma add_impl_succeeds:
  assumes "root d = Some r" "get_block_header d (prev_of d n) = Inr (Some q)" "validate_features env d n q = Inr ()"
    "get_block d (id_of d n) = None"
  obtains c where "add_impl env (Some n) ign True d = Inr (d \<lparr> index := index d @ [n], head := c \<rparr>)"
proof -
  let ?d = "d \<lparr> index := index d @ [n] \<rparr>"
  let ?c = "if valid_at ?d (hd (by_lib_block_num ?d)) then Some (hd (by_lib_block_num ?d)) else head d"
  have "add_impl env (Some n) ign True d = Inr (d \<lparr> index := index d @ [n], head := ?c \<rparr>)"
    using assms by (simp add: add_impl_def Let_def)
  then show ?thesis by (rule that)
qed

lemma copied_make_shared:
  assumes "copied d r ps d' r'"
  shows "copied d r ps (snd (make_shared u d')) r'"
proof -
  have "store (snd (make_shared u d')) s = store d' s" if "s \<in> insert r' (set (index d'))" for s
    using that assms by (auto simp: make_shared_def copied_def)
  moreover have "list_all2 (copy_of d d') (index d') ps" using assms by (simp add: copied_def)
  ultimately have "list_all2 (copy_of d (snd (make_shared u d'))) (index d') ps"
    by (auto simp: copy_of_def list_all2_conv_all_nth)
  then show ?thesis using assms by (auto simp: copied_def make_shared_def)
qed

lemma copy_of_update: "copy_of d (d' \<lparr> index := ps, head := c \<rparr>) = copy_of d d'"
  by (simp add: copy_of_def fun_eq_iff)

lemma open_add_step:
  fixes d d' :: "('t, 'm) fork_db"
  assumes ok: "fork_ok d r h" and st: "storable env d r" and copied: "copied d r ps d' r'"
    and ps: "set ps \<subseteq> set (index d)" and p: "p \<in> set (index d)" "p \<notin> set ps"
    and q: "q \<in> insert r (set ps)" "prev_of d p = id_of d q"
  shows "\<exists>d''. open_add env (packed_block (store d p)) d' = Inr d'' \<and> copied d r (ps @ [p]) d'' r'"
proof -
  have forest: "forest d {id_of d r}" using ok by (simp add: fork_ok_def)
  obtain b where "block (store d p) = Some b" "validate_and_extract_header_extensions env b = Inr (header_exts (store d p))"
    using st p(1) unfolding storable_def by blast
  then obtain u :: "('t, 'm) block_state" where u: "unpacked_block env (packed_block (store d p)) = Inr u"
      "packed_block u = packed_block (store d p)" "header_exts u = header_exts (store d p)"
    by (rule unpacked_block_packed)
  let ?n = "next_ptr d'" and ?d = "snd (make_shared u d')"
  have copied1: "copied d r ps ?d r'" by (rule copied_make_shared [OF copied])
  have n: "store ?d ?n = u" "index ?d = index d'" "root ?d = Some r'" "next_ptr ?d = Suc ?n"
    using copied by (simp_all add: make_shared_def copied_def)
  then have cn: "copy_of d ?d ?n p" using u by (simp add: copy_of_def)
  note acc = same_header_access [OF copy_of_eq(1) [OF cn]]
  obtain q' where q': "q' \<in> insert r' (set (index ?d))"
      "(if id_of ?d r' = id_of d q then Some r' else get_block ?d (id_of d q)) = Some q'" "id_of ?d q' = id_of d q"
    by (rule copied_lookup [OF copied1 q(1)])
  then have prev: "get_block_header ?d (prev_of ?d ?n) = Inr (Some q')"
    using n(3) acc(2) q(2) by (auto simp: get_block_header_def split: if_splits)
  have "validate_features env d p q = Inr ()" using st p(1) q ps by (auto simp: storable_def)
  then have feat: "validate_features env ?d ?n q' = Inr ()"
    unfolding validate_features_def n(1) u(3) acc(4) [unfolded n(1)]
      same_header_access(3) [OF copied_same_id(1) [OF copied1 forest ps q(1) q'(1,3)]] .
  have "id_of d p \<notin> set (map (id_of d) ps)" using id_inject [OF forest] p ps by auto
  then have "get_block ?d (id_of ?d ?n) = None"
    unfolding get_block_None acc(1) copied_ids(2) [OF copied1, symmetric] by (simp add: ids_def)
  with n(3) prev feat obtain c where
    "add_impl env (Some ?n) False True ?d = Inr (?d \<lparr> index := index ?d @ [?n], head := c \<rparr>)"
    by (rule add_impl_succeeds)
  then have "open_add env (packed_block (store d p)) d' = Inr (?d \<lparr> index := index ?d @ [?n], head := c \<rparr>)"
    using u(1) by (simp add: open_add_def split_def fst_make_shared)
  moreover have "copied d r (ps @ [p]) (?d \<lparr> index := index ?d @ [?n], head := c \<rparr>) r'"
    using copied1 cn n by (simp add: copied_def copy_of_update list_all2_appendI)
  ultimately show ?thesis by blast
qed

lemma open_all:
  assumes ok: "fork_ok d r h" and grows: "lib_grows d r" and st: "storable env d r"
    and "copied d r ps d' r'" "close_order d = ps @ qs"
  shows "\<exists>d''. rfold (open_add env) (map (\<lambda>p. packed_block (store d p)) qs) d' = Inr d'' \<and> copied d r (ps @ qs) d'' r'"
  using assms(4,5)
proof (induction qs arbitrary: ps d')
  case (Cons p qs)
  have order: "mset (close_order d) = mset (index d)" by (rule close_order_sorted)
  have "distinct (index d)" using ok by (auto simp: fork_ok_def forest_def distinct_map)
  then have "distinct (ps @ p # qs)" "set (ps @ p # qs) = set (index d)"
    using order Cons.prems(2) by (metis mset_eq_imp_distinct_iff, metis mset_eq_setD)
  moreover obtain q where "q = r \<or> q \<in> set ps" "prev_of d p = id_of d q"
    using close_order_linked [OF ok grows Cons.prems(2)] by blast
  ultimately obtain d1 where "open_add env (packed_block (store d p)) d' = Inr d1" "copied d r (ps @ [p]) d1 r'"
    using open_add_step [OF ok st Cons.prems(1), of p q] by auto
  with Cons.IH [of "ps @ [p]" d1] Cons.prems(2) show ?case by simp
qed simp

lemma open_head_copied:
  assumes ok: "fork_ok d r h" and copied: "copied d r (close_order d) d' r'"
  shows "\<exists>h'. open_head (id_of d h) d' = Inr (d' \<lparr> head := Some h' \<rparr>) \<and> id_of d' h' = id_of d h"
proof -
  have forest: "forest d {id_of d r}" and h: "h \<in> insert r (set (index d))" "valid_at d h"
    and best: "\<And>p. p \<in> set (index d) \<Longrightarrow> valid_at d p \<Longrightarrow> \<not> first_preferred (store d p) (store d h)"
    using ok by (auto simp: fork_ok_def head_ok_def)
  have sets: "set (close_order d) = set (index d)" using close_order_sorted(1) by (metis set_mset_mset)
  obtain h' where h': "h' \<in> insert r' (set (index d'))"
      "(if id_of d' r' = id_of d h then Some r' else get_block d' (id_of d h)) = Some h'" "id_of d' h' = id_of d h"
    using copied_lookup [OF copied, of h] h(1) sets by auto
  note copy = copied_same_id [OF copied forest]
  have hh: "packed_header (store d' h') = packed_header (store d h)" using copy(1) [of h h'] h h' sets by simp
  let ?c = "hd (by_lib_block_num d')"
  have "id_of d h = id_of d r" if "by_lib_block_num d' = [] \<or> \<not> valid_at d' ?c"
  proof (rule ccontr)
    assume "id_of d h \<noteq> id_of d r"
    then have "h \<in> set (close_order d)" "h' \<in> set (index d')" using h h' copied_ids(1) [OF copied] sets by auto
    then show False using that candidate_best(1) [of h' d'] copy(2) [of h h'] h' h(2) sets set_by_lib [of d'] by auto
  qed
  moreover have "\<not> first_preferred (store d' ?c) (store d' h')" if nonempty: "by_lib_block_num d' \<noteq> []" and cand: "valid_at d' ?c"
  proof -
    have "?c \<in> set (index d')" using nonempty set_by_lib [of d'] hd_in_set by metis
    moreover from this have "id_of d' ?c \<in> set (map (id_of d) (close_order d))"
      unfolding copied_ids(2) [OF copied, symmetric] by simp
    ultimately obtain p where "p \<in> set (index d)" "packed_header (store d' ?c) = packed_header (store d p)" "valid_at d p"
      using copy [of _ ?c] cand sets by fastforce
    then show ?thesis using best first_preferred_copies [OF _ hh] by metis
  qed
  moreover have "root d' = Some r'" using copied by (simp add: copied_def)
  ultimately have "open_head (id_of d h) d' = Inr (d' \<lparr> head := Some h' \<rparr>)"
    using h'(2,3) copied_ids(1) [OF copied]
    by (auto simp: open_head_def Let_def eos_assert_def rbind_def split: if_splits)
  with h'(3) show ?thesis by blast
qed

lemma copied_reset: "copied d r [] (reset (packed_header (store d r)) d0) (next_ptr d0)"
  by (simp add: copied_def reset_def make_shared_def block_state_of_header_def packed_header_def
      header_state.defs block_state.defs)

text \<open>
  C19: closing a reachable fork database and opening the file gives the same blocks, with the
  same validation marks, the same root and the same head, provided that irreversible numbers do
  not decrease along the branches.
\<close>

theorem close_open_roundtrip:
  fixes d d0 :: "('t, 'm) fork_db"
  assumes "fork_reachable env d" "root d = Some r" "lib_grows d r"
  shows "\<exists>file d'. close None d = (d \<lparr> index := [] \<rparr>, Some file) \<and> open_db env (Some file) d0 = Inr (d', None) \<and>
    mset (map (\<lambda>p. packed_block (store d' p)) (index d')) = mset (map (\<lambda>p. packed_block (store d p)) (index d)) \<and>
    map_option (\<lambda>p. packed_header (store d' p)) (root d') = map_option (\<lambda>p. packed_header (store d p)) (root d) \<and>
    map_option (id_of d') (head d') = map_option (id_of d) (head d)"
proof -
  obtain h where ok: "fork_ok d r h" using reachable_fork_ok [OF assms(1)] assms(2) by (auto simp: fork_ok_def)
  then have head: "head d = Some h" by (simp add: fork_ok_def)
  obtain d1 :: "('t, 'm) fork_db" where d1: "rfold (open_add env) (map (\<lambda>p. packed_block (store d p)) (close_order d))
      (reset (packed_header (store d r)) d0) = Inr d1" "copied d r (close_order d) d1 (next_ptr d0)"
    using open_all [OF ok assms(3) reachable_storable [OF assms(1,2)] copied_reset, of "close_order d" d0] by auto
  then obtain h' where h': "open_head (id_of d h) d1 = Inr (d1 \<lparr> head := Some h' \<rparr>)" "id_of d1 h' = id_of d h"
    using open_head_copied [OF ok] by blast
  let ?d' = "d1 \<lparr> head := Some h' \<rparr>"
  have "map (\<lambda>p. packed_block (store d1 p)) (index d1) = map (\<lambda>p. packed_block (store d p)) (close_order d)"
    using d1(2) by (auto simp: copied_def copy_of_def list_all2_conv_all_nth intro: nth_equalityI)
  then have "mset (map (\<lambda>p. packed_block (store d1 p)) (index d1)) = mset (map (\<lambda>p. packed_block (store d p)) (index d))"
    by (metis mset_map close_order_sorted(1))
  moreover have "id_of ?d' h' = id_of d h" using h'(2) by (simp add: id_of_def)
  ultimately show ?thesis using assms(2) head d1 h'(1)
    by (simp add: close_def open_db_def magic_number_def min_supported_version_def max_supported_version_def copied_def)
qed

end
