(* ===== verification/Fork_Refinement.thy ===== *)
theory Fork_Refinement
  imports Fork_Files
begin

text \<open>
  The specification of the fork database as a map from ids to blocks with a root and a head, and
  the refinement: the abstraction of every reachable database is reachable in the specification.
\<close>

section \<open>The abstract tree of blocks\<close>

text \<open>
  The specification of the fork database: a map from ids to blocks, a root block and the id of the
  head, with no pointers, indices or walks.
\<close>

record ('t, 'm) block_tree =
  blocks :: "digest \<rightharpoonup> ('t, 'm) block_state"
  root_block :: "('t, 'm) block_state"
  head_id :: digest

inductive tree_below :: "('t, 'm) block_tree \<Rightarrow> digest \<Rightarrow> digest \<Rightarrow> bool" for t x where
  child: "blocks t y = Some b \<Longrightarrow> previous (header b) = x \<Longrightarrow> tree_below t x y"
| deeper: "tree_below t x z \<Longrightarrow> blocks t y = Some b \<Longrightarrow> previous (header b) = z \<Longrightarrow> tree_below t x y"

definition tree_block :: "('t, 'm) block_tree \<Rightarrow> digest \<Rightarrow> ('t, 'm) block_state option" where
  "tree_block t x = (if x = block_id (root_block t) then Some (root_block t) else blocks t x)"

definition best_head :: "('t, 'm) block_tree \<Rightarrow> bool" where
  "best_head t \<longleftrightarrow> (\<exists>h. tree_block t (head_id t) = Some h \<and> validated h \<and>
     (\<forall>x b. blocks t x = Some b \<longrightarrow> validated b \<longrightarrow> \<not> first_preferred b h))"

inductive tree_reachable :: "('t, 'm) block_tree \<Rightarrow> bool" where
  start: "validated b \<Longrightarrow> tree_reachable \<lparr> blocks = Map.empty, root_block = b, head_id = block_id b \<rparr>"
| add: "tree_reachable t \<Longrightarrow> tree_block t (block_id b) = None \<Longrightarrow> tree_block t (previous (header b)) = Some q \<Longrightarrow>
    built_on q b \<Longrightarrow> t' = t \<lparr> blocks := (blocks t) (block_id b \<mapsto> b), head_id := x \<rparr> \<Longrightarrow> best_head t' \<Longrightarrow>
    tree_reachable t'"
| mark: "tree_reachable t \<Longrightarrow> blocks t y = Some b \<Longrightarrow>
    t' = t \<lparr> blocks := (blocks t) (y \<mapsto> b \<lparr> validated := True \<rparr>), head_id := x \<rparr> \<Longrightarrow> best_head t' \<Longrightarrow>
    tree_reachable t'"
| remove: "tree_reachable t \<Longrightarrow> head_id t \<noteq> x \<Longrightarrow> \<not> tree_below t x (head_id t) \<Longrightarrow>
    tree_reachable (t \<lparr> blocks := blocks t |` {y. y \<noteq> x \<and> \<not> tree_below t x y} \<rparr>)"
| advance: "tree_reachable t \<Longrightarrow> blocks t x = Some b \<Longrightarrow> validated b \<Longrightarrow>
    head_id t = x \<or> tree_below t x (head_id t) \<Longrightarrow>
    tree_reachable (t \<lparr> blocks := blocks t |` {y. tree_below t x y}, root_block := b \<rparr>)"
| rollback: "tree_reachable t \<Longrightarrow>
    tree_reachable (t \<lparr> blocks := (\<lambda>x. map_option (\<lambda>b. b \<lparr> validated := False \<rparr>) (blocks t x)),
      head_id := block_id (root_block t) \<rparr>)"

section \<open>The abstraction of a database\<close>

definition block_tree_of :: "('t, 'm) fork_db \<Rightarrow> ('t, 'm) block_tree" where
  "block_tree_of d = \<lparr> blocks = (\<lambda>x. map_option (store d) (get_block d x)),
     root_block = store d (the (root d)), head_id = id_of d (the (head d)) \<rparr>"

lemma blocks_of:
  assumes "forest d S"
  shows "blocks (block_tree_of d) x = Some b \<longleftrightarrow> (\<exists>p \<in> set (index d). id_of d p = x \<and> store d p = b)"
  using get_block_iff [OF assms] by (auto simp: block_tree_of_def)

lemma blocks_of_id:
  assumes "forest d S" "p \<in> set (index d)"
  shows "blocks (block_tree_of d) (id_of d p) = Some (store d p)"
  using blocks_of [OF assms(1)] assms(2) by blast

lemma tree_below_of:
  assumes "forest d S"
  shows "tree_below (block_tree_of d) x y \<longleftrightarrow> (\<exists>p. below d x p \<and> id_of d p = y)"
proof
  assume "tree_below (block_tree_of d) x y"
  then show "\<exists>p. below d x p \<and> id_of d p = y"
  proof (induction rule: tree_below.induct)
    case (child y b)
    then obtain p where "p \<in> set (index d)" "id_of d p = y" "store d p = b" using blocks_of [OF assms] by blast
    with child(2) show ?case by (auto simp: prev_of_def intro!: exI [of _ p] below.child)
  next
    case (deeper z y b)
    then obtain p q where "p \<in> set (index d)" "id_of d p = y" "store d p = b" "below d x q" "id_of d q = z"
      using blocks_of [OF assms] by blast
    with deeper(3) show ?case by (auto simp: prev_of_def intro!: exI [of _ p] below.deeper [of d x q])
  qed
next
  assume "\<exists>p. below d x p \<and> id_of d p = y"
  then obtain p where "below d x p" "id_of d p = y" by blast
  then show "tree_below (block_tree_of d) x y"
  proof (induction arbitrary: y rule: below.induct)
    case (child p)
    then show ?case using blocks_of_id [OF assms child(1)] by (auto simp: prev_of_def intro: tree_below.child)
  next
    case (deeper q p)
    then show ?case using blocks_of_id [OF assms deeper(2)]
      by (auto simp: prev_of_def intro: tree_below.deeper)
  qed
qed

lemma tree_block_of:
  assumes ok: "fork_ok d r h"
  shows "tree_block (block_tree_of d) x = Some b \<longleftrightarrow> (\<exists>p \<in> insert r (set (index d)). id_of d p = x \<and> store d p = b)"
proof -
  have r: "root d = Some r" and forest: "forest d {id_of d r}" using ok by (simp_all add: fork_ok_def)
  then have rb: "root_block (block_tree_of d) = store d r" "block_id (store d r) = id_of d r"
    by (simp_all add: block_tree_of_def id_of_def)
  show ?thesis
    using root_id_neq [OF forest] blocks_of [OF forest, of x b]
    by (auto simp: tree_block_def rb)
qed

lemma best_head_of:
  assumes ok: "fork_ok d r h"
  shows "best_head (block_tree_of d)"
proof -
  have h: "head d = Some h" "h \<in> insert r (set (index d))" "validated (store d h)"
    "\<And>p. p \<in> set (index d) \<Longrightarrow> validated (store d p) \<Longrightarrow> \<not> first_preferred (store d p) (store d h)"
    and forest: "forest d {id_of d r}"
    using ok by (auto simp: fork_ok_def head_ok_def valid_at_def is_valid_def)
  then have "head_id (block_tree_of d) = id_of d h" by (simp add: block_tree_of_def)
  then have tb: "tree_block (block_tree_of d) (head_id (block_tree_of d)) = Some (store d h)"
    by (simp only: tree_block_of [OF ok]) (rule bexI [OF _ h(2)], simp)
  show ?thesis unfolding best_head_def
  proof (intro exI conjI allI impI)
    fix x b assume "blocks (block_tree_of d) x = Some b" "validated b"
    then show "\<not> first_preferred b (store d h)" unfolding blocks_of [OF forest] using h(4) by blast
  qed (use tb h(3) in simp_all)
qed

section \<open>Refinement\<close>

lemma option_eqI:
  assumes "\<And>y. a = Some y \<longleftrightarrow> c = Some y"
  shows "a = c"
  using assms by (metis not_Some_eq)

lemma blocks_eqI:
  assumes "forest d S" "\<And>x b. m x = Some b \<longleftrightarrow> (\<exists>p \<in> set (index d). id_of d p = x \<and> store d p = b)"
  shows "blocks (block_tree_of d) = m"
proof (rule ext, rule option_eqI)
  show "blocks (block_tree_of d) x = Some b \<longleftrightarrow> m x = Some b" for x b
    by (rule trans [OF blocks_of [OF assms(1)] assms(2) [symmetric]])
qed

lemma tree_of_root_head:
  assumes "fork_ok d r h"
  shows "root_block (block_tree_of d) = store d r" "head_id (block_tree_of d) = id_of d h"
  using assms by (simp_all add: block_tree_of_def fork_ok_def)

lemma tree_of_add:
  assumes ok: "fork_ok d r h" and q: "q \<in> set (index d) \<or> root d = Some q"
    and num: "unat (block_num (store d q)) < 4294967295"
    and b: "built_on (store d q) bs" "make_shared bs d = (p, d1)" "add env (Some p) ign d1 = Inr d2"
    and tree: "tree_reachable (block_tree_of d)"
  shows "tree_reachable (block_tree_of d2)"
proof -
  note ms = fork_ok_make_shared [OF ok b(2)]
  obtain h2 where ok2: "fork_ok d2 r h2" using fork_ok_add_built [OF ok q num b] by blast
  have forest: "forest d {id_of d r}" and forest2: "forest d2 {id_of d2 r}" using ok ok2 by (simp_all add: fork_ok_def)
  have q: "q \<in> insert r (set (index d))" using q ok by (auto simp: fork_ok_def)
  have store2: "store d2 = store d1"
    and cases2: "index d2 = index d1 @ [p] \<or> get_block d1 (id_of d1 p) \<noteq> None \<and> d2 = d1"
    using b(3) by (auto simp: add_def add_impl_def Let_def split: if_splits option.splits)
  have old: "store d2 s = store d s" "id_of d2 s = id_of d s" if "s \<in> insert r (set (index d))" for s
    using that ok store2 ms(6) by (auto simp: fork_ok_def id_of_def)
  have new: "store d2 p = bs" using ms(3) store2 by simp
  show ?thesis
  proof (cases "index d2 = index d1 @ [p]")
    case False
    then have d2: "d2 = d1" using cases2 by blast
    have "blocks (block_tree_of d2) = blocks (block_tree_of d)"
      using old blocks_of [OF forest] by (intro blocks_eqI [OF forest2]) (auto simp: d2 ms(4))
    moreover have "h \<in> insert r (set (index d))" using ok by (auto simp: fork_ok_def head_ok_def)
    ultimately have "block_tree_of d2 = block_tree_of d"
      using tree_of_root_head [OF ok] tree_of_root_head [OF ms(1)] old by (simp add: d2)
    then show ?thesis using tree by simp
  next
    case True
    then have idx: "set (index d2) = insert p (set (index d))" using ms(4) by simp
    have fresh: "p \<notin> insert r (set (index d))" using ok ms(2) by (auto simp: fork_ok_def)
    have unique: "id_of d2 s \<noteq> id_of d2 p" if "s \<in> insert r (set (index d))" for s
      using that fresh same_id [OF forest2, of s p] idx by blast
    have idp: "id_of d2 p = block_id bs" using new by (simp add: id_of_def)
    let ?t = "(block_tree_of d) \<lparr> blocks := (blocks (block_tree_of d)) (block_id bs \<mapsto> bs), head_id := head_id (block_tree_of d2) \<rparr>"
    have "((blocks (block_tree_of d)) (block_id bs \<mapsto> bs)) x = Some b \<longleftrightarrow>
        (\<exists>s \<in> set (index d2). id_of d2 s = x \<and> store d2 s = b)" for x b
      using blocks_of [OF forest, of x b] old unique idp new by (auto simp: idx)
    then have "blocks (block_tree_of d2) = (blocks (block_tree_of d)) (block_id bs \<mapsto> bs)" by (intro blocks_eqI [OF forest2])
    then have t: "block_tree_of d2 = ?t"
      using tree_of_root_head [OF ok] tree_of_root_head [OF ok2] old(1) [of r] by simp
    have "tree_block (block_tree_of d) (block_id bs) = None"
      using tree_block_of [OF ok, of "block_id bs"] unique old(2) idp by (metis not_Some_eq)
    moreover have "tree_block (block_tree_of d) (previous (header bs)) = Some (store d q)"
      using tree_block_of [OF ok] q b(1) by (auto simp: built_on_def id_of_def)
    ultimately show ?thesis
      using tree_reachable.add [OF tree _ _ b(1) t best_head_of [OF ok2]] by blast
  qed
qed

lemma tree_of_mark:
  assumes ok: "fork_ok d r h" and mark: "mark_valid p d = Inr d'" and tree: "tree_reachable (block_tree_of d)"
  shows "tree_reachable (block_tree_of d')"
proof (cases "validated (store d p)")
  case True
  then show ?thesis using mark tree by (simp add: mark_valid_def)
next
  case False
  have forest: "forest d {id_of d r}" using ok by (simp add: fork_ok_def)
  obtain h' where ok': "fork_ok d' r h'" using fork_ok_mark_valid [OF ok mark] by blast
  then have forest': "forest d' {id_of d' r}" by (simp add: fork_ok_def)
  from mark False obtain n where n: "get_block d (id_of d p) = Some n" "store d' = store (set_validated True n d)"
      "index d' = index d"
    by (auto simp: mark_valid_def Let_def set_validated_def split: option.splits if_splits)
  then have mem: "n \<in> set (index d)" by (simp add: get_block_iff [OF forest])
  have store': "store d' s = (if s = n then (store d n) \<lparr> validated := True \<rparr> else store d s)" for s
    by (simp add: n(2) set_validated_def)
  then have id': "id_of d' s = id_of d s" for s by (simp add: id_of_def)
  let ?b = "(store d n) \<lparr> validated := True \<rparr>"
  have "((blocks (block_tree_of d)) (id_of d n \<mapsto> ?b)) x = Some b \<longleftrightarrow>
      (\<exists>s \<in> set (index d'). id_of d' s = x \<and> store d' s = b)" for x b
  proof (cases "x = id_of d n")
    case True
    have "s = n" if "s \<in> set (index d)" "id_of d s = id_of d n" for s using that id_inject [OF forest _ mem] by blast
    then show ?thesis using mem True by (auto simp: n(3) id' store')
  next
    case False
    then show ?thesis using blocks_of [OF forest, of x b] by (force simp: n(3) id' store')
  qed
  then have "blocks (block_tree_of d') = (blocks (block_tree_of d)) (id_of d n \<mapsto> ?b)" by (intro blocks_eqI [OF forest'])
  moreover have "r \<noteq> n" using mem root_not_in_index [OF forest] by blast
  ultimately have t: "block_tree_of d' = (block_tree_of d) \<lparr> blocks := (blocks (block_tree_of d)) (id_of d n \<mapsto> ?b), head_id := head_id (block_tree_of d') \<rparr>"
    using tree_of_root_head [OF ok] tree_of_root_head [OF ok'] store' by simp
  from tree_reachable.mark [OF tree blocks_of_id [OF forest mem] t best_head_of [OF ok']] show ?thesis .
qed

lemma blocks_of_kept:
  assumes forest: "forest d S" and forest': "forest d' T" and store: "store d' = store d"
    and index: "index d' = filter Q (index d)"
    and Y: "\<And>p. p \<in> set (index d) \<Longrightarrow> Q p \<longleftrightarrow> id_of d p \<in> Y"
  shows "blocks (block_tree_of d') = blocks (block_tree_of d) |` Y"
proof (rule blocks_eqI [OF forest'])
  fix x b
  have "(blocks (block_tree_of d) |` Y) x = Some b \<longleftrightarrow> x \<in> Y \<and> blocks (block_tree_of d) x = Some b"
    by (simp add: restrict_map_def)
  then show "(blocks (block_tree_of d) |` Y) x = Some b \<longleftrightarrow> (\<exists>p \<in> set (index d'). id_of d' p = x \<and> store d' p = b)"
    using Y unfolding blocks_of [OF forest] access_cong(1) [OF store] store index by auto
qed

lemma tree_below_id:
  assumes "fork_ok d r h" "p \<in> insert r (set (index d))"
  shows "tree_below (block_tree_of d) x (id_of d p) \<longleftrightarrow> below d x p"
proof -
  have forest: "forest d {id_of d r}" using assms(1) by (simp add: fork_ok_def)
  show ?thesis
    unfolding tree_below_of [OF forest] using same_id [OF forest assms(2)] below_mem by (metis insertI2)
qed

lemma tree_of_remove:
  assumes ok: "fork_ok d r h" and remove: "remove x d = Inr d'" and tree: "tree_reachable (block_tree_of d)"
  shows "tree_reachable (block_tree_of d')"
proof -
  have forest: "forest d {id_of d r}" and h: "head d = Some h" "h \<in> insert r (set (index d))"
    using ok by (auto simp: fork_ok_def head_ok_def)
  have ok': "fork_ok d' r h" by (rule fork_ok_remove [OF ok remove])
  then have forest': "forest d' {id_of d' r}" by (simp add: fork_ok_def)
  have out: "id_of d h \<notin> closure d x" and d': "d' = keep (\<lambda>p. id_of d p \<notin> closure d x) d"
    using remove unfolding remove_keep [OF forest h(1)] by (auto split: if_splits)
  have closure: "id_of d p \<in> closure d x \<longleftrightarrow> id_of d p = x \<or> tree_below (block_tree_of d) x (id_of d p)" for p
    unfolding closure_iff tree_below_of [OF forest] by metis
  have "blocks (block_tree_of d') = blocks (block_tree_of d) |` {y. y \<noteq> x \<and> \<not> tree_below (block_tree_of d) x y}"
    by (rule blocks_of_kept [OF forest forest', where Q = "\<lambda>p. id_of d p \<notin> closure d x"]) (simp_all add: d' closure)
  then have t: "block_tree_of d' = (block_tree_of d)
      \<lparr> blocks := blocks (block_tree_of d) |` {y. y \<noteq> x \<and> \<not> tree_below (block_tree_of d) x y} \<rparr>"
    using tree_of_root_head [OF ok] tree_of_root_head [OF ok'] by (simp add: d')
  have "head_id (block_tree_of d) \<noteq> x" "\<not> tree_below (block_tree_of d) x (head_id (block_tree_of d))"
    using out tree_of_root_head(2) [OF ok] by (simp_all add: closure)
  from tree_reachable.remove [OF tree this] show ?thesis unfolding t .
qed

lemma tree_of_advance:
  assumes ok: "fork_ok d r h" and adv: "advance_root x d = (Inr u, d')" and tree: "tree_reachable (block_tree_of d)"
  shows "tree_reachable (block_tree_of d')"
proof -
  have forest: "forest d {id_of d r}" and hd: "head d = Some h" and rt: "root d = Some r"
    and h: "h = r \<or> h \<in> set (index d)"
    using ok by (auto simp: fork_ok_def head_ok_def)
  obtain n' where ok': "fork_ok d' n' h" using fork_ok_advance_root [OF ok adv] by blast
  from adv rt obtain n where n: "get_block d x = Some n" "valid_at d n"
    by (auto simp: advance_root_def split: option.splits if_splits)
  then have x: "n \<in> set (index d)" "x = id_of d n" by (simp_all add: get_block_iff [OF forest])
  from advance_root_spec [OF rt hd forest h x(1) n(2)] adv
  have sub: "h = n \<or> below d x h" and d': "d' = (keep (below d x) d) \<lparr> root := Some n \<rparr>"
    by (auto simp: x split: if_splits)
  have "n' = n" and forest': "forest d' {id_of d' n}" using ok' by (auto simp: fork_ok_def d')
  have "blocks (block_tree_of d') = blocks (block_tree_of d) |` {y. tree_below (block_tree_of d) x y}"
    by (rule blocks_of_kept [OF forest forest', where Q = "below d x"]) (simp_all add: d' tree_below_id [OF ok])
  then have t: "block_tree_of d' = (block_tree_of d)
      \<lparr> blocks := blocks (block_tree_of d) |` {y. tree_below (block_tree_of d) x y}, root_block := store d n \<rparr>"
    using tree_of_root_head [OF ok] tree_of_root_head [OF ok'] by (simp add: d' \<open>n' = n\<close> id_of_def)
  have "head_id (block_tree_of d) = x \<or> tree_below (block_tree_of d) x (head_id (block_tree_of d))"
    using sub h by (auto simp: tree_of_root_head(2) [OF ok] tree_below_id [OF ok] x)
  moreover have "validated (store d n)" using n(2) by (simp add: valid_at_def is_valid_def)
  moreover have "blocks (block_tree_of d) x = Some (store d n)" unfolding x(2) by (rule blocks_of_id [OF forest x(1)])
  ultimately show ?thesis unfolding t by (intro tree_reachable.advance [OF tree])
qed

lemma tree_of_rollback:
  assumes ok: "fork_ok d r h" and tree: "tree_reachable (block_tree_of d)"
  shows "tree_reachable (block_tree_of (rollback_head_to_root d))"
proof -
  let ?d = "rollback_head_to_root d"
  have forest: "forest d {id_of d r}" using ok by (simp add: fork_ok_def)
  have ok': "fork_ok ?d r r" by (rule fork_ok_rollback [OF ok])
  then have forest': "forest ?d {id_of ?d r}" by (simp add: fork_ok_def)
  have same: "index ?d = index d" "id_of ?d = id_of d"
    using rollback_blocks [of d] same_blocks_access(1) [OF rollback_blocks] by (simp_all add: same_blocks_def)
  have st: "store ?d p = (if p \<in> set (index d) then (store d p) \<lparr> validated := False \<rparr> else store d p)" for p
  proof -
    have "store (fold (set_validated False) ps d) p = (if p \<in> set ps then (store d p) \<lparr> validated := False \<rparr> else store d p)" for ps
      by (induction ps rule: rev_induct) (auto simp: set_validated_def)
    then show ?thesis by (simp add: rollback_head_to_root_def)
  qed
  have "map_option (\<lambda>b. b \<lparr> validated := False \<rparr>) (blocks (block_tree_of d) x) = Some b \<longleftrightarrow>
      (\<exists>p \<in> set (index ?d). id_of ?d p = x \<and> store ?d p = b)" for x b
    unfolding same map_option_eq_Some blocks_of [OF forest] by (auto simp: st)
  then have "blocks (block_tree_of ?d) = (\<lambda>x. map_option (\<lambda>b. b \<lparr> validated := False \<rparr>) (blocks (block_tree_of d) x))"
    by (rule blocks_eqI [OF forest'])
  moreover have "store ?d r = store d r" using root_not_in_index [OF forest] by (simp add: st)
  ultimately have "block_tree_of ?d = (block_tree_of d)
      \<lparr> blocks := (\<lambda>x. map_option (\<lambda>b. b \<lparr> validated := False \<rparr>) (blocks (block_tree_of d) x)),
        head_id := block_id (root_block (block_tree_of d)) \<rparr>"
    using tree_of_root_head [OF ok] tree_of_root_head [OF ok'] by (simp add: id_of_def)
  then show ?thesis using tree_reachable.rollback [OF tree] by simp
qed

text \<open>
  C7: the fork database refines the tree of blocks: the abstraction of every reachable database
  is reached from a single root by the steps of the specification, each of which adds a block on
  top of its predecessor, marks a block as validated, removes a block with all blocks below it,
  moves the root to a validated block that the head is on, or forgets all validation marks; and
  whenever a block is added or marked, the head is a best validated block.
\<close>

theorem fork_database_refines:
  assumes "fork_reachable env d"
  shows "tree_reachable (block_tree_of d)"
  using assms
proof (induction rule: fork_reachable.induct)
  case (reset s d)
  have "block_tree_of (reset s d) =
      \<lparr> blocks = Map.empty, root_block = block_state_of_header s, head_id = block_id s \<rparr>"
    by (simp add: block_tree_of_def reset_def make_shared_def get_block_def find_by_def id_of_def
        block_state_of_header_def header_state.defs)
  then show ?case using tree_reachable.start [of "block_state_of_header s"]
    by (simp add: block_state_of_header_def header_state.defs block_state.defs)
next
  case (receive d q b skip bs p d1 ign d2)
  then show ?case using reachable_fork_ok tree_of_add received_built_on by metis
next
  case (produce d q t n cur b trxs signer bs p d1 ign d2)
  then show ?case using reachable_fork_ok tree_of_add produced_built_on by metis
next
  case (mark d b d')
  then show ?case using reachable_fork_ok tree_of_mark by metis
next
  case (remove d x d')
  then show ?case using reachable_fork_ok tree_of_remove by metis
next
  case (advance d x u d')
  then show ?case using reachable_fork_ok tree_of_advance by metis
next
  case (rollback d)
  then show ?case using reachable_fork_ok tree_of_rollback by metis
qed

end
