(* ===== verification/Header_Chain.thy ===== *)
theory Header_Chain
  imports Header_State_Facts
begin

text \<open>
  Chains of header states from the start of a chain, their invariant, and a sample chain on which
  the properties of header states are instantiated; on it the irreversible block number decreases
  after the promotion of a smaller schedule.
\<close>

section \<open>Chains of header states\<close>

text \<open>
  The states reached from \<open>s\<close> by accepted headers. New schedules are within the limit that the
  setters of proposed producers enforce, and the 32-bit block number does not run out.
\<close>

inductive header_run :: "chain_env \<Rightarrow> header_state \<Rightarrow> header_state \<Rightarrow> bool" for env s where
  start: "header_run env s s"
| accept: "header_run env s s1 \<Longrightarrow> unat (block_num s1) < 4294967295 \<Longrightarrow>
    next_header env s1 h sigs skip = Inr s2 \<Longrightarrow>
    length (producers (info_schedule (pending_schedule s2))) \<le> max_producers \<Longrightarrow> header_run env s s2"

lemma header_run_ok:
  assumes "header_run env s s'" "header_ok s"
  shows "header_ok s' \<and> dpos_proposed_irreversible_blocknum s \<le> dpos_proposed_irreversible_blocknum s'"
  using assms
proof (induction rule: header_run.induct)
  case (accept s1 h sigs skip s2)
  then have "header_ok s1" by simp
  from next_header_ok [OF this accept(2-4)] show ?case using accept by force
qed simp

lemma header_ok_genesis: "header_ok (genesis_header_state env key t cid)"
proof -
  have "num_from_id digest_default = 0"
    by (simp add: num_from_id_def digest_default_def endian_reverse_u32_def)
  then show ?thesis
    by (simp add: header_ok_def genesis_header_state_def num_from_calculate_id Let_def block_num_of_def
        genesis_header_def max_producers_def maximum_tracked_dpos_confirmations_def)
qed


section \<open>A sample chain\<close>

definition sample_producer :: "u64 \<Rightarrow> int \<Rightarrow> producer_authority" where
  "sample_producer n k = \<lparr> producer_name = Name n, pa_authority = single_key_authority (Public_Key 0 [k]) \<rparr>"

definition sample_proposal :: producer_authority_schedule where
  "sample_proposal = \<lparr> schedule_version = 1, producers = [sample_producer 3 9] \<rparr>"

definition chain_sample_env :: chain_env where
  "chain_sample_env =
     \<lparr> hash_pair = (\<lambda>_. digest_default), hash_header = (\<lambda>_. digest_default),
       hash_legacy_schedule = (\<lambda>_. digest_default), hash_schedule = (\<lambda>_. digest_default),
       recover_key = (\<lambda>sig _. Inr (Public_Key 0 (sig_data sig))),
       pack_activation = (\<lambda>_. []), unpack_activation = (\<lambda>_. Inr [digest_default]),
       pack_schedule = (\<lambda>_. []), unpack_schedule = (\<lambda>_. Inr sample_proposal),
       pack_signatures = (\<lambda>_. []), unpack_signatures = (\<lambda>_. Inr []),
       wtmsig_digest = None, validator = (\<lambda>_ _ _. Inr ()) \<rparr>"

definition chain_sample_genesis :: header_state where
  "chain_sample_genesis = genesis_header_state chain_sample_env (Public_Key 0 [7]) (Block_Timestamp 10) digest_default"

definition sample_header :: signed_block_header where
  "sample_header =
     \<lparr> timestamp = Block_Timestamp 12, producer = system_account_name, confirmed = 0,
       previous = block_id chain_sample_genesis, transaction_mroot = digest_default,
       action_mroot = digest_default, header_schedule_version = 0, new_producers = None,
       header_extensions = [], producer_signature = Signature 0 [7] \<rparr>"

lemma sample_accepted:
  "case next_header chain_sample_env chain_sample_genesis sample_header [] False of
     Inl e \<Rightarrow> False
   | Inr s \<Rightarrow> length (producers (info_schedule (pending_schedule s))) = 0 \<and>
       block_num s = 2 \<and> confirm_count s = [] \<and> dpos_proposed_irreversible_blocknum s = 2"
  by code_simp

lemma header_run_sample:
  "\<exists>s. header_run chain_sample_env chain_sample_genesis s \<and> next_header chain_sample_env chain_sample_genesis sample_header [] False = Inr s \<and>
     block_num s = 2"
proof -
  obtain s where s: "next_header chain_sample_env chain_sample_genesis sample_header [] False = Inr s"
    "length (producers (info_schedule (pending_schedule s))) = 0" "block_num s = 2"
    using sample_accepted by (auto split: sum.splits)
  have "block_num chain_sample_genesis = 1" by code_simp
  then have "unat (block_num chain_sample_genesis) < 4294967295" by simp
  from header_run.accept [OF header_run.start this s(1)] s show ?thesis by (auto simp: max_producers_def)
qed


text \<open>
  Four tracked producers, the first of which has not produced for long; a schedule of the first
  two is pending since block 5.
\<close>

definition sample_pending :: header_state where
  "sample_pending = chain_sample_genesis
     \<lparr> block_num := 10,
       dpos_proposed_irreversible_blocknum := 6,
       dpos_irreversible_blocknum := 5,
       active_schedule := \<lparr> schedule_version = 0, producers = [sample_producer 2 7] \<rparr>,
       producer_to_last_implied_irb := [(Name 1, 1), (Name 2, 5), (Name 3, 5), (Name 4, 5)],
       block_id := Digest 0x0A000000 0 0 0,
       pending_schedule :=
         \<lparr> schedule_lib_num = 5, schedule_hash = digest_default,
           info_schedule = \<lparr> schedule_version = 1, producers = [sample_producer 1 8, sample_producer 2 7] \<rparr> \<rparr> \<rparr>"

definition sample_header_on :: "header_state \<Rightarrow> block_timestamp \<Rightarrow> u32 \<Rightarrow> signed_block_header" where
  "sample_header_on s t version = sample_header
     \<lparr> timestamp := t, producer := Name 2, previous := block_id s, header_schedule_version := version \<rparr>"

definition sample_promoted :: header_state where
  "sample_promoted =
     \<lparr> block_num = 11, dpos_proposed_irreversible_blocknum = 11, dpos_irreversible_blocknum = 5,
       active_schedule = \<lparr> schedule_version = 1, producers = [sample_producer 1 8, sample_producer 2 7] \<rparr>,
       blockroot_merkle = \<lparr> node_count = 1, active_nodes = [Digest 0x0A000000 0 0 0] \<rparr>,
       producer_to_last_produced = [(Name 1, 5), (Name 2, 11)],
       producer_to_last_implied_irb = [(Name 1, 1), (Name 2, 6)],
       valid_block_signing_authority = single_key_authority (Public_Key 0 [7]),
       confirm_count = [], block_id = Digest 0x0B000000 0 0 0,
       header = sample_header_on sample_pending (Block_Timestamp 24) 0,
       pending_schedule =
         \<lparr> schedule_lib_num = 5, schedule_hash = digest_default,
           info_schedule = \<lparr> schedule_version = 1, producers = [] \<rparr> \<rparr>,
       activated_protocol_features = {||}, additional_signatures = [], header_exts = [] \<rparr>"

lemma header_ok_sample_pending: "header_ok sample_pending"
proof -
  have "num_from_id (block_id sample_pending) = block_num sample_pending" by code_simp
  then show ?thesis
    by (simp add: header_ok_def flat_ok_def sample_pending_def less_name_def maximum_tracked_dpos_confirmations_def
        max_producers_def chain_sample_genesis_def genesis_header_state_def Let_def)
qed

lemma lib_ok_sample_pending: "lib_ok sample_pending"
  by code_simp

lemma promoting_step:
  "next_header chain_sample_env sample_pending (sample_header_on sample_pending (Block_Timestamp 24) 0) [] False =
     Inr sample_promoted"
  by code_simp

lemma after_promotion:
  "case next_header chain_sample_env sample_promoted (sample_header_on sample_promoted (Block_Timestamp 36) 1) [] False of
      Inl _ \<Rightarrow> False
    | Inr s \<Rightarrow> dpos_irreversible_blocknum s = 1"
  by code_simp


theorem irreversible_quorum_witness:
  "producer_to_last_implied_irb sample_pending \<noteq> [] \<and> 5 \<le> calc_dpos_last_irreversible sample_pending (Name 2) \<and>
   \<not> 6 \<le> calc_dpos_last_irreversible sample_pending (Name 2)"
  using irreversible_quorum [of sample_pending 5 "Name 2"] irreversible_quorum [of sample_pending 6 "Name 2"]
  by (simp add: sample_pending_def)

theorem irreversible_monotone_witness:
  "header_ok sample_pending \<and> lib_ok sample_pending \<and>
   dpos_irreversible_blocknum sample_pending \<le> dpos_irreversible_blocknum sample_promoted"
  using irreversible_monotone [OF header_ok_sample_pending lib_ok_sample_pending] promoting_step
    header_ok_sample_pending lib_ok_sample_pending by blast

theorem promotion_needs_quorum_witness:
  "active_schedule sample_promoted = info_schedule (pending_schedule sample_pending) \<and>
   quorum 5 (implied_blocknums sample_pending (Name 2))"
proof -
  have "active_schedule sample_promoted \<noteq> active_schedule sample_pending"
    by (simp add: sample_promoted_def sample_pending_def)
  with promotion_needs_quorum promoting_step show ?thesis
    by (force simp: sample_pending_def sample_header_on_def)
qed

theorem double_confirm_iff_witness:
  "let s = sample_pending \<lparr> producer_to_last_produced := [(Name 2, 8)] \<rparr>
   in check_double_confirm s (Name 2) 2 = Inr () \<and> check_double_confirm s (Name 2) 3 \<noteq> Inr () \<and>
      check_double_confirm s (Name 2) 12 = Inr ()"
proof -
  let ?s = "sample_pending \<lparr> producer_to_last_produced := [(Name 2, 8)] \<rparr>"
  have ok: "header_ok ?s"
    using header_ok_sample_pending by (simp add: header_ok_def flat_ok_def) (simp add: sample_pending_def)
  have bn: "unat (block_num ?s) = 10" by (simp add: sample_pending_def)
  have l: "flat_find (producer_to_last_produced ?s) (Name 2) = Some 8" by (simp add: flat_find_def)
  from double_confirm_iff [OF ok _ l, of 2] double_confirm_iff [OF ok _ l, of 3] double_confirm_iff [OF ok _ l, of 12]
  show ?thesis unfolding Let_def bn by simp
qed

theorem verify_signee_iff_witness:
  "verify_signee chain_sample_env sample_promoted = Inr ()"
proof -
  have s: "valid_block_signing_authority sample_promoted = single_key_authority (Public_Key 0 [7])"
    "producer_signature (header sample_promoted) = Signature 0 [7]" "additional_signatures sample_promoted = []"
    by (simp_all add: sample_promoted_def sample_header_on_def sample_header_def)
  then have "distinct (map kw_key (bsa_keys (authority_v0 (valid_block_signing_authority sample_promoted))))"
    by (simp add: single_key_authority_def)
  from verify_signee_iff [OF this, of chain_sample_env] show ?thesis
    by (rule iffD2) (rule exI [of _ "[Public_Key 0 [7]]"], simp add: s single_key_authority_def chain_sample_env_def)
qed

text \<open>A producer that activates a feature and proposes a schedule on top of the sample chain.\<close>

definition sample_pending_state :: pending_header_state where
  "sample_pending_state =
     (case header_next chain_sample_env (sample_pending \<lparr> pending_schedule := (pending_schedule sample_pending)
         \<lparr> info_schedule := schedule_default \<rparr> \<rparr>) (Block_Timestamp 24) 0 of Inr p \<Rightarrow> p)"


end
