(* ===== verification/Fork_Samples.thy ===== *)
theory Fork_Samples
  imports Fork_Refinement Header_Chain
begin

text \<open>
  A small reachable fork database with two branches, on which the properties of the fork database
  are instantiated.
\<close>

section \<open>A sample database\<close>

text \<open>
  On top of a genesis block: block 2, which is validated, and two blocks 3 on top of it, of which
  the first is validated.
\<close>

definition receive_on ::
  "chain_env \<Rightarrow> ptr \<Rightarrow> 't signed_block \<Rightarrow> ('t, 'm) fork_db \<Rightarrow> ('t, 'm) fork_db res" where
  "receive_on env q b d =
     rbind (block_state_received env (store d q) b False) (\<lambda>bs.
     let (p, d1) = make_shared bs d in add env (Some p) False d1)"

lemma reachable_receive:
  assumes "fork_reachable env d" "q \<in> set (index d) \<or> root d = Some q" "block_num (store d q) < 4294967295"
    "receive_on env q b d = Inr d'"
  shows "fork_reachable env d'"
proof -
  obtain bs where "block_state_received env (store d q) b False = Inr bs"
    "add env (Some (fst (make_shared bs d))) False (snd (make_shared bs d)) = Inr d'"
    using assms(4) by (auto simp: receive_on_def split_def Let_def)
  moreover have "unat (block_num (store d q)) < 4294967295" using assms(3) by (simp add: word_less_nat_alt)
  ultimately show ?thesis using fork_reachable.receive assms(1,2) prod.collapse by metis
qed

definition fork_env :: chain_env where
  "fork_env = chain_sample_env \<lparr> hash_header := (\<lambda>h. Digest 0 0 0 (ucast (slot (timestamp h)))) \<rparr>"

definition fork_genesis :: header_state where
  "fork_genesis = genesis_header_state fork_env (Public_Key 0 [7]) (Block_Timestamp 10) digest_default"

definition fork_block :: "(unit, unit) fork_db \<Rightarrow> ptr \<Rightarrow> u32 \<Rightarrow> unit signed_block" where
  "fork_block d q t = signed_block_header.extend
     (sample_header \<lparr> timestamp := Block_Timestamp t, previous := id_of d q \<rparr>)
     (signed_block.fields [] [])"

definition no_blocks :: "(unit, unit) fork_db" where
  "no_blocks = \<lparr> store = (\<lambda>_. block_state_of_header fork_genesis), next_ptr = 0, index = [], root = None, head = None \<rparr>"

definition fork_a :: "(unit, unit) fork_db res" where
  "fork_a = (let d = reset fork_genesis no_blocks in receive_on fork_env 0 (fork_block d 0 12) d)"

definition fork_a' :: "(unit, unit) fork_db res" where
  "fork_a' = rbind fork_a (mark_valid 1)"

definition fork_b :: "(unit, unit) fork_db res" where
  "fork_b = rbind fork_a' (\<lambda>d. receive_on fork_env 1 (fork_block d 1 24) d)"

definition fork_c :: "(unit, unit) fork_db res" where
  "fork_c = rbind fork_b (\<lambda>d. rbind (receive_on fork_env 1 (fork_block d 1 36) d) (mark_valid 2))"

lemma fork_a_value:
  "case fork_a' of Inl _ \<Rightarrow> False | Inr d \<Rightarrow> index d = [1] \<and> block_num (store d 1) = 2"
  by code_simp

lemma fork_b_value:
  "case fork_b of Inl _ \<Rightarrow> False | Inr d \<Rightarrow> index d = [1, 2] \<and> block_num (store d 1) = 2"
  by code_simp

abbreviation fork_id :: "u64 \<Rightarrow> u64 \<Rightarrow> digest" where
  "fork_id n t \<equiv> Digest (n * 0x1000000) 0 0 t"

lemma fork_c_value:
  "case fork_c of Inl _ \<Rightarrow> False
   | Inr d \<Rightarrow> index d = [1, 2, 3] \<and> root d = Some 0 \<and> head d = Some 2 \<and>
       map (id_of d) [0, 1, 2, 3] = [fork_id 1 10, fork_id 2 12, fork_id 3 24, fork_id 3 36] \<and>
       map (prev_of d) [1, 2, 3] = [fork_id 1 10, fork_id 2 12, fork_id 2 12] \<and>
       map (valid_at d) [1, 2, 3] = [True, True, False] \<and>
       map (\<lambda>p. block_num (store d p)) [0, 1, 2, 3] = [1, 2, 3, 3] \<and>
       map (\<lambda>p. dpos_irreversible_blocknum (store d p)) [0, 1, 2, 3] = [0, 0, 2, 2]"
  by code_simp

text \<open>What the witnesses use of the sample.\<close>

definition forks_sample :: "(unit, unit) fork_db \<Rightarrow> bool" where
  "forks_sample d \<longleftrightarrow> fork_reachable fork_env d \<and>
     index d = [1, 2, 3] \<and> root d = Some 0 \<and> head d = Some 2 \<and>
     id_of d 0 = fork_id 1 10 \<and> id_of d 1 = fork_id 2 12 \<and> id_of d 2 = fork_id 3 24 \<and> id_of d 3 = fork_id 3 36 \<and>
     prev_of d 1 = fork_id 1 10 \<and> prev_of d 2 = fork_id 2 12 \<and> prev_of d 3 = fork_id 2 12 \<and>
     valid_at d 1 \<and> valid_at d 2 \<and> \<not> valid_at d 3 \<and> block_num (store d 2) = 3 \<and>
     map (\<lambda>p. dpos_irreversible_blocknum (store d p)) [0, 1, 2, 3] = [0, 0, 2, 2]"

lemma forks_sample: "\<exists>d. forks_sample d"
proof -
  obtain c where c: "fork_c = Inr c" using fork_c_value by (auto split: sum.splits)
  from c [unfolded fork_c_def] obtain b b' where b: "fork_b = Inr b" "receive_on fork_env 1 (fork_block b 1 36) b = Inr b'" "mark_valid 2 b' = Inr c"
    unfolding rbind_eq_Inr by blast
  from b(1) [unfolded fork_b_def] obtain a' where a': "fork_a' = Inr a'" "receive_on fork_env 1 (fork_block a' 1 24) a' = Inr b"
    unfolding rbind_eq_Inr by blast
  from a'(1) [unfolded fork_a'_def] obtain a where a: "fork_a = Inr a" "mark_valid 1 a = Inr a'"
    unfolding rbind_eq_Inr by blast
  have "num_from_id (block_id fork_genesis) = block_num fork_genesis" by code_simp
  then have start: "fork_reachable fork_env (reset fork_genesis no_blocks)" by (rule fork_reachable.reset)
  have "fork_reachable fork_env a"
    by (rule reachable_receive [OF start _ _ a(1) [unfolded fork_a_def Let_def]]) code_simp+
  from fork_reachable.mark [OF this a(2)] have "fork_reachable fork_env a'" .
  moreover have "index a' = [1]" "block_num (store a' 1) = 2"
    using fork_a_value [unfolded a'(1)] by simp_all
  ultimately have "fork_reachable fork_env b" using reachable_receive a'(2) by fastforce
  then have "fork_reachable fork_env b'"
    using reachable_receive b(2) fork_b_value [unfolded b(1)] by fastforce
  from fork_reachable.mark [OF this b(3)] have "fork_reachable fork_env c" .
  then show ?thesis using fork_c_value [unfolded c] by (auto simp: forks_sample_def)
qed

theorem fork_head_best_witness:
  "\<exists>d. forks_sample d \<and> validated (store d 2) \<and> \<not> first_preferred (store d 1) (store d 2)"
proof -
  obtain d where d: "forks_sample d" using forks_sample by blast
  then have "fork_reachable fork_env d" by (simp add: forks_sample_def)
  from fork_head_best [OF this] d show ?thesis
    by (auto simp: forks_sample_def valid_at_def is_valid_def intro!: exI [of _ d])
qed

theorem pending_head_best_witness:
  "\<exists>d p. forks_sample d \<and> pending_head d = Inr (Some p) \<and> \<not> first_preferred (store d 3) (store d p)"
proof -
  obtain d where d: "forks_sample d" using forks_sample by blast
  then have "fork_reachable fork_env d" by (simp add: forks_sample_def)
  from pending_head_best [OF this] d show ?thesis by (auto simp: forks_sample_def intro!: exI [of _ d])
qed

lemma below_sample:
  assumes "forks_sample d"
  shows "below d (fork_id 2 12) 2" "below d (fork_id 2 12) 3" "\<not> below d (fork_id 3 36) p"
    "\<not> below d (fork_id 3 24) p" "\<not> below d (fork_id 2 12) 1"
proof -
  show "below d (fork_id 2 12) 2" "below d (fork_id 2 12) 3"
    using assms by (auto simp: forks_sample_def intro!: below.child)
  have "below d x p \<Longrightarrow> x = fork_id 1 10 \<or> x = fork_id 2 12 \<and> p \<noteq> 1" for x p
    by (induction rule: below.induct) (use assms in \<open>auto simp: forks_sample_def dest!: below_mem\<close>)
  then show "\<not> below d (fork_id 3 36) p" "\<not> below d (fork_id 3 24) p" "\<not> below d (fork_id 2 12) 1" by fastforce+
qed

theorem remove_exact_witness:
  "\<exists>d. forks_sample d \<and> remove (fork_id 3 36) d = Inr (d \<lparr> index := [1, 2] \<rparr>) \<and>
    remove (fork_id 2 12) d = Inl Fork_Database_Exception"
proof -
  obtain d where d: "forks_sample d" using forks_sample by blast
  then have "fork_reachable fork_env d" "head d = Some 2" by (simp_all add: forks_sample_def)
  from remove_exact [OF this] below_sample [OF d] d show ?thesis
    by (auto simp: forks_sample_def intro!: exI [of _ d])
qed

theorem advance_root_exact_witness:
  "\<exists>d. forks_sample d \<and> advance_root (fork_id 2 12) d = (Inr (), d \<lparr> index := [2, 3], root := Some 1 \<rparr>)"
proof -
  obtain d where d: "forks_sample d" using forks_sample by blast
  then have "fork_reachable fork_env d" "head d = Some 2" "1 \<in> set (index d)" "validated (store d 1)"
    by (simp_all add: forks_sample_def valid_at_def is_valid_def)
  from advance_root_exact [OF this] below_sample [OF d] d show ?thesis
    by (auto simp: forks_sample_def intro!: exI [of _ d])
qed

theorem fetch_branch_exact_witness:
  "\<exists>d ps. forks_sample d \<and> fetch_branch d digest_default 3 = Inr [] \<and>
    path d 0 2 ps 0 \<and> fetch_branch d (fork_id 3 24) 3 = Inr (filter (\<lambda>s. block_num (store d s) \<le> 3) ps)"
proof -
  obtain d where d: "forks_sample d" using forks_sample by blast
  then have r: "fork_reachable fork_env d" "root d = Some 0" "digest_default \<notin> ids d" "2 \<in> set (index d)"
    "id_of d 2 = fork_id 3 24"
    by (simp_all add: forks_sample_def ids_def digest_default_def)
  from fetch_branch_exact [OF r(1,2), of digest_default 3] r(3-5) d show ?thesis by metis
qed

theorem fetch_branch_from_exact_witness:
  "\<exists>d ps qs e. forks_sample d \<and> fetch_branch_from d (fork_id 3 24) (fork_id 3 36) = Inr (ps, qs) \<and>
    path d 0 2 ps e \<and> path d 0 3 qs e \<and> set ps \<inter> set qs = {}"
proof -
  obtain d where d: "forks_sample d" using forks_sample by blast
  then have r: "fork_reachable fork_env d" "root d = Some 0" "2 \<in> insert 0 (set (index d))" "3 \<in> insert 0 (set (index d))"
    "id_of d 2 = fork_id 3 24" "id_of d 3 = fork_id 3 36"
    by (simp_all add: forks_sample_def)
  from fetch_branch_from_exact [OF r(1-4)] d show ?thesis unfolding r(5,6) by blast
qed

theorem close_open_roundtrip_witness:
  "\<exists>d file d'. forks_sample d \<and> close None d = (d \<lparr> index := [] \<rparr>, Some file) \<and>
    open_db fork_env (Some file) no_blocks = Inr (d', None) \<and> map_option (id_of d') (head d') = Some (fork_id 3 24)"
proof -
  obtain d where d: "forks_sample d" using forks_sample by blast
  then have r: "fork_reachable fork_env d" "root d = Some 0" "head d = Some 2" "id_of d 2 = fork_id 3 24" "lib_grows d 0"
    by (auto simp: forks_sample_def lib_grows_def)
  from close_open_roundtrip [OF r(1,2,5), of no_blocks] r(3,4) d show ?thesis by auto
qed

theorem fork_database_refines_witness:
  "\<exists>d. forks_sample d \<and> tree_reachable (block_tree_of d) \<and> head_id (block_tree_of d) = fork_id 3 24"
proof -
  obtain d where d: "forks_sample d" using forks_sample by blast
  then have "fork_reachable fork_env d" by (simp add: forks_sample_def)
  from fork_database_refines [OF this] d show ?thesis by (auto simp: forks_sample_def block_tree_of_def)
qed

end
