(* ===== verification/Spec2Isabelle.thy ===== *)
theory Spec2Isabelle
  imports Merkle Resource_Limits_Facts System_Properties Fork_Samples
begin

text \<open>Header.\<close>

end
